(* ===== verification/Harness_Prelude.thy ===== *)
theory Harness_Prelude
  imports Main "HOL-Library.List_Lexorder" "HOL-Library.Char_ord" "HOL-Library.AList"
    "HOL-Library.Multiset"
begin

text \<open>
  The vocabulary the component theories share: results, Rust's two keyed collections,
  saturating and wrapping 64-bit arithmetic, and the text formatting of error messages.

  \<^item> A Rust \<^verbatim>\<open>String\<close> is a \<open>string\<close>; one \<open>char\<close> stands for one Unicode scalar value in the
    range U+0000 to U+00FF, and text outside that range is not represented. The order on
    strings is the lexicographic one, which is also the order of their UTF-8 bytes.
  \<^item> \<^verbatim>\<open>Result<T, E>\<close> is \<open>('e, 't) result\<close>, a sum with the error on the left.
  \<^item> \<^verbatim>\<open>HashMap\<close> is an association list whose order is never observed: a put replaces the first
    entry of the key or appends one. \<^verbatim>\<open>BTreeMap\<close> is an association list sorted by key.
  Both collections satisfy one interface, the locale \<open>key_value_map\<close> below.
\<close>

named_theorems map_laws \<open>what a keyed collection returns after an update\<close>

section \<open>Results\<close>

type_synonym ('e, 'a) result = "'e + 'a"

abbreviation Ok :: "'a \<Rightarrow> ('e, 'a) result" where "Ok \<equiv> Inr"
abbreviation Err :: "'e \<Rightarrow> ('e, 'a) result" where "Err \<equiv> Inl"

definition is_Ok :: "('e, 'a) result \<Rightarrow> bool" where
  "is_Ok r = (case r of Inl _ \<Rightarrow> False | Inr _ \<Rightarrow> True)"

lemma is_Ok_simps [simp]: "is_Ok (Ok x)" "\<not> is_Ok (Err e)"
  by (simp_all add: is_Ok_def)

text \<open>The \<^verbatim>\<open>?\<close> operator of the source on a \<^verbatim>\<open>Result\<close>.\<close>

fun bind_result :: "('e, 'a) result \<Rightarrow> ('a \<Rightarrow> ('e, 'b) result) \<Rightarrow> ('e, 'b) result" where
  "bind_result (Inl e) f = Inl e"
| "bind_result (Inr x) f = f x"

lemma bind_result_Ok_iff:
  "bind_result r f = Ok y \<longleftrightarrow> (\<exists>x. r = Ok x \<and> f x = Ok y)"
  by (cases r) auto

text \<open>\<^verbatim>\<open>Option::ok_or\<close>.\<close>

definition ok_or :: "'a option \<Rightarrow> 'e \<Rightarrow> ('e, 'a) result" where
  "ok_or x e = (case x of None \<Rightarrow> Err e | Some v \<Rightarrow> Ok v)"

lemma ok_or_simps [simp]: "ok_or None e = Err e" "ok_or (Some v) e = Ok v"
  by (simp_all add: ok_or_def)

lemma ok_or_Ok_iff [simp]: "ok_or x e = Ok v \<longleftrightarrow> x = Some v"
  by (cases x) simp_all

definition unwrap_or :: "'a option \<Rightarrow> 'a \<Rightarrow> 'a" where
  "unwrap_or x d = (case x of None \<Rightarrow> d | Some v \<Rightarrow> v)"

lemma unwrap_or_simps [simp]: "unwrap_or None d = d" "unwrap_or (Some v) d = v"
  by (simp_all add: unwrap_or_def)

section \<open>The interface of a keyed collection\<close>

locale key_value_map =
  fixes get :: "'m \<Rightarrow> 'k \<Rightarrow> 'v option"
    and put :: "'k \<Rightarrow> 'v \<Rightarrow> 'm \<Rightarrow> 'm"
    and invar :: "'m \<Rightarrow> bool"
  assumes get_put: "invar m \<Longrightarrow> get (put k v m) = (get m)(k \<mapsto> v)"
    and invar_put: "invar m \<Longrightarrow> invar (put k v m)"
begin

lemma invar_fold_put: "invar m \<Longrightarrow> invar (fold (\<lambda>x. put (f x) (g x)) xs m)"
  by (induction xs arbitrary: m) (auto intro: invar_put)

text \<open>Collecting a list of pairs: the last pair of a key wins.\<close>

lemma get_fold_put:
  "invar m \<Longrightarrow> get (fold (\<lambda>x. put (f x) (g x)) xs m) k =
     (case find (\<lambda>x. f x = k) (rev xs) of None \<Rightarrow> get m k | Some x \<Rightarrow> Some (g x))"
proof (induction xs rule: rev_induct)
  case Nil
  then show ?case by simp
next
  case (snoc x xs)
  then show ?case
    by (simp add: get_put invar_fold_put)
qed

lemma get_fold_put_const:
  "invar m \<Longrightarrow> get (fold (\<lambda>x. put (f x) c) xs m) k = (if k \<in> f ` set xs then Some c else get m k)"
proof (induction xs arbitrary: m)
  case Nil
  then show ?case by simp
next
  case (Cons x xs)
  then show ?case
    by (auto simp: get_put invar_put)
qed

end

section \<open>Hash maps\<close>

type_synonym ('k, 'v) hash_map = "('k \<times> 'v) list"

abbreviation hm_get :: "('k, 'v) hash_map \<Rightarrow> 'k \<Rightarrow> 'v option" where
  "hm_get \<equiv> map_of"

abbreviation hm_put :: "'k \<Rightarrow> 'v \<Rightarrow> ('k, 'v) hash_map \<Rightarrow> ('k, 'v) hash_map" where
  "hm_put \<equiv> AList.update"

interpretation hm: key_value_map hm_get hm_put "\<lambda>_. True"
  by unfold_locales (simp_all add: update_conv')

declare hm.get_put [OF TrueI, map_laws]

text \<open>\<^verbatim>\<open>map.entry(k).or_insert(v)\<close> and an update through \<^verbatim>\<open>get_mut\<close>.\<close>

definition hm_or_insert :: "'k \<Rightarrow> 'v \<Rightarrow> ('k, 'v) hash_map \<Rightarrow> ('k, 'v) hash_map" where
  "hm_or_insert k v m = (case hm_get m k of None \<Rightarrow> hm_put k v m | Some _ \<Rightarrow> m)"

definition hm_modify :: "'k \<Rightarrow> ('v \<Rightarrow> 'v) \<Rightarrow> ('k, 'v) hash_map \<Rightarrow> ('k, 'v) hash_map" where
  "hm_modify k f m = (case hm_get m k of None \<Rightarrow> m | Some v \<Rightarrow> hm_put k (f v) m)"

lemma get_or_insert [map_laws]:
  "hm_get (hm_or_insert k v m) k' =
     (if k' = k then Some (case hm_get m k of None \<Rightarrow> v | Some w \<Rightarrow> w) else hm_get m k')"
  by (simp add: hm_or_insert_def map_laws split: option.splits)

lemma get_modify [map_laws]:
  "hm_get (hm_modify k f m) k' = (if k' = k then map_option f (hm_get m k) else hm_get m k')"
  by (simp add: hm_modify_def map_laws split: option.splits)

lemma keys_put: "fst ` set (hm_put k v m) = insert k (fst ` set m)"
  by (simp add: dom_map_of_conv_image_fst [symmetric] update_conv')

lemma keys_or_insert: "fst ` set (hm_or_insert k v m) = insert k (fst ` set m)"
  by (auto simp: hm_or_insert_def keys_put split: option.splits)
    (auto dest: map_of_SomeD intro: rev_image_eqI)

lemma keys_modify [simp]: "fst ` set (hm_modify k f m) = fst ` set m"
  by (auto simp: hm_modify_def keys_put split: option.splits)
    (auto dest: map_of_SomeD intro: rev_image_eqI)

lemma distinct_keys_put:
  "distinct (map fst m) \<Longrightarrow> distinct (map fst (hm_put k v m))"
  by (rule distinct_update)

lemma distinct_keys_or_insert:
  "distinct (map fst m) \<Longrightarrow> distinct (map fst (hm_or_insert k v m))"
  by (simp add: hm_or_insert_def distinct_update split: option.splits)

lemma distinct_keys_modify:
  "distinct (map fst m) \<Longrightarrow> distinct (map fst (hm_modify k f m))"
  by (simp add: hm_modify_def distinct_update split: option.splits)

section \<open>Ordered maps\<close>

type_synonym ('k, 'v) btree_map = "('k \<times> 'v) list"

abbreviation bt_get :: "('k, 'v) btree_map \<Rightarrow> 'k \<Rightarrow> 'v option" where
  "bt_get \<equiv> map_of"

fun bt_put :: "'k::linorder \<Rightarrow> 'v \<Rightarrow> ('k, 'v) btree_map \<Rightarrow> ('k, 'v) btree_map" where
  "bt_put k v [] = [(k, v)]"
| "bt_put k v ((a, b) # m) =
     (if k < a then (k, v) # (a, b) # m
      else if k = a then (k, v) # m
      else (a, b) # bt_put k v m)"

definition bt_wf :: "('k::linorder, 'v) btree_map \<Rightarrow> bool" where
  "bt_wf m \<longleftrightarrow> sorted_wrt (<) (map fst m)"

abbreviation bt_values :: "('k, 'v) btree_map \<Rightarrow> 'v list" where
  "bt_values \<equiv> map snd"

lemma bt_get_put: "bt_get (bt_put k v m) = (bt_get m)(k \<mapsto> v)"
  by (induction k v m rule: bt_put.induct) auto

lemma bt_keys_put: "set (map fst (bt_put k v m)) = insert k (set (map fst m))"
  by (induction k v m rule: bt_put.induct) auto

lemma bt_wf_put: "bt_wf m \<Longrightarrow> bt_wf (bt_put k v m)"
proof (induction k v m rule: bt_put.induct)
  case (1 k v)
  show ?case by (simp add: bt_wf_def)
next
  case (2 k v a b m)
  then have wf: "bt_wf m" and low: "\<forall>x\<in>set (map fst m). a < x"
    by (auto simp: bt_wf_def)
  show ?case
  proof (cases "k \<le> a")
    case True
    with 2(2) show ?thesis by (auto simp: bt_wf_def)
  next
    case False
    with 2 wf have "bt_wf (bt_put k v m)" by simp
    moreover from False low have "\<forall>x\<in>set (map fst (bt_put k v m)). a < x"
      by (simp only: bt_keys_put) auto
    ultimately show ?thesis using False by (auto simp: bt_wf_def)
  qed
qed

interpretation bt: key_value_map bt_get bt_put bt_wf
  by unfold_locales (simp_all add: bt_get_put bt_wf_put)

declare bt_get_put [map_laws]

lemma bt_wf_distinct: "bt_wf m \<Longrightarrow> distinct (map fst m)"
  by (simp add: bt_wf_def strict_sorted_iff)

lemma bt_wf_Nil [simp]: "bt_wf []"
  by (simp add: bt_wf_def)

text \<open>An update of a present entry through \<^verbatim>\<open>get_mut\<close>; absent keys are left alone.\<close>

definition bt_modify :: "'k \<Rightarrow> ('v \<Rightarrow> 'v) \<Rightarrow> ('k, 'v) btree_map \<Rightarrow> ('k, 'v) btree_map" where
  "bt_modify k f m = map (\<lambda>(a, b). (a, if a = k then f b else b)) m"

lemma bt_keys_modify [simp]: "map fst (bt_modify k f m) = map fst m"
  by (simp add: bt_modify_def comp_def case_prod_beta)

lemma bt_wf_modify [simp]: "bt_wf (bt_modify k f m) = bt_wf m"
  by (simp add: bt_wf_def)

lemma bt_get_modify [map_laws]:
  "bt_get (bt_modify k f m) k' = (if k' = k then map_option f (bt_get m k) else bt_get m k')"
  unfolding bt_modify_def by (induction m) auto

lemma length_bt_modify [simp]: "length (bt_modify k f m) = length m"
  by (simp add: bt_modify_def)

lemma bt_values_get:
  "distinct (map fst m) \<Longrightarrow> v \<in> set (bt_values m) \<longleftrightarrow> (\<exists>k. bt_get m k = Some v)"
  by (auto simp: image_iff) (metis map_of_SomeD snd_conv)

lemma length_bt_put:
  "bt_get m k = None \<Longrightarrow> length (bt_put k v m) = Suc (length m)"
  by (induction k v m rule: bt_put.induct) (auto split: if_splits)

lemma length_bt_put_le: "length (bt_put k v m) \<le> Suc (length m)"
  by (induction k v m rule: bt_put.induct) auto

text \<open>Sums over the values of an ordered map.\<close>

definition bt_sum :: "('v \<Rightarrow> nat) \<Rightarrow> ('k, 'v) btree_map \<Rightarrow> nat" where
  "bt_sum f m = sum_list (map f (bt_values m))"

lemma bt_sum_Nil [simp]: "bt_sum f [] = 0"
  by (simp add: bt_sum_def)

lemma bt_sum_put_fresh:
  "bt_get m k = None \<Longrightarrow> bt_sum f (bt_put k v m) = f v + bt_sum f m"
  by (induction k v m rule: bt_put.induct) (auto simp: bt_sum_def split: if_splits)

lemma bt_modify_absent: "k \<notin> fst ` set m \<Longrightarrow> bt_modify k g m = m"
  by (induction m) (auto simp: bt_modify_def)

lemma bt_sum_modify:
  assumes "distinct (map fst m)" "bt_get m k = Some v"
  shows "bt_sum f (bt_modify k g m) + f v = bt_sum f m + f (g v)"
  using assms
proof (induction m)
  case Nil
  then show ?case by simp
next
  case (Cons p m)
  obtain a b where p: "p = (a, b)" by (cases p)
  show ?case
  proof (cases "a = k")
    case True
    with Cons.prems p have "k \<notin> fst ` set m" "b = v" by auto
    with True p show ?thesis
      using bt_modify_absent [of k m g] by (simp add: bt_modify_def bt_sum_def)
  next
    case False
    with Cons p show ?thesis by (simp add: bt_modify_def bt_sum_def)
  qed
qed

lemma bt_sum_ge:
  "bt_get m k = Some v \<Longrightarrow> f v \<le> bt_sum f m"
  unfolding bt_sum_def
  by (rule member_le_sum_list) (auto dest!: map_of_SomeD intro!: rev_image_eqI)

lemma bt_sum_modify_same:
  assumes "\<And>v. f (g v) = f v"
  shows "bt_sum f (bt_modify k g m) = bt_sum f m"
  using assms by (induction m) (auto simp: bt_modify_def bt_sum_def)

section \<open>64-bit counters\<close>

text \<open>
  A \<^verbatim>\<open>u64\<close> is a \<open>nat\<close> up to \<open>u64_max\<close>. \<^verbatim>\<open>saturating_sub\<close> is the truncating subtraction of \<open>nat\<close>;
  \<^verbatim>\<open>saturating_add\<close> stops at \<open>u64_max\<close>; the plain increment of a version counter wraps.
\<close>

definition u64_max :: nat where
  "u64_max = 2 ^ 64 - 1"

definition saturating_add :: "nat \<Rightarrow> nat \<Rightarrow> nat" where
  "saturating_add a b = min (a + b) u64_max"

abbreviation saturating_sub :: "nat \<Rightarrow> nat \<Rightarrow> nat" where
  "saturating_sub \<equiv> (-)"

definition inc_u64 :: "nat \<Rightarrow> nat" where
  "inc_u64 v = (v + 1) mod 2 ^ 64"

lemma saturating_add_le_max [simp]: "saturating_add a b \<le> u64_max"
  by (simp add: saturating_add_def)

lemma saturating_add_le_sum: "saturating_add a b \<le> a + b"
  by (simp add: saturating_add_def)

lemma saturating_add_exact: "a + b \<le> u64_max \<Longrightarrow> saturating_add a b = a + b"
  by (simp add: saturating_add_def)

lemma saturating_add_below:
  "saturating_add a b \<le> c \<Longrightarrow> c < u64_max \<Longrightarrow> a + b \<le> c"
  by (auto simp: saturating_add_def min_def split: if_splits)

lemma inc_u64_neq: "v \<le> u64_max \<Longrightarrow> inc_u64 v \<noteq> v"
  by (cases "v = u64_max") (auto simp: inc_u64_def u64_max_def)

lemma inc_u64_le_max [simp]: "inc_u64 v \<le> u64_max"
proof -
  have "(v + 1) mod 2 ^ 64 < 2 ^ 64" by (rule mod_less_divisor) simp
  then show ?thesis by (simp add: inc_u64_def u64_max_def)
qed

text \<open>Evaluation compares with the large bounds in binary.\<close>

lemma saturating_add_code [code]:
  "saturating_add a b = (let c = a + b in if int c \<le> 18446744073709551615 then c else u64_max)"
  by (auto simp: saturating_add_def u64_max_def Let_def min_def)

lemma inc_u64_code [code]:
  "inc_u64 v = (if int v < 18446744073709551615 then Suc v else (v + 1) mod 2 ^ 64)"
  by (simp add: inc_u64_def)

text \<open>An \<^verbatim>\<open>i64\<close> is an \<open>int\<close>; sums, differences and products wrap to 64 bits.\<close>

definition wrap_i64 :: "int \<Rightarrow> int" where
  "wrap_i64 i = (i + 2 ^ 63) mod 2 ^ 64 - 2 ^ 63"

definition in_i64 :: "int \<Rightarrow> bool" where
  "in_i64 i \<longleftrightarrow> - (2 ^ 63) \<le> i \<and> i < 2 ^ 63"

lemma wrap_i64_exact: "in_i64 i \<Longrightarrow> wrap_i64 i = i"
  by (simp add: in_i64_def wrap_i64_def)

lemma wrap_i64_diff [simp]: "wrap_i64 (a - wrap_i64 b) = wrap_i64 (a - b)"
proof -
  have "(a - ((b + 2 ^ 63) mod 2 ^ 64 - 2 ^ 63) + 2 ^ 63) mod 2 ^ 64 =
        (a + 2 ^ 63 + 2 ^ 63 - (b + 2 ^ 63) mod 2 ^ 64) mod 2 ^ 64"
    by (simp add: algebra_simps)
  also have "\<dots> = (a - b + 2 ^ 63) mod (2 ^ 64 :: int)"
    by (simp add: mod_diff_right_eq algebra_simps)
  finally show ?thesis by (simp add: wrap_i64_def)
qed

section \<open>Text\<close>

definition digit_char :: "nat \<Rightarrow> char" where
  "digit_char d = char_of (48 + d)"

fun show_nat :: "nat \<Rightarrow> string" where
  "show_nat n = (if n < 10 then [digit_char n] else show_nat (n div 10) @ [digit_char (n mod 10)])"

declare show_nat.simps [simp del]

definition show_int :: "int \<Rightarrow> string" where
  "show_int i = (if i < 0 then ''-'' @ show_nat (nat (- i)) else show_nat (nat i))"

lemma show_nat_nonempty [simp]: "show_nat n \<noteq> []"
  by (subst show_nat.simps) simp

text \<open>Reading a decimal number back.\<close>

definition decimal :: "string \<Rightarrow> nat" where
  "decimal ds = foldl (\<lambda>v c. 10 * v + (of_char c - 48)) 0 ds"

lemma digit_value: "d < 10 \<Longrightarrow> of_char (digit_char d) - 48 = (d :: nat)"
  by (simp add: digit_char_def of_char_of)

lemma decimal_show_nat: "decimal (show_nat n) = n"
proof (induction n rule: less_induct)
  case (less n)
  show ?case
  proof (cases "n < 10")
    case True
    then show ?thesis by (subst show_nat.simps) (simp add: decimal_def digit_value)
  next
    case False
    then have "decimal (show_nat (n div 10)) = n div 10" using less by simp
    with False show ?thesis by (subst show_nat.simps) (simp add: decimal_def digit_value)
  qed
qed

lemma show_nat_inject [simp]: "show_nat m = show_nat n \<longleftrightarrow> m = n"
  using decimal_show_nat by metis

lemma show_nat_digits: "c \<in> set (show_nat n) \<Longrightarrow> of_char c \<in> {48 .. 57 :: nat}"
proof (induction n rule: show_nat.induct)
  case (1 n)
  have "of_char (digit_char k) \<in> {48 .. 57 :: nat}" if "k < 10" for k
    using that by (simp add: digit_char_def of_char_of)
  then show ?case using 1 by (subst (asm) (2) show_nat.simps) (auto split: if_splits)
qed

definition hex_digit :: "nat \<Rightarrow> char" where
  "hex_digit d = (if d < 10 then char_of (48 + d) else char_of (87 + d))"

text \<open>\<^verbatim>\<open>str::starts_with\<close> and \<^verbatim>\<open>str::strip_prefix\<close>.\<close>

fun strip_prefix :: "string \<Rightarrow> string \<Rightarrow> string option" where
  "strip_prefix [] s = Some s"
| "strip_prefix (c # cs) [] = None"
| "strip_prefix (c # cs) (d # ds) = (if c = d then strip_prefix cs ds else None)"

definition starts_with :: "string \<Rightarrow> string \<Rightarrow> bool" where
  "starts_with s p \<longleftrightarrow> strip_prefix p s \<noteq> None"

lemma strip_prefix_iff: "strip_prefix p s = Some r \<longleftrightarrow> s = p @ r"
  by (induction p s rule: strip_prefix.induct) auto

lemma starts_with_iff: "starts_with s p \<longleftrightarrow> (\<exists>r. s = p @ r)"
  using strip_prefix_iff by (auto simp: starts_with_def)

end
