(* ===== verification/Graph_Spec.thy ===== *)
theory Graph_Spec
  imports Harness_Prelude
begin

text \<open>
  What the graph components promise, stated on vertex and arc lists: the relation of a graph,
  absence of dangling arcs and of cycles, topological orders, and the interface
  \<^verbatim>\<open>GraphOperations\<close> (src/engine/src/workflow/graph\_operations.rs) as a locale. The two
  implementations of that trait, \<open>Dag_Manager\<close> and \<open>Dependency_Resolver\<close>, interpret it.
\<close>

type_synonym arc = "string \<times> string"

text \<open>Arcs between declared vertices; an arc that leaves the vertex list is no edge.\<close>

definition graph_rel :: "string list \<Rightarrow> arc list \<Rightarrow> arc set" where
  "graph_rel vs es = {(u, v). (u, v) \<in> set es \<and> u \<in> set vs \<and> v \<in> set vs}"

definition dangling_free :: "string list \<Rightarrow> arc list \<Rightarrow> bool" where
  "dangling_free vs es \<longleftrightarrow> (\<forall>(u, v) \<in> set es. u \<in> set vs \<and> v \<in> set vs)"

definition cyclic :: "string list \<Rightarrow> arc list \<Rightarrow> bool" where
  "cyclic vs es \<longleftrightarrow> (\<exists>u. (u, u) \<in> (graph_rel vs es)\<^sup>+)"

lemma cyclic_iff_not_acyclic: "cyclic vs es \<longleftrightarrow> \<not> acyclic (graph_rel vs es)"
  by (simp add: cyclic_def acyclic_def)

definition valid_graph :: "string list \<Rightarrow> arc list \<Rightarrow> bool" where
  "valid_graph vs es \<longleftrightarrow> dangling_free vs es \<and> \<not> cyclic vs es"

text \<open>Every vertex once, and every arc from an earlier to a later position.\<close>

definition topological :: "string list \<Rightarrow> arc list \<Rightarrow> string list \<Rightarrow> bool" where
  "topological vs es xs \<longleftrightarrow>
     distinct xs \<and> set xs = set vs \<and>
     (\<forall>(u, v) \<in> set es. \<exists>as bs cs. xs = as @ u # bs @ v # cs)"

lemma finite_graph_rel: "finite (graph_rel vs es)"
  by (rule finite_subset [of _ "set es"]) (auto simp: graph_rel_def)

lemma graph_rel_mono: "set es \<subseteq> set es' \<Longrightarrow> graph_rel vs es \<subseteq> graph_rel vs es'"
  by (auto simp: graph_rel_def)

lemma cyclic_mono:
  assumes "graph_rel vs es \<subseteq> graph_rel vs' es'" "cyclic vs es"
  shows "cyclic vs' es'"
  using assms by (auto simp: cyclic_def intro: trancl_mono)

lemma graph_rel_dangling_free: "dangling_free vs es \<Longrightarrow> graph_rel vs es = set es"
  by (auto simp: graph_rel_def dangling_free_def)

text \<open>
  A finite set in which every element has a predecessor inside the set contains a cycle: the
  argument behind progress and behind the completeness of Kahn's algorithm.
\<close>

lemma acyclic_has_source:
  assumes "acyclic r" "finite U" "U \<noteq> {}"
  shows "\<exists>u\<in>U. \<forall>w\<in>U. (w, u) \<notin> r"
proof -
  let ?s = "{(w, u). (w, u) \<in> r \<and> w \<in> U \<and> u \<in> U}"
  have "finite ?s"
    by (rule finite_subset [of _ "U \<times> U"]) (use assms(2) in auto)
  moreover have "acyclic ?s"
    by (rule acyclic_subset [OF assms(1)]) auto
  ultimately have "wf ?s" by (rule finite_acyclic_wf)
  from wfE_min [OF this] assms(3) obtain u where
    "u \<in> U" and "\<And>w. (w, u) \<in> ?s \<Longrightarrow> w \<notin> U"
    by (metis (no_types, lifting) ex_in_conv)
  then show ?thesis by blast
qed

section \<open>The trait \<^verbatim>\<open>GraphOperations\<close>\<close>

text \<open>
  The three operations of the trait, over any graph type. \<open>verts\<close> and \<open>arcs\<close> read the graph;
  \<open>preds\<close> are the predecessors an implementation waits for and \<open>candidates\<close> the vertices it
  offers at all. The laws are the trait's documentation; the order of an invalid graph is left
  open because the two implementations differ there.
\<close>

locale graph_operations =
  fixes verts :: "'g \<Rightarrow> string list"
    and arcs :: "'g \<Rightarrow> arc list"
    and preds :: "'g \<Rightarrow> string \<Rightarrow> string set"
    and candidates :: "'g \<Rightarrow> string set \<Rightarrow> string set"
    and validate :: "'g \<Rightarrow> bool \<times> string list"
    and topological_order :: "'g \<Rightarrow> string list"
    and ready_nodes :: "'g \<Rightarrow> string set \<Rightarrow> string list"
  assumes validate_iff: "fst (validate g) \<longleftrightarrow> valid_graph (verts g) (arcs g)"
    and validate_errors: "fst (validate g) \<longleftrightarrow> snd (validate g) = []"
    and order_topological:
      "fst (validate g) \<Longrightarrow> topological (verts g) (arcs g) (topological_order g)"
    and ready_set: "set (ready_nodes g C) = {n \<in> candidates g C. preds g n \<subseteq> C}"
    and ready_sorted: "sorted (ready_nodes g C)"
    and preds_arcs: "p \<in> preds g n \<Longrightarrow> (p, n) \<in> set (arcs g)"
    and candidates_verts: "candidates g C \<subseteq> set (verts g)"
begin

text \<open>
  Progress: in a valid graph, as long as some vertex is not completed and every such vertex is a
  candidate, at least one vertex is ready. A scheduler driven by \<open>ready_nodes\<close> cannot deadlock.
\<close>

lemma progress:
  assumes valid: "fst (validate g)"
    and cand: "set (verts g) - C \<subseteq> candidates g C"
    and todo: "set (verts g) - C \<noteq> {}"
  shows "\<exists>n \<in> set (ready_nodes g C). n \<notin> C"
proof -
  let ?r = "graph_rel (verts g) (arcs g)"
  from valid have acyc: "acyclic ?r" and closed: "dangling_free (verts g) (arcs g)"
    by (auto simp: validate_iff valid_graph_def cyclic_iff_not_acyclic)
  from acyclic_has_source [OF acyc _ todo] obtain n where
    n: "n \<in> set (verts g) - C" and src: "\<forall>w \<in> set (verts g) - C. (w, n) \<notin> ?r"
    by auto
  have "preds g n \<subseteq> C"
  proof
    fix p assume "p \<in> preds g n"
    then have "(p, n) \<in> ?r"
      using preds_arcs closed by (auto simp: graph_rel_dangling_free)
    moreover from this have "p \<in> set (verts g)" by (auto simp: graph_rel_def)
    ultimately show "p \<in> C" using src by blast
  qed
  with n cand show ?thesis by (auto simp: ready_set)
qed

text \<open>
  The order is a schedule: when every earlier vertex of the order is completed, the next vertex
  waits for nothing else.
\<close>

lemma order_schedules:
  assumes valid: "fst (validate g)"
    and order: "topological_order g = xs @ n # ys"
    and cand: "n \<in> candidates g (set xs)"
  shows "n \<in> set (ready_nodes g (set xs))"
proof -
  from order_topological [OF valid] order
  have dist: "distinct (xs @ n # ys)"
    and split: "\<And>u v. (u, v) \<in> set (arcs g) \<Longrightarrow> \<exists>as bs cs. xs @ n # ys = as @ u # bs @ v # cs"
    by (auto simp: topological_def)
  have "preds g n \<subseteq> set xs"
  proof
    fix p assume "p \<in> preds g n"
    then have "(p, n) \<in> set (arcs g)" by (rule preds_arcs)
    then obtain as bs cs where eq: "xs @ n # ys = (as @ p # bs) @ n # cs"
      using split by fastforce
    from dist have "n \<notin> set xs" "n \<notin> set ys" by auto
    from append_Cons_eq_iff [OF this] eq have "xs = as @ p # bs" by metis
    then show "p \<in> set xs" by simp
  qed
  with cand show ?thesis by (simp add: ready_set)
qed

end

end
