(* ===== verification/Dag_Cycle.thy ===== *)
theory Dag_Cycle
  imports Graph_Spec
begin

text \<open>
  The cycle check of the workflow DAG (\<^verbatim>\<open>has_cycle\<close> in
  src/engine/src/workflow/dag\_manager/helpers.rs): an iterative depth-first search with an
  explicit stack of (node, next neighbour index) and three colours. The theory shows that the
  search stops and that it reports a cycle exactly when the graph has one.
\<close>

datatype color = WHITE | GRAY | BLACK

type_synonym adjacency = "(string, string list) hash_map"
type_synonym coloring = "(string, color) hash_map"

text \<open>
  The adjacency map: an entry for every node, and every edge whose source has an entry pushes its
  target there.
\<close>

definition build_adj :: "string list \<Rightarrow> arc list \<Rightarrow> adjacency" where
  "build_adj ids es =
     fold (\<lambda>(u, v). hm_modify u (\<lambda>l. l @ [v])) es (fold (\<lambda>n. hm_or_insert n []) ids [])"

definition neighbors_of :: "adjacency \<Rightarrow> string \<Rightarrow> string list" where
  "neighbors_of adj n = (case hm_get adj n of Some v \<Rightarrow> v | None \<Rightarrow> [])"

definition white_weight :: "adjacency \<Rightarrow> coloring \<Rightarrow> nat" where
  "white_weight adj color =
     sum_list (map (\<lambda>(n, c). if c = WHITE then length (neighbors_of adj n) + 2 else 0) color)"

lemma white_weight_put:
  "white_weight adj (hm_put n c color) \<le> white_weight adj color" if "c \<noteq> WHITE"
  using that by (induction color) (auto simp: white_weight_def)

lemma white_weight_visit:
  "hm_get color n = Some WHITE \<Longrightarrow> c \<noteq> WHITE \<Longrightarrow>
   white_weight adj (hm_put n c color) + length (neighbors_of adj n) + 2 = white_weight adj color"
  by (induction color) (auto simp: white_weight_def)

text \<open>
  The loop \<^verbatim>\<open>while let Some((node, idx)) = stack.pop()\<close>. The head of the list is the top of the
  stack. \<open>None\<close> is the early \<^verbatim>\<open>return true\<close>, \<open>Some\<close> the colouring at the end of the loop.
\<close>

function dfs_stack :: "adjacency \<Rightarrow> coloring \<Rightarrow> (string \<times> nat) list \<Rightarrow> coloring option" where
  "dfs_stack adj color [] = Some color"
| "dfs_stack adj color ((node, idx) # stack) =
     (let neighbors = neighbors_of adj node in
      if length neighbors \<le> idx then dfs_stack adj (hm_put node BLACK color) stack
      else
        let stack' = (node, idx + 1) # stack; neighbor = neighbors ! idx in
        case hm_get color neighbor of
          Some GRAY \<Rightarrow> None
        | Some WHITE \<Rightarrow> dfs_stack adj (hm_put neighbor GRAY color) ((neighbor, 0) # stack')
        | _ \<Rightarrow> dfs_stack adj color stack')"
  by pat_completeness auto
termination
proof (relation "measure (\<lambda>(adj, color, stack).
    white_weight adj color +
    sum_list (map (\<lambda>(n, i). Suc (length (neighbors_of adj n) - i)) stack))", goal_cases)
  case 1
  show ?case by simp
next
  case (2 adj color node idx stack x)
  then show ?case using white_weight_put [of BLACK adj node color] by simp
next
  case (3 adj color node idx stack x xa xb)
  then show ?case by simp
next
  case (4 adj color node idx stack x xa xb x2)
  then show ?case using white_weight_visit [of color xb GRAY adj] by simp
next
  case (5 adj color node idx stack x xa xb x2)
  then show ?case by simp
qed

declare dfs_stack.simps(2) [simp del]

text \<open>The outer loop over the sorted node ids.\<close>

fun dfs_starts :: "adjacency \<Rightarrow> coloring \<Rightarrow> string list \<Rightarrow> bool" where
  "dfs_starts adj color [] = False"
| "dfs_starts adj color (start # rest) =
     (if hm_get color start \<noteq> Some WHITE then dfs_starts adj color rest
      else case dfs_stack adj (hm_put start GRAY color) [(start, 0)] of
             None \<Rightarrow> True
           | Some color' \<Rightarrow> dfs_starts adj color' rest)"

definition has_cycle_arcs :: "string list \<Rightarrow> arc list \<Rightarrow> bool" where
  "has_cycle_arcs ids es =
     dfs_starts (build_adj ids es) (fold (\<lambda>n. hm_put n WHITE) ids []) (sort ids)"

section \<open>The adjacency map\<close>

lemma get_or_insert_fold:
  "hm_get (fold (\<lambda>n. hm_or_insert n []) ids m) u =
     (if u \<in> set ids \<and> hm_get m u = None then Some [] else hm_get m u)"
  by (induction ids arbitrary: m) (auto simp: map_laws split: option.splits)

lemma get_push_fold:
  "hm_get (fold (\<lambda>(u, v). hm_modify u (\<lambda>l. l @ [v])) es m) u =
     map_option (\<lambda>l. l @ map snd (filter (\<lambda>e. fst e = u) es)) (hm_get m u)"
proof (induction es arbitrary: m)
  case Nil
  then show ?case by (simp add: option.map_ident)
next
  case (Cons e es)
  obtain a b where "e = (a, b)" by (cases e)
  with Cons show ?case by (auto simp: map_laws option.map_comp comp_def)
qed

lemma get_build_adj:
  "hm_get (build_adj ids es) u =
     (if u \<in> set ids then Some (map snd (filter (\<lambda>e. fst e = u) es)) else None)"
  by (simp add: build_adj_def get_push_fold get_or_insert_fold)

lemma neighbors_build_adj:
  "neighbors_of (build_adj ids es) u =
     (if u \<in> set ids then map snd (filter (\<lambda>e. fst e = u) es) else [])"
  by (simp add: neighbors_of_def get_build_adj)

section \<open>The search\<close>

definition adj_rel :: "adjacency \<Rightarrow> string set \<Rightarrow> arc set" where
  "adj_rel adj V = {(u, v). u \<in> V \<and> v \<in> V \<and> v \<in> set (neighbors_of adj u)}"

lemma adj_rel_build_adj: "adj_rel (build_adj ids es) (set ids) = graph_rel ids es"
  by (force simp: adj_rel_def graph_rel_def neighbors_build_adj)

text \<open>
  What the stack has done: below its index, an entry has only finished (or undeclared)
  neighbours, except for the entry above it, which is being visited.
\<close>

fun explored :: "adjacency \<Rightarrow> (string \<Rightarrow> color option) \<Rightarrow> string option \<Rightarrow> (string \<times> nat) list \<Rightarrow> bool"
where
  "explored adj col child [] = True"
| "explored adj col child ((n, i) # st) =
     ((\<forall>v \<in> set (take i (neighbors_of adj n)). col v = None \<or> col v = Some BLACK \<or> child = Some v) \<and>
      (\<forall>c. child = Some c \<longrightarrow> c \<in> set (neighbors_of adj n)) \<and>
      explored adj col (Some n) st)"

lemma explored_mono:
  "explored adj col child st \<Longrightarrow>
   (\<And>v. col v = None \<Longrightarrow> col' v = None) \<Longrightarrow> (\<And>v. col v = Some BLACK \<Longrightarrow> col' v = Some BLACK) \<Longrightarrow>
   explored adj col' child st"
  by (induction adj col child st rule: explored.induct) auto

lemma explored_blacken: "explored adj col child st \<Longrightarrow> explored adj (col(n \<mapsto> BLACK)) child st"
  by (induction adj col child st rule: explored.induct) auto

lemma explored_finish: "explored adj col (Some n) st \<Longrightarrow> explored adj (col(n \<mapsto> BLACK)) None st"
  by (cases st) (auto simp: explored_blacken)

lemma stack_path:
  "explored adj col child ((n, i) # st) \<Longrightarrow> n \<in> V \<Longrightarrow> fst ` set st \<subseteq> V \<Longrightarrow>
   g \<in> fst ` set ((n, i) # st) \<Longrightarrow> (g, n) \<in> (adj_rel adj V)\<^sup>*"
proof (induction st arbitrary: n i child)
  case Nil
  then show ?case by simp
next
  case (Cons p st)
  obtain m j where p: "p = (m, j)" by (cases p)
  show ?case
  proof (cases "g = n")
    case False
    from Cons.prems p have ex: "explored adj col (Some n) ((m, j) # st)" by simp
    from Cons.prems False p have "(g, m) \<in> (adj_rel adj V)\<^sup>*"
      by (intro Cons.IH [OF ex]) auto
    moreover from ex Cons.prems p have "(m, n) \<in> adj_rel adj V"
      by (auto simp: adj_rel_def)
    ultimately show ?thesis by (rule rtrancl_into_rtrancl)
  qed simp
qed

definition dfs_inv :: "adjacency \<Rightarrow> string set \<Rightarrow> coloring \<Rightarrow> (string \<times> nat) list \<Rightarrow> bool" where
  "dfs_inv adj V color stack \<longleftrightarrow>
     dom (hm_get color) = V \<and>
     distinct (map fst stack) \<and>
     (\<forall>u. hm_get color u = Some GRAY \<longleftrightarrow> u \<in> fst ` set stack) \<and>
     explored adj (hm_get color) None stack \<and>
     (\<forall>u v. hm_get color u = Some BLACK \<longrightarrow> (u, v) \<in> adj_rel adj V \<longrightarrow> hm_get color v = Some BLACK) \<and>
     (\<forall>u. hm_get color u = Some BLACK \<longrightarrow> (u, u) \<notin> (adj_rel adj V)\<^sup>+)"

lemma black_reaches_black:
  assumes "\<And>u v. col u = Some BLACK \<Longrightarrow> (u, v) \<in> r \<Longrightarrow> col v = Some BLACK"
    and "(u, v) \<in> r\<^sup>*" "col u = Some BLACK"
  shows "col v = Some BLACK"
  using assms(2,3) by (induction rule: rtrancl_induct) (auto intro: assms(1))

lemma dfs_invI:
  assumes "dom (hm_get color) = V" "distinct (map fst stack)"
    and "\<And>u. hm_get color u = Some GRAY \<longleftrightarrow> u \<in> fst ` set stack"
    and "explored adj (hm_get color) None stack"
    and "\<And>u v. hm_get color u = Some BLACK \<Longrightarrow> (u, v) \<in> adj_rel adj V \<Longrightarrow> hm_get color v = Some BLACK"
    and "\<And>u. hm_get color u = Some BLACK \<Longrightarrow> (u, u) \<notin> (adj_rel adj V)\<^sup>+"
  shows "dfs_inv adj V color stack"
  using assms unfolding dfs_inv_def by blast

lemma dfs_invD:
  assumes "dfs_inv adj V color stack"
  shows "dom (hm_get color) = V" "distinct (map fst stack)"
    and "hm_get color u = Some GRAY \<longleftrightarrow> u \<in> fst ` set stack"
    and "explored adj (hm_get color) None stack"
    and "hm_get color u = Some BLACK \<Longrightarrow> (u, v) \<in> adj_rel adj V \<Longrightarrow> hm_get color v = Some BLACK"
    and "hm_get color u = Some BLACK \<Longrightarrow> (u, u) \<notin> (adj_rel adj V)\<^sup>+"
  using assms unfolding dfs_inv_def by blast+

text \<open>Popping an entry whose neighbours are all visited.\<close>

lemma dfs_inv_finish:
  assumes inv: "dfs_inv adj V color ((node, idx) # stack)"
    and fin: "length (neighbors_of adj node) \<le> idx"
  shows "dfs_inv adj V (hm_put node BLACK color) stack"
proof -
  let ?col = "hm_get color" and ?r = "adj_rel adj V"
  note I = dfs_invD [OF inv]
  have gray: "?col node = Some GRAY" and out: "node \<notin> fst ` set stack"
    using I(2) I(3) [of node] by auto
  have succ: "?col v = Some BLACK" if "(node, v) \<in> ?r" for v
    using that I(4) fin I(1) by (auto simp: adj_rel_def)
  have acyc: "(node, node) \<notin> ?r\<^sup>+"
  proof
    assume "(node, node) \<in> ?r\<^sup>+"
    then obtain v where v: "(node, v) \<in> ?r" "(v, node) \<in> ?r\<^sup>*" by (blast dest: tranclD)
    from black_reaches_black [where col = ?col, OF I(5) v(2)] succ [OF v(1)] gray
    show False by simp
  qed
  show ?thesis
  proof (rule dfs_invI)
    show "dom (hm_get (hm_put node BLACK color)) = V"
      using I(1) gray by (auto simp: map_laws)
    show "distinct (map fst stack)" using I(2) by simp
    show "explored adj (hm_get (hm_put node BLACK color)) None stack"
      using I(4) by (simp add: map_laws explored_finish)
    fix u
    show "hm_get (hm_put node BLACK color) u = Some GRAY \<longleftrightarrow> u \<in> fst ` set stack"
      using I(3) [of u] out by (simp add: map_laws)
    show "(u, u) \<notin> ?r\<^sup>+" if "hm_get (hm_put node BLACK color) u = Some BLACK"
      using that I(6) [of u] acyc by (simp add: map_laws split: if_splits)
    fix v
    show "hm_get (hm_put node BLACK color) v = Some BLACK"
      if "hm_get (hm_put node BLACK color) u = Some BLACK" "(u, v) \<in> ?r"
      using that I(5) [of u v] succ by (auto simp: map_laws split: if_splits)
  qed
qed

text \<open>Moving past a neighbour that is finished or undeclared.\<close>

lemma dfs_inv_skip:
  assumes inv: "dfs_inv adj V color ((node, idx) # stack)"
    and idx: "idx < length (neighbors_of adj node)"
    and fin: "hm_get color (neighbors_of adj node ! idx) \<in> {None, Some BLACK}"
  shows "dfs_inv adj V color ((node, idx + 1) # stack)"
  using assms by (auto simp: dfs_inv_def take_Suc_conv_app_nth)

text \<open>Descending into a white neighbour.\<close>

lemma dfs_inv_descend:
  assumes inv: "dfs_inv adj V color ((node, idx) # stack)"
    and idx: "idx < length (neighbors_of adj node)"
    and white: "hm_get color (neighbors_of adj node ! idx) = Some WHITE"
  shows "dfs_inv adj V (hm_put (neighbors_of adj node ! idx) GRAY color)
           ((neighbors_of adj node ! idx, 0) # (node, idx + 1) # stack)"
proof -
  let ?n = "neighbors_of adj node ! idx"
  let ?color = "hm_put ?n GRAY color"
  note I = dfs_invD [OF inv]
  have "\<not> ?n \<in> fst ` set ((node, idx) # stack)" using white I(3) [of ?n] by auto
  then have new: "?n \<noteq> node" "?n \<notin> fst ` set stack" by simp_all
  have ex: "explored adj (hm_get ?color) ch st" if "explored adj (hm_get color) ch st" for ch st
    by (rule explored_mono [OF that]) (use white in \<open>auto simp: map_laws\<close>)
  show ?thesis
  proof (rule dfs_invI)
    show "dom (hm_get ?color) = V" using I(1) white by (auto simp: map_laws)
    show "distinct (map fst ((?n, 0) # (node, idx + 1) # stack))" using I(2) new by simp
    show "explored adj (hm_get ?color) None ((?n, 0) # (node, idx + 1) # stack)"
      using ex [OF I(4)] idx by (auto simp: take_Suc_conv_app_nth)
    fix u
    show "hm_get ?color u = Some GRAY \<longleftrightarrow> u \<in> fst ` set ((?n, 0) # (node, idx + 1) # stack)"
      using I(3) [of u] by (simp add: map_laws)
    show "(u, u) \<notin> (adj_rel adj V)\<^sup>+" if "hm_get ?color u = Some BLACK"
      using that I(6) [of u] by (simp add: map_laws split: if_splits)
    fix v
    show "hm_get ?color v = Some BLACK"
      if "hm_get ?color u = Some BLACK" "(u, v) \<in> adj_rel adj V"
      using that I(5) [of u v] white by (auto simp: map_laws split: if_splits)
  qed
qed

lemma dfs_inv_back_edge:
  assumes inv: "dfs_inv adj V color ((node, idx) # stack)"
    and idx: "idx < length (neighbors_of adj node)"
    and gray: "hm_get color (neighbors_of adj node ! idx) = Some GRAY"
  shows "\<exists>u. (u, u) \<in> (adj_rel adj V)\<^sup>+"
proof -
  let ?n = "neighbors_of adj node ! idx"
  note I = dfs_invD [OF inv]
  have grays: "u \<in> V" if "u \<in> fst ` set ((node, idx) # stack)" for u
    using that I(3) [of u] I(1) by (metis domI)
  have n: "?n \<in> fst ` set ((node, idx) # stack)" using gray I(3) [of ?n] by (simp only:)
  have V: "node \<in> V" "fst ` set stack \<subseteq> V" "?n \<in> V"
    by (simp_all add: grays grays [OF n] subset_eq)
  from stack_path [OF I(4) V(1,2) n] have "(?n, node) \<in> (adj_rel adj V)\<^sup>*" .
  moreover have "(node, ?n) \<in> adj_rel adj V" using V idx by (simp add: adj_rel_def)
  ultimately show ?thesis by (blast intro: rtrancl_into_trancl1)
qed

lemma dfs_stack_correct:
  "dfs_inv adj V color stack \<Longrightarrow>
   (case dfs_stack adj color stack of
      None \<Rightarrow> \<exists>u. (u, u) \<in> (adj_rel adj V)\<^sup>+
    | Some color' \<Rightarrow> dfs_inv adj V color' [] \<and>
        (\<forall>u. hm_get color u \<noteq> Some WHITE \<longrightarrow> hm_get color' u \<noteq> Some WHITE))"
proof (induction adj color stack rule: dfs_stack.induct)
  case (1 adj color)
  then show ?case by simp
next
  case (2 adj color node idx stack)
  let ?ns = "neighbors_of adj node"
  let ?n = "?ns ! idx"
  note unfold = dfs_stack.simps(2) [of adj color node idx stack]
  show ?case
  proof (cases "length ?ns \<le> idx")
    case True
    with 2(1)[OF refl True dfs_inv_finish [OF 2(5) True]] show ?thesis
      by (auto simp: unfold map_laws split: option.splits if_splits)
  next
    case False
    then have idx: "idx < length ?ns" by simp
    show ?thesis
    proof (cases "hm_get color ?n")
      case None
      with False 2(2)[OF refl False refl refl None dfs_inv_skip [OF 2(5) idx]] show ?thesis
        by (simp add: unfold Let_def)
    next
      case (Some c)
      show ?thesis
      proof (cases c)
        case WHITE
        with Some have w: "hm_get color ?n = Some WHITE" by simp
        with False 2(3)[OF refl False refl refl w refl dfs_inv_descend [OF 2(5) idx w]]
        show ?thesis
          by (auto simp: unfold map_laws Let_def split: option.splits if_splits)
      next
        case GRAY
        with Some False dfs_inv_back_edge [OF 2(5) idx] show ?thesis
          by (simp add: unfold Let_def)
      next
        case BLACK
        with Some have b: "hm_get color ?n = Some BLACK" by simp
        with False 2(4)[OF refl False refl refl b refl dfs_inv_skip [OF 2(5) idx]] show ?thesis
          by (simp add: unfold Let_def)
      qed
    qed
  qed
qed

lemma dfs_inv_start:
  assumes inv: "dfs_inv adj V color []" and white: "hm_get color start = Some WHITE"
  shows "dfs_inv adj V (hm_put start GRAY color) [(start, 0)]"
proof -
  note I = dfs_invD [OF inv]
  show ?thesis
  proof (rule dfs_invI)
    show "dom (hm_get (hm_put start GRAY color)) = V" using I(1) white by (auto simp: map_laws)
    show "distinct (map fst [(start, 0::nat)])" by simp
    show "explored adj (hm_get (hm_put start GRAY color)) None [(start, 0)]" by simp
    fix u
    show "hm_get (hm_put start GRAY color) u = Some GRAY \<longleftrightarrow> u \<in> fst ` set [(start, 0::nat)]"
      using I(3) [of u] by (simp add: map_laws)
    show "(u, u) \<notin> (adj_rel adj V)\<^sup>+" if "hm_get (hm_put start GRAY color) u = Some BLACK"
      using that I(6) [of u] by (simp add: map_laws split: if_splits)
    fix v
    show "hm_get (hm_put start GRAY color) v = Some BLACK"
      if "hm_get (hm_put start GRAY color) u = Some BLACK" "(u, v) \<in> adj_rel adj V"
      using that I(5) [of u v] white by (auto simp: map_laws split: if_splits)
  qed
qed

lemma adj_rel_trancl_dom: "(u, v) \<in> (adj_rel adj V)\<^sup>+ \<Longrightarrow> u \<in> V"
  by (induction rule: trancl_induct) (auto simp: adj_rel_def)

lemma all_black_acyclic:
  assumes inv: "dfs_inv adj V color []" and "\<And>u. u \<in> V \<Longrightarrow> hm_get color u \<noteq> Some WHITE"
  shows "(u, u) \<notin> (adj_rel adj V)\<^sup>+"
proof
  assume cyc: "(u, u) \<in> (adj_rel adj V)\<^sup>+"
  note I = dfs_invD [OF inv]
  from cyc have "u \<in> V" by (rule adj_rel_trancl_dom)
  with I(1) obtain c where c: "hm_get color u = Some c" by blast
  with assms(2) [OF \<open>u \<in> V\<close>] I(3) [of u] have "c = BLACK" by (cases c) auto
  with c I(6) [of u] cyc show False by simp
qed

lemma dfs_starts_correct:
  "dfs_inv adj V color [] \<Longrightarrow> (\<And>u. u \<in> V \<Longrightarrow> hm_get color u = Some WHITE \<Longrightarrow> u \<in> set starts) \<Longrightarrow>
   dfs_starts adj color starts \<longleftrightarrow> (\<exists>u. (u, u) \<in> (adj_rel adj V)\<^sup>+)"
proof (induction adj color starts rule: dfs_starts.induct)
  case (1 adj color)
  then show ?case using all_black_acyclic [OF 1(1)] by auto
next
  case (2 adj color start rest)
  show ?case
  proof (cases "hm_get color start = Some WHITE")
    case False
    with 2 show ?thesis by auto
  next
    case True
    note step = dfs_stack_correct [OF dfs_inv_start [OF 2(3) True]]
    show ?thesis
    proof (cases "dfs_stack adj (hm_put start GRAY color) [(start, 0)]")
      case None
      with True step show ?thesis by simp
    next
      case (Some color')
      with step have inv: "dfs_inv adj V color' []"
        and mono: "\<And>u. hm_get color' u = Some WHITE \<Longrightarrow> hm_get color u = Some WHITE \<and> u \<noteq> start"
        by (auto simp: map_laws split: if_splits)
      have "dfs_starts adj color' rest \<longleftrightarrow> (\<exists>u. (u, u) \<in> (adj_rel adj V)\<^sup>+)"
        using 2(2) [of color'] True Some inv mono 2(4) by fastforce
      with True Some show ?thesis by simp
    qed
  qed
qed

theorem has_cycle_arcs_iff: "has_cycle_arcs ids es \<longleftrightarrow> cyclic ids es"
proof -
  let ?color = "fold (\<lambda>n. hm_put n WHITE) ids []"
  have get: "hm_get ?color u = (if u \<in> set ids then Some WHITE else None)" for u
    using hm.get_fold_put_const [where m = "[]" and f = "\<lambda>n. n" and c = WHITE and xs = ids and k = u] by simp
  have "dfs_inv (build_adj ids es) (set ids) ?color []"
    by (rule dfs_invI) (auto simp: get split: if_splits)
  then have "dfs_starts (build_adj ids es) ?color (sort ids)
      \<longleftrightarrow> (\<exists>u. (u, u) \<in> (adj_rel (build_adj ids es) (set ids))\<^sup>+)"
    by (rule dfs_starts_correct) (simp add: get)
  then show ?thesis
    by (simp add: has_cycle_arcs_def cyclic_def adj_rel_build_adj)
qed

end
