(* ===== verification/Dag_Order.thy ===== *)
theory Dag_Order
  imports Dag_Cycle
begin

text \<open>
  Kahn's algorithm as \<^verbatim>\<open>DAGManager::topological_order\<close> runs it
  (src/engine/src/workflow/dag\_manager/mod.rs): the in-degree table, the queue of nodes whose
  in-degree has reached zero, and the pass over the sorted neighbours of a popped node. The
  theory shows that the loop stops and that, without dangling edges, the result is a
  topological order exactly when the graph has no cycle.
\<close>

type_synonym degrees = "(string, int) hash_map"

definition build_in_degree :: "string list \<Rightarrow> arc list \<Rightarrow> degrees" where
  "build_in_degree ids es =
     fold (\<lambda>(u, v) m. hm_modify v (\<lambda>d. d + 1) (hm_or_insert v 0 m)) es
       (fold (\<lambda>n. hm_or_insert n 0) ids [])"

text \<open>The keys of in-degree zero, sorted: the initial queue.\<close>

definition zero_degree :: "degrees \<Rightarrow> string list" where
  "zero_degree indeg = sort (map fst (filter (\<lambda>(n, d). d = 0) indeg))"

text \<open>The inner loop over the neighbours of a node.\<close>

fun relax :: "string list \<Rightarrow> degrees \<Rightarrow> string list \<Rightarrow> degrees \<times> string list" where
  "relax [] indeg queue = (indeg, queue)"
| "relax (v # vs) indeg queue =
     (case hm_get indeg v of
        None \<Rightarrow> relax vs indeg queue
      | Some d \<Rightarrow> relax vs (hm_put v (d - 1) indeg) (if d - 1 = 0 then queue @ [v] else queue))"

definition degree_weight :: "degrees \<Rightarrow> nat" where
  "degree_weight indeg = sum_list (map (\<lambda>(n, d). nat d) indeg)"

lemma degree_weight_put:
  "hm_get indeg v = Some d \<Longrightarrow> degree_weight (hm_put v d' indeg) + nat d = degree_weight indeg + nat d'"
  by (induction indeg) (auto simp: degree_weight_def)

lemma relax_weight:
  "degree_weight (fst (relax vs indeg queue)) + length (snd (relax vs indeg queue))
     \<le> degree_weight indeg + length queue"
proof (induction vs indeg queue rule: relax.induct)
  case (2 v vs indeg queue)
  show ?case
  proof (cases "hm_get indeg v")
    case (Some d)
    with 2(2) [OF Some] degree_weight_put [OF Some, of "d - 1"] show ?thesis
      by (auto split: if_splits)
  qed (use 2 in simp)
qed simp

text \<open>The loop \<^verbatim>\<open>while let Some(node) = queue.pop_front()\<close>.\<close>

function kahn :: "adjacency \<Rightarrow> degrees \<Rightarrow> string list \<Rightarrow> string list \<Rightarrow> string list" where
  "kahn adj indeg [] acc = acc"
| "kahn adj indeg (node # queue) acc =
     (case hm_get adj node of
        None \<Rightarrow> kahn adj indeg queue (acc @ [node])
      | Some neighbors \<Rightarrow>
          kahn adj (fst (relax (sort neighbors) indeg queue))
            (snd (relax (sort neighbors) indeg queue)) (acc @ [node]))"
  by pat_completeness auto
termination
  by (relation "measure (\<lambda>(adj, indeg, queue, acc). degree_weight indeg + length queue)")
    (auto intro: le_less_trans [OF relax_weight])

definition topological_order_arcs :: "string list \<Rightarrow> arc list \<Rightarrow> string list" where
  "topological_order_arcs ids es =
     (let indeg = build_in_degree ids es
      in kahn (build_adj ids es) indeg (zero_degree indeg) [])"

section \<open>In-degrees\<close>

text \<open>The arcs into a node whose source has not been processed.\<close>

definition open_arcs :: "arc list \<Rightarrow> string set \<Rightarrow> string \<Rightarrow> nat" where
  "open_arcs es P v = length (filter (\<lambda>(a, b). b = v \<and> a \<notin> P) es)"

lemma open_arcs_zero_iff: "open_arcs es P v = 0 \<longleftrightarrow> (\<forall>u. (u, v) \<in> set es \<longrightarrow> u \<in> P)"
  by (auto simp: open_arcs_def filter_empty_conv)

lemma open_arcs_insert:
  assumes "n \<notin> P"
  shows "open_arcs es (insert n P) v + count_list (map snd (filter (\<lambda>e. fst e = n) es)) v = open_arcs es P v"
  using assms by (induction es) (auto simp: open_arcs_def)

lemma get_or_insert_zero_fold:
  "hm_get (fold (\<lambda>n. hm_or_insert n (0::int)) ids m) u =
     (if u \<in> set ids \<and> hm_get m u = None then Some 0 else hm_get m u)"
  by (induction ids arbitrary: m) (auto simp: map_laws split: option.splits)

lemma get_in_degree_fold:
  "hm_get (fold (\<lambda>(u, v) m. hm_modify v (\<lambda>d. d + 1) (hm_or_insert v (0::int) m)) es m) v =
     (if open_arcs es {} v = 0 then hm_get m v
      else Some (unwrap_or (hm_get m v) 0 + int (open_arcs es {} v)))"
proof (induction es arbitrary: m)
  case Nil
  then show ?case by (simp add: open_arcs_def)
next
  case (Cons e es)
  obtain a b where e: "e = (a, b)" by (cases e)
  have "open_arcs (e # es) {} v = open_arcs es {} v + (if v = b then 1 else 0)"
    by (auto simp: open_arcs_def e)
  then show ?case
    using Cons.IH [of "hm_modify b (\<lambda>d. d + 1) (hm_or_insert b 0 m)"]
    by (auto simp: e map_laws unwrap_or_def split: option.splits)
qed

lemma get_build_in_degree:
  assumes "dangling_free ids es"
  shows "hm_get (build_in_degree ids es) v =
    (if v \<in> set ids then Some (int (open_arcs es {} v)) else None)"
proof -
  have "open_arcs es {} v = 0" if "v \<notin> set ids"
    using assms that by (auto simp: open_arcs_zero_iff dangling_free_def)
  then show ?thesis
    by (auto simp: build_in_degree_def get_in_degree_fold get_or_insert_zero_fold)
qed

lemma distinct_build_in_degree: "distinct (map fst (build_in_degree ids es))"
proof -
  have "distinct (map fst (fold (\<lambda>n. hm_or_insert n (0::int)) ids m))" if "distinct (map fst m)" for m
    using that by (induction ids arbitrary: m) (auto simp: distinct_keys_or_insert)
  moreover have "distinct (map fst (fold (\<lambda>(u, v) m. hm_modify v (\<lambda>d. d + 1) (hm_or_insert v (0::int) m)) es m))"
    if "distinct (map fst m)" for m
    using that
    by (induction es arbitrary: m) (auto simp: distinct_keys_or_insert distinct_keys_modify)
  ultimately show ?thesis by (simp add: build_in_degree_def)
qed

lemma set_zero_degree:
  "distinct (map fst indeg) \<Longrightarrow> set (zero_degree indeg) = {v. hm_get indeg v = Some 0}"
  by (force simp: zero_degree_def)

lemma distinct_zero_degree: "distinct (map fst indeg) \<Longrightarrow> distinct (zero_degree indeg)"
  by (simp add: zero_degree_def distinct_map_filter)

section \<open>One pass over the neighbours\<close>

text \<open>
  When no degree drops below zero, a pass subtracts the multiplicity of every neighbour and
  enqueues, once, exactly the neighbours whose degree it exhausts.
\<close>

lemma relax_degrees:
  "hm_get (fst (relax vs indeg queue)) v = map_option (\<lambda>d. d - int (count_list vs v)) (hm_get indeg v)"
proof (induction vs indeg queue rule: relax.induct)
  case (2 w vs indeg queue)
  show ?case
  proof (cases "hm_get indeg w")
    case (Some d)
    then show ?thesis
      using 2(2) [OF Some] by (auto simp: map_laws split: option.splits)
  qed (use 2 in \<open>auto\<close>)
qed (simp add: option.map_ident)

lemma relax_queue:
  assumes "\<And>v d. hm_get indeg v = Some d \<Longrightarrow> int (count_list vs v) \<le> d"
  shows "\<exists>new. snd (relax vs indeg queue) = queue @ new \<and> distinct new \<and>
    set new = {v \<in> set vs. hm_get indeg v = Some (int (count_list vs v))}"
  using assms
proof (induction vs indeg queue rule: relax.induct)
  case (2 w vs indeg queue)
  show ?case
  proof (cases "hm_get indeg w")
    case None
    have "\<exists>new. snd (relax vs indeg queue) = queue @ new \<and> distinct new \<and>
      set new = {v \<in> set vs. hm_get indeg v = Some (int (count_list vs v))}"
    proof (rule 2(1) [OF None])
      fix v d assume "hm_get indeg v = Some d"
      from 2(3) [OF this] show "int (count_list vs v) \<le> d" by (simp split: if_splits)
    qed
    moreover have "{v \<in> set vs. hm_get indeg v = Some (int (count_list vs v))} =
      {v \<in> set (w # vs). hm_get indeg v = Some (int (count_list (w # vs) v))}"
      using None by auto
    ultimately show ?thesis using None by simp
  next
    case (Some d)
    let ?indeg = "hm_put w (d - 1) indeg"
    let ?queue = "if d - 1 = 0 then queue @ [w] else queue"
    have d: "1 + int (count_list vs w) \<le> d" using 2(3) [OF Some] by simp
    have "\<exists>new. snd (relax vs ?indeg ?queue) = ?queue @ new \<and> distinct new \<and>
      set new = {v \<in> set vs. hm_get ?indeg v = Some (int (count_list vs v))}"
    proof (rule 2(2) [OF Some])
      fix v d' assume "hm_get ?indeg v = Some d'"
      with d 2(3) [of v d'] show "int (count_list vs v) \<le> d'"
        by (auto simp: map_laws split: if_splits)
    qed
    then obtain new where new: "snd (relax vs ?indeg ?queue) = ?queue @ new" "distinct new"
      "set new = {v \<in> set vs. hm_get ?indeg v = Some (int (count_list vs v))}"
      by blast
    let ?new = "if d - 1 = 0 then w # new else new"
    have mem: "v \<in> set new \<longleftrightarrow> v \<in> set vs \<and> hm_get ?indeg v = Some (int (count_list vs v))" for v
      by (simp add: new(3))
    have "w \<notin> set new" if "d = 1"
      using that d mem [of w] by (simp add: count_list_0_iff)
    then have "distinct ?new" using new(2) by simp
    moreover have "v \<in> set ?new \<longleftrightarrow> v \<in> set (w # vs) \<and> hm_get indeg v = Some (int (count_list (w # vs) v))" for v
    proof (cases "v = w")
      case True
      have "w \<in> set vs \<longleftrightarrow> count_list vs w \<noteq> 0" by (simp add: count_list_0_iff)
      then show ?thesis using True mem [of w] Some d by (auto simp: map_laws)
    qed (use mem [of v] in \<open>simp add: map_laws\<close>)
    then have "set ?new = {v \<in> set (w # vs). hm_get indeg v = Some (int (count_list (w # vs) v))}"
      by blast
    moreover have "snd (relax (w # vs) indeg queue) = queue @ ?new" using new(1) Some by simp
    ultimately show ?thesis by blast
  qed
qed simp

section \<open>The loop\<close>

definition preds_before :: "arc list \<Rightarrow> string list \<Rightarrow> bool" where
  "preds_before es xs \<longleftrightarrow> (\<forall>ys v zs. xs = ys @ v # zs \<longrightarrow> (\<forall>u. (u, v) \<in> set es \<longrightarrow> u \<in> set ys))"

definition kahn_inv :: "string list \<Rightarrow> arc list \<Rightarrow> degrees \<Rightarrow> string list \<Rightarrow> string list \<Rightarrow> bool" where
  "kahn_inv ids es indeg queue acc \<longleftrightarrow>
     distinct (acc @ queue) \<and>
     (\<forall>v. v \<in> set (acc @ queue) \<longleftrightarrow> v \<in> set ids \<and> open_arcs es (set acc) v = 0) \<and>
     (\<forall>v. hm_get indeg v = (if v \<in> set ids then Some (int (open_arcs es (set acc) v)) else None)) \<and>
     preds_before es acc"

lemma kahn_invI:
  assumes "distinct (acc @ queue)"
    and "\<And>v. v \<in> set (acc @ queue) \<longleftrightarrow> v \<in> set ids \<and> open_arcs es (set acc) v = 0"
    and "\<And>v. hm_get indeg v = (if v \<in> set ids then Some (int (open_arcs es (set acc) v)) else None)"
    and "preds_before es acc"
  shows "kahn_inv ids es indeg queue acc"
  using assms by (simp add: kahn_inv_def)

lemma kahn_invD:
  assumes "kahn_inv ids es indeg queue acc"
  shows "distinct (acc @ queue)"
    and "v \<in> set (acc @ queue) \<longleftrightarrow> v \<in> set ids \<and> open_arcs es (set acc) v = 0"
    and "hm_get indeg v = (if v \<in> set ids then Some (int (open_arcs es (set acc) v)) else None)"
    and "preds_before es acc"
  using assms by (simp_all add: kahn_inv_def)

lemma preds_before_snoc:
  assumes "preds_before es xs" and "\<And>u. (u, v) \<in> set es \<Longrightarrow> u \<in> set xs"
  shows "preds_before es (xs @ [v])"
proof -
  have "u \<in> set ys" if "xs @ [v] = ys @ w # zs" "(u, w) \<in> set es" for ys w zs u
  proof (cases zs rule: rev_cases)
    case Nil
    then show ?thesis using that assms(2) by simp
  next
    case (snoc zs' z)
    then show ?thesis using that assms(1) by (auto simp: preds_before_def)
  qed
  then show ?thesis by (auto simp: preds_before_def)
qed

lemma kahn_inv_start:
  assumes "dangling_free ids es"
  shows "kahn_inv ids es (build_in_degree ids es) (zero_degree (build_in_degree ids es)) []"
  by (rule kahn_invI)
    (simp_all add: distinct_zero_degree distinct_build_in_degree set_zero_degree
      get_build_in_degree [OF assms] preds_before_def)

text \<open>Processing one node: any list of its neighbours with the right multiplicities will do.\<close>

lemma kahn_inv_relax:
  assumes inv: "kahn_inv ids es indeg (node # queue) acc"
    and free: "dangling_free ids es"
    and ns: "\<And>v. count_list ns v = count_list (map snd (filter (\<lambda>e. fst e = node) es)) v"
  shows "kahn_inv ids es (fst (relax ns indeg queue)) (snd (relax ns indeg queue)) (acc @ [node])"
proof -
  note inv = kahn_invD [OF inv]
  have fresh: "node \<notin> set acc" using inv(1) by simp
  have split: "open_arcs es (set acc) v = open_arcs es (insert node (set acc)) v + count_list ns v" for v
    using open_arcs_insert [OF fresh, of es v] ns [of v] by simp
  have arcs_ids: "v \<in> set ids" if "v \<in> set ns" for v
  proof -
    have "v \<in> set (map snd (filter (\<lambda>e. fst e = node) es))"
      using that ns [of v] by (metis count_list_0_iff)
    then show ?thesis using free by (auto simp: dangling_free_def)
  qed
  have le: "int (count_list ns v) \<le> d" if "hm_get indeg v = Some d" for v d
    using that inv(3) [of v] split [of v] by (auto split: if_splits)
  from relax_queue [of indeg ns queue, OF le]
  obtain new where new: "snd (relax ns indeg queue) = queue @ new" "distinct new"
    and set_new: "\<And>v. v \<in> set new \<longleftrightarrow> v \<in> set ns \<and> hm_get indeg v = Some (int (count_list ns v))"
    by auto
  have set_new': "v \<in> set new \<longleftrightarrow> v \<in> set ids \<and> v \<in> set ns \<and> open_arcs es (insert node (set acc)) v = 0" for v
    using set_new [of v] inv(3) [of v] split [of v] arcs_ids [of v] by auto
  have old: "v \<notin> set new" if "v \<in> set (acc @ node # queue)" for v
  proof
    assume "v \<in> set new"
    then have "v \<in> set ns" using set_new' by blast
    then have "count_list ns v \<noteq> 0" by (simp add: count_list_0_iff)
    then show False using inv(2) [of v] that split [of v] by simp
  qed
  show ?thesis
  proof (rule kahn_invI)
    show "distinct ((acc @ [node]) @ snd (relax ns indeg queue))"
      using inv(1) new old by auto
    show "v \<in> set ((acc @ [node]) @ snd (relax ns indeg queue)) \<longleftrightarrow>
      v \<in> set ids \<and> open_arcs es (set (acc @ [node])) v = 0" for v
    proof (cases "v \<in> set ns")
      case True
      then have "v \<notin> set (acc @ node # queue)"
        using inv(2) [of v] split [of v] count_list_0_iff [of ns v] by auto
      then show ?thesis using new(1) set_new' [of v] True by simp
    next
      case False
      then have "open_arcs es (insert node (set acc)) v = open_arcs es (set acc) v"
        using split [of v] by (simp add: count_list_0_iff)
      then show ?thesis using new(1) set_new' [of v] False inv(2) [of v] by simp
    qed
    show "hm_get (fst (relax ns indeg queue)) v =
      (if v \<in> set ids then Some (int (open_arcs es (set (acc @ [node])) v)) else None)" for v
      using relax_degrees [of ns indeg queue v] inv(3) [of v] split [of v] by simp
    show "preds_before es (acc @ [node])"
    proof (rule preds_before_snoc [OF inv(4)])
      fix u assume "(u, node) \<in> set es"
      moreover have "open_arcs es (set acc) node = 0" using inv(2) [of node] by simp
      ultimately show "u \<in> set acc" by (simp add: open_arcs_zero_iff)
    qed
  qed
qed

lemma count_list_sort: "count_list (sort xs) v = count_list xs v"
  by (metis count_mset mset_sort)

lemma kahn_inv_end:
  assumes "dangling_free ids es" "kahn_inv ids es indeg queue acc"
  shows "\<exists>indeg'. kahn_inv ids es indeg' [] (kahn (build_adj ids es) indeg queue acc)"
  using assms(2)
proof (induction "build_adj ids es" indeg queue acc rule: kahn.induct)
  case (1 indeg acc)
  then show ?case by auto
next
  case (2 indeg node queue acc)
  have "node \<in> set ids" using kahn_invD(2) [OF 2(3), of node] by simp
  then have adj: "hm_get (build_adj ids es) node = Some (map snd (filter (\<lambda>e. fst e = node) es))"
    by (simp add: get_build_adj)
  show ?case
    using 2(2) [OF adj kahn_inv_relax [OF 2(3) assms(1)]] adj by (simp add: count_list_sort)
qed

lemma topological_order_arcs_inv:
  assumes "dangling_free ids es"
  shows "\<exists>indeg. kahn_inv ids es indeg [] (topological_order_arcs ids es)"
  using kahn_inv_end [OF assms kahn_inv_start [OF assms]]
  by (simp add: topological_order_arcs_def Let_def)

text \<open>A complete run is a topological order, and an acyclic graph is always completed.\<close>

lemma topologicalI:
  assumes "distinct xs" "set xs = set ids" "preds_before es xs" "dangling_free ids es"
  shows "topological ids es xs"
proof -
  have "\<exists>as bs cs. xs = as @ u # bs @ v # cs" if "(u, v) \<in> set es" for u v
  proof -
    have "v \<in> set ids" using that assms(4) by (auto simp: dangling_free_def)
    then obtain ys zs where xs: "xs = ys @ v # zs"
      using assms(2) by (metis split_list)
    then have "u \<in> set ys" using assms(3) that by (auto simp: preds_before_def)
    then obtain as bs where "ys = as @ u # bs" by (metis split_list)
    then show ?thesis using xs by auto
  qed
  then show ?thesis using assms(1,2) by (auto simp: topological_def)
qed

lemma kahn_inv_complete:
  assumes inv: "kahn_inv ids es indeg [] acc" and "\<not> cyclic ids es" "dangling_free ids es"
  shows "set acc = set ids"
proof (rule ccontr)
  note inv = kahn_invD [OF inv]
  assume "set acc \<noteq> set ids"
  moreover have "set acc \<subseteq> set ids" using inv(2) by auto
  ultimately have "set ids - set acc \<noteq> {}" by auto
  moreover have "acyclic (graph_rel ids es)"
    using assms(2) by (simp add: cyclic_iff_not_acyclic)
  ultimately obtain u where u: "u \<in> set ids - set acc"
    and src: "\<forall>w \<in> set ids - set acc. (w, u) \<notin> graph_rel ids es"
    using acyclic_has_source [of "graph_rel ids es" "set ids - set acc"] by auto
  have "w \<in> set acc" if "(w, u) \<in> set es" for w
    using that src assms(3) u by (auto simp: graph_rel_def dangling_free_def)
  then have "open_arcs es (set acc) u = 0" by (simp add: open_arcs_zero_iff)
  with inv(2) [of u] u show False by simp
qed

text \<open>An order that lists every arc from an earlier to a later position rules out cycles.\<close>

lemma topological_acyclic:
  assumes "topological ids es xs"
  shows "\<not> cyclic ids es"
proof -
  define pos where "pos u = length (takeWhile (\<lambda>x. x \<noteq> u) xs)" for u
  have "graph_rel ids es \<subseteq> measure pos"
  proof
    fix e assume "e \<in> graph_rel ids es"
    then obtain u v where e: "e = (u, v)" "(u, v) \<in> set es" by (cases e) (auto simp: graph_rel_def)
    then obtain as bs cs where xs: "xs = as @ u # bs @ v # cs" and "distinct xs"
      using assms by (auto simp: topological_def)
    then have "pos u = length as" "pos v = length as + 1 + length bs"
      by (auto simp: pos_def takeWhile_append)
    then show "e \<in> measure pos" by (simp add: e)
  qed
  then have "acyclic (graph_rel ids es)"
    using wf_measure wf_subset wf_acyclic by blast
  then show ?thesis by (simp add: cyclic_iff_not_acyclic)
qed

lemma topological_order_arcs_topological:
  assumes "valid_graph ids es"
  shows "topological ids es (topological_order_arcs ids es)"
proof -
  from assms have free: "dangling_free ids es" and acyc: "\<not> cyclic ids es"
    by (auto simp: valid_graph_def)
  obtain indeg where inv: "kahn_inv ids es indeg [] (topological_order_arcs ids es)"
    using topological_order_arcs_inv [OF free] by blast
  show ?thesis
    using kahn_invD(1,4) [OF inv] kahn_inv_complete [OF inv acyc free] free
    by (intro topologicalI) simp_all
qed

text \<open>Without dangling edges the order is complete exactly when there is no cycle.\<close>

lemma topological_order_arcs_complete_iff:
  assumes free: "dangling_free ids es"
  shows "set (topological_order_arcs ids es) = set ids \<longleftrightarrow> \<not> cyclic ids es"
proof
  obtain indeg where inv: "kahn_inv ids es indeg [] (topological_order_arcs ids es)"
    using topological_order_arcs_inv [OF free] by blast
  show "set (topological_order_arcs ids es) = set ids" if "\<not> cyclic ids es"
    using kahn_inv_complete [OF inv that free] .
  show "\<not> cyclic ids es" if "set (topological_order_arcs ids es) = set ids"
    using kahn_invD(1,4) [OF inv] that free
    by (intro topological_acyclic [OF topologicalI]) simp_all
qed

end
