(* ===== verification/Json_Value.thy ===== *)
theory Json_Value
  imports Harness_Prelude
begin

text \<open>
  The JSON values the components exchange, \<^verbatim>\<open>serde_json::Value\<close>, with the accessors the source
  calls on them. An integer is kept as the unsigned or the negative number the parser made of
  it; a floating-point number is kept as its text, since no accessor used here reads it.
\<close>

datatype json_number = PosInt nat | NegInt int | Float string

datatype json =
    JNull
  | JBool bool
  | JNumber json_number
  | JString string
  | JArray "json list"
  | JObject "(string \<times> json) list"

type_synonym json_object = "(string, json) btree_map"

fun as_str :: "json \<Rightarrow> string option" where
  "as_str (JString s) = Some s"
| "as_str _ = None"

fun as_bool :: "json \<Rightarrow> bool option" where
  "as_bool (JBool b) = Some b"
| "as_bool _ = None"

fun as_array :: "json \<Rightarrow> json list option" where
  "as_array (JArray xs) = Some xs"
| "as_array _ = None"

fun as_object :: "json \<Rightarrow> json_object option" where
  "as_object (JObject m) = Some m"
| "as_object _ = None"

fun as_i64 :: "json \<Rightarrow> int option" where
  "as_i64 (JNumber (PosInt n)) = (if n < 2 ^ 63 then Some (int n) else None)"
| "as_i64 (JNumber (NegInt i)) = Some i"
| "as_i64 _ = None"

text \<open>\<^verbatim>\<open>Value::get\<close> on a key: only objects have members.\<close>

definition json_get :: "json \<Rightarrow> string \<Rightarrow> json option" where
  "json_get j k = (case as_object j of None \<Rightarrow> None | Some m \<Rightarrow> bt_get m k)"

text \<open>The strings of an array member, as the source collects them; anything else is skipped.\<close>

definition string_array :: "json option \<Rightarrow> string list" where
  "string_array v = (case Option.bind v as_array of
     None \<Rightarrow> [] | Some xs \<Rightarrow> List.map_filter as_str xs)"

text \<open>A string member of a payload.\<close>

definition get_str :: "json_object \<Rightarrow> string \<Rightarrow> string option" where
  "get_str p k = Option.bind (bt_get p k) as_str"

lemma json_get_simps [simp]:
  "json_get (JObject m) k = bt_get m k"
  "json_get JNull k = None" "json_get (JBool b) k = None" "json_get (JNumber n) k = None"
  "json_get (JString s) k = None" "json_get (JArray xs) k = None"
  by (simp_all add: json_get_def)

definition json_option :: "string option \<Rightarrow> json" where
  "json_option v = (case v of None \<Rightarrow> JNull | Some s \<Rightarrow> JString s)"

text \<open>\<^verbatim>\<open>json!\<close> of an object: its members are kept sorted by key.\<close>

definition json_object :: "(string \<times> json) list \<Rightarrow> json" where
  "json_object members = JObject (foldl (\<lambda>m (k, v). bt_put k v m) [] members)"

end
