(* ===== verification/Dag_Manager.thy ===== *)
theory Dag_Manager
  imports Dag_Order Json_Value
begin

text \<open>
  The versioned DAG of src/engine/src/workflow/dag\_manager: its data (types.rs), the lookups and
  the cycle test (helpers.rs), the six mutations (mutations.rs), the compensation of a mutation
  (compensate.rs) and the manager with its undo history and its graph queries (mod.rs). Every
  mutation is a function from a state and a proposal to a new state or an error message, with the
  messages of the source. Versions are \<^typ>\<open>int\<close>: the \<^verbatim>\<open>i64\<close> counter grows by one for each
  applied mutation and does not reach its bound. The history is a stack with its top at the head
  of the list.

  The invariant \<open>dag_inv\<close> (unique ids, no dangling edge, no cycle, consecutive versions in the
  history) holds in every reachable manager, and the theorems below it say what the queries and
  the undo operations promise.
\<close>

section \<open>Data\<close>

record dag_node =
  node_id :: string
  task_id :: "string option"
  node_type :: string
  node_status :: string
  tier :: string
  metadata :: "(string, json) hash_map"

record dag_edge =
  edge_id :: string
  from_node :: string
  to_node :: string
  dependency_type :: string
  edge_status :: string

record dag_state =
  dag_id :: string
  version :: int
  nodes :: "dag_node list"
  edges :: "dag_edge list"
  created_at :: string
  updated_at :: string

record dag_mutation_proposal =
  proposal_id :: string
  proposal_dag_id :: string
  mutation_type :: string
  target_node_id :: "string option"
  target_edge_id :: "string option"
  payload :: "(string, json) hash_map"
  reason :: string
  proposal_requires_approval :: bool
  proposal_status :: string

record dag_mutation_result =
  result_proposal_id :: string
  applied :: bool
  new_dag_version :: int
  rolled_back :: bool
  errors :: "string list"

record dag_manager =
  manager_dag_id :: string
  state :: dag_state
  history :: "(dag_state \<times> dag_mutation_proposal) list"

definition default_dag_node :: dag_node where
  "default_dag_node = \<lparr>node_id = [], task_id = None, node_type = ''task'', node_status = ''pending'',
     tier = ''cheap_executor'', metadata = []\<rparr>"

definition default_dag_edge :: dag_edge where
  "default_dag_edge = \<lparr>edge_id = [], from_node = [], to_node = [], dependency_type = ''hard'',
     edge_status = ''pending''\<rparr>"

definition default_dag_state :: dag_state where
  "default_dag_state = \<lparr>dag_id = [], version = 0, nodes = [], edges = [], created_at = [], updated_at = []\<rparr>"

definition default_proposal :: dag_mutation_proposal where
  "default_proposal = \<lparr>proposal_id = [], proposal_dag_id = [], mutation_type = [], target_node_id = None,
     target_edge_id = None, payload = [], reason = [], proposal_requires_approval = False,
     proposal_status = ''pending''\<rparr>"

section \<open>Lookups and the cycle test\<close>

abbreviation node_ids :: "dag_node list \<Rightarrow> string list" where
  "node_ids ns \<equiv> map node_id ns"

abbreviation edge_arc :: "dag_edge \<Rightarrow> arc" where
  "edge_arc e \<equiv> (from_node e, to_node e)"

definition has_cycle :: "dag_node list \<Rightarrow> dag_edge list \<Rightarrow> bool" where
  "has_cycle ns es = has_cycle_arcs (node_ids ns) (map edge_arc es)"

definition find_node :: "dag_node list \<Rightarrow> string \<Rightarrow> dag_node option" where
  "find_node ns i = List.find (\<lambda>n. node_id n = i) ns"

definition find_edge :: "dag_edge list \<Rightarrow> string \<Rightarrow> dag_edge option" where
  "find_edge es i = List.find (\<lambda>e. edge_id e = i) es"

definition requires_approval :: "dag_mutation_proposal \<Rightarrow> dag_state \<Rightarrow> bool" where
  "requires_approval proposal s =
     (proposal_requires_approval proposal \<or>
      (mutation_type proposal = ''remove_node'' \<and>
        (case target_node_id proposal of None \<Rightarrow> False | Some i \<Rightarrow>
          (case find_node (nodes s) i of None \<Rightarrow> False | Some node \<Rightarrow>
             node_status node = ''running'' \<or> node_status node = ''completed''))) \<or>
      (mutation_type proposal = ''rewire_edge'' \<and>
        (case target_edge_id proposal of None \<Rightarrow> False | Some i \<Rightarrow>
          (case find_edge (edges s) i of None \<Rightarrow> False | Some edge \<Rightarrow>
            (case find_node (nodes s) (from_node edge) of None \<Rightarrow> False | Some node \<Rightarrow>
               node_status node = ''completed'')))))"

section \<open>Mutations\<close>

text \<open>The records a payload describes, with the defaults of the source.\<close>

definition payload_node :: "string \<Rightarrow> (string, json) hash_map \<Rightarrow> dag_node" where
  "payload_node i p = \<lparr>node_id = i, task_id = get_str p ''task_id'',
     node_type = unwrap_or (get_str p ''node_type'') ''task'',
     node_status = unwrap_or (get_str p ''status'') ''pending'',
     tier = unwrap_or (get_str p ''tier'') ''cheap_executor'',
     metadata = unwrap_or (Option.bind (hm_get p ''metadata'') as_object) []\<rparr>"

definition payload_edge :: "string \<Rightarrow> string \<Rightarrow> string \<Rightarrow> (string, json) hash_map \<Rightarrow> dag_edge" where
  "payload_edge i f t p = \<lparr>edge_id = i, from_node = f, to_node = t,
     dependency_type = unwrap_or (get_str p ''dependency_type'') ''hard'',
     edge_status = unwrap_or (get_str p ''status'') ''pending''\<rparr>"

definition rewired_edge :: "dag_edge \<Rightarrow> (string, json) hash_map \<Rightarrow> dag_edge" where
  "rewired_edge edge p = \<lparr>edge_id = edge_id edge,
     from_node = unwrap_or (get_str p ''from_node'') (from_node edge),
     to_node = unwrap_or (get_str p ''to_node'') (to_node edge),
     dependency_type = unwrap_or (get_str p ''dependency_type'') (dependency_type edge),
     edge_status = edge_status edge\<rparr>"

definition updated_node :: "dag_node \<Rightarrow> (string, json) hash_map \<Rightarrow> dag_node" where
  "updated_node node p = \<lparr>node_id = node_id node,
     task_id = (case hm_get p ''task_id'' of
                  None \<Rightarrow> task_id node | Some v \<Rightarrow> Some (unwrap_or (as_str v) [])),
     node_type = unwrap_or (get_str p ''node_type'') (node_type node),
     node_status = unwrap_or (get_str p ''status'') (node_status node),
     tier = unwrap_or (get_str p ''tier'') (tier node),
     metadata = unwrap_or (Option.bind (hm_get p ''metadata'') as_object) (metadata node)\<rparr>"

definition apply_add_node :: "dag_state \<Rightarrow> dag_mutation_proposal \<Rightarrow> (string, dag_state) result" where
  "apply_add_node s proposal =
     (let p = payload proposal
      in case get_str p ''node_id'' of
           None \<Rightarrow> Err ''missing node_id''
         | Some i \<Rightarrow>
             if find_node (nodes s) i \<noteq> None then Err (''node '' @ i @ '' already exists'')
             else
               Ok (s\<lparr>version := version s + 1, nodes := nodes s @ [payload_node i p],
                     updated_at := proposal_id proposal\<rparr>))"

definition apply_remove_node :: "dag_state \<Rightarrow> dag_mutation_proposal \<Rightarrow> (string, dag_state) result" where
  "apply_remove_node s proposal =
     (case target_node_id proposal of
        None \<Rightarrow> Err ''missing target_node_id''
      | Some i \<Rightarrow>
          if find_node (nodes s) i = None then Err (''node '' @ i @ '' not found'')
          else
            let connected = filter (\<lambda>e. from_node e = i \<or> to_node e = i) (edges s)
            in if connected \<noteq> [] then
                 Err (''node '' @ i @ '' has '' @ show_nat (length connected)
                      @ '' connected edges; remove them first'')
               else Ok (s\<lparr>version := version s + 1, nodes := filter (\<lambda>n. node_id n \<noteq> i) (nodes s),
                          updated_at := proposal_id proposal\<rparr>))"

definition apply_add_edge :: "dag_state \<Rightarrow> dag_mutation_proposal \<Rightarrow> (string, dag_state) result" where
  "apply_add_edge s proposal =
     (let p = payload proposal
      in case get_str p ''edge_id'' of None \<Rightarrow> Err ''missing edge_id'' | Some i \<Rightarrow>
         case get_str p ''from_node'' of None \<Rightarrow> Err ''missing from_node'' | Some f \<Rightarrow>
         case get_str p ''to_node'' of None \<Rightarrow> Err ''missing to_node'' | Some t \<Rightarrow>
           if find_node (nodes s) f = None then Err (''from_node '' @ f @ '' not found'')
           else if find_node (nodes s) t = None then Err (''to_node '' @ t @ '' not found'')
           else if find_edge (edges s) i \<noteq> None then Err (''edge '' @ i @ '' already exists'')
           else
             let test_edges = edges s @ [payload_edge i f t p]
             in if has_cycle (nodes s) test_edges then
                  Err (''adding edge '' @ i @ '' would create a cycle'')
                else Ok (s\<lparr>version := version s + 1, edges := test_edges,
                           updated_at := proposal_id proposal\<rparr>))"

definition apply_remove_edge :: "dag_state \<Rightarrow> dag_mutation_proposal \<Rightarrow> (string, dag_state) result" where
  "apply_remove_edge s proposal =
     (case target_edge_id proposal of
        None \<Rightarrow> Err ''missing target_edge_id''
      | Some i \<Rightarrow>
          if find_edge (edges s) i = None then Err (''edge '' @ i @ '' not found'')
          else Ok (s\<lparr>version := version s + 1, edges := filter (\<lambda>e. edge_id e \<noteq> i) (edges s),
                     updated_at := proposal_id proposal\<rparr>))"

definition apply_rewire_edge :: "dag_state \<Rightarrow> dag_mutation_proposal \<Rightarrow> (string, dag_state) result" where
  "apply_rewire_edge s proposal =
     (let p = payload proposal
      in case target_edge_id proposal of None \<Rightarrow> Err ''missing target_edge_id'' | Some i \<Rightarrow>
         case find_edge (edges s) i of None \<Rightarrow> Err (''edge '' @ i @ '' not found'') | Some edge \<Rightarrow>
           let rewired = rewired_edge edge p
           in if find_node (nodes s) (from_node rewired) = None then
                Err (''from_node '' @ from_node rewired @ '' not found'')
              else if find_node (nodes s) (to_node rewired) = None then
                Err (''to_node '' @ to_node rewired @ '' not found'')
              else
                let test_edges = filter (\<lambda>e. edge_id e \<noteq> edge_id edge) (edges s) @ [rewired]
                in if has_cycle (nodes s) test_edges then
                     Err (''rewiring edge '' @ i @ '' would create a cycle'')
                   else Ok (s\<lparr>version := version s + 1, edges := test_edges,
                              updated_at := proposal_id proposal\<rparr>))"

definition apply_update_node :: "dag_state \<Rightarrow> dag_mutation_proposal \<Rightarrow> (string, dag_state) result" where
  "apply_update_node s proposal =
     (case target_node_id proposal of None \<Rightarrow> Err ''missing target_node_id'' | Some i \<Rightarrow>
      case find_node (nodes s) i of None \<Rightarrow> Err (''node '' @ i @ '' not found'') | Some node \<Rightarrow>
        let updated = updated_node node (payload proposal)
        in Ok (s\<lparr>version := version s + 1,
                 nodes := map (\<lambda>n. if node_id n = i then updated else n) (nodes s),
                 updated_at := proposal_id proposal\<rparr>))"

section \<open>The manager\<close>

definition dag_manager_new :: "string \<Rightarrow> string \<Rightarrow> dag_manager" where
  "dag_manager_new i timestamp = \<lparr>manager_dag_id = i,
     state = \<lparr>dag_id = i, version = 0, nodes = [], edges = [], created_at = timestamp,
              updated_at = timestamp\<rparr>,
     history = []\<rparr>"

text \<open>The dispatch on the mutation type; \<^const>\<open>None\<close> is the unknown type.\<close>

definition apply_fn ::
  "string \<Rightarrow> (dag_state \<Rightarrow> dag_mutation_proposal \<Rightarrow> (string, dag_state) result) option" where
  "apply_fn ty =
     (if ty = ''add_node'' then Some apply_add_node
      else if ty = ''remove_node'' then Some apply_remove_node
      else if ty = ''add_edge'' then Some apply_add_edge
      else if ty = ''remove_edge'' then Some apply_remove_edge
      else if ty = ''rewire_edge'' then Some apply_rewire_edge
      else if ty = ''update_node'' then Some apply_update_node
      else None)"

definition reject :: "dag_manager \<Rightarrow> dag_mutation_proposal \<Rightarrow> string \<Rightarrow> dag_mutation_result" where
  "reject m proposal e = \<lparr>result_proposal_id = proposal_id proposal, applied = False,
     new_dag_version = version (state m), rolled_back = False, errors = [e]\<rparr>"

definition apply_mutation :: "dag_manager \<Rightarrow> dag_mutation_proposal \<Rightarrow> dag_mutation_result \<times> dag_manager" where
  "apply_mutation m proposal =
     (if proposal_dag_id proposal \<noteq> manager_dag_id m then
        (reject m proposal (''dag_id mismatch: expected '' @ manager_dag_id m @ '', got ''
           @ proposal_dag_id proposal), m)
      else case apply_fn (mutation_type proposal) of
        None \<Rightarrow> (reject m proposal (''unknown mutation_type: '' @ mutation_type proposal), m)
      | Some f \<Rightarrow>
          if requires_approval proposal (state m) then
            (reject m proposal ''mutation requires approval; set status=approved to proceed'', m)
          else case f (state m) proposal of
            Ok new_state \<Rightarrow>
              (\<lparr>result_proposal_id = proposal_id proposal, applied = True,
                 new_dag_version = version new_state, rolled_back = False, errors = []\<rparr>,
               m\<lparr>state := new_state, history := (state m, proposal) # history m\<rparr>)
          | Err e \<Rightarrow> (reject m proposal e, m))"

fun rollback_loop :: "int \<Rightarrow> dag_state \<Rightarrow> (dag_state \<times> dag_mutation_proposal) list \<Rightarrow>
    dag_state \<times> (dag_state \<times> dag_mutation_proposal) list" where
  "rollback_loop to_version s [] = (s, [])"
| "rollback_loop to_version s ((prev, p) # h) =
     (if version s > to_version then rollback_loop to_version prev h else (s, (prev, p) # h))"

definition rollback :: "dag_manager \<Rightarrow> int \<Rightarrow> dag_manager" where
  "rollback m to_version =
     m\<lparr>state := fst (rollback_loop to_version (state m) (history m)),
       history := snd (rollback_loop to_version (state m) (history m))\<rparr>"

definition edge_errors :: "dag_node list \<Rightarrow> dag_edge \<Rightarrow> string list" where
  "edge_errors ns e =
     (if from_node e \<notin> set (node_ids ns)
      then [''edge '' @ edge_id e @ '': from_node '' @ from_node e @ '' not found''] else []) @
     (if to_node e \<notin> set (node_ids ns)
      then [''edge '' @ edge_id e @ '': to_node '' @ to_node e @ '' not found''] else [])"

definition validate_dag :: "dag_manager \<Rightarrow> string list" where
  "validate_dag m =
     concat (map (edge_errors (nodes (state m))) (edges (state m))) @
     (if has_cycle (nodes (state m)) (edges (state m)) then [''DAG contains a cycle''] else [])"

definition topological_order :: "dag_manager \<Rightarrow> string list" where
  "topological_order m =
     topological_order_arcs (node_ids (nodes (state m))) (map edge_arc (edges (state m)))"

definition nodes_ready :: "dag_manager \<Rightarrow> string set \<Rightarrow> dag_node list" where
  "nodes_ready m completed =
     sort_key node_id
       (filter (\<lambda>node.
          \<not> (node_id node \<in> completed \<or> node_status node \<noteq> ''pending'') \<and>
          (\<forall>e \<in> set (edges (state m)). to_node e = node_id node \<longrightarrow> from_node e \<in> completed))
        (nodes (state m)))"

text \<open>The trait implementation.\<close>

definition dag_validate :: "dag_manager \<Rightarrow> bool \<times> string list" where
  "dag_validate m = (validate_dag m = [], validate_dag m)"

definition dag_ready_nodes :: "dag_manager \<Rightarrow> string set \<Rightarrow> string list" where
  "dag_ready_nodes m completed = map node_id (nodes_ready m completed)"

section \<open>Compensation\<close>

definition inverse_mutation_type :: "string \<Rightarrow> string" where
  "inverse_mutation_type ty =
     (if ty = ''add_node'' then ''remove_node''
      else if ty = ''remove_node'' then ''add_node''
      else if ty = ''add_edge'' then ''remove_edge''
      else if ty = ''remove_edge'' then ''add_edge''
      else if ty = ''rewire_edge'' then ''rewire_edge''
      else if ty = ''update_node'' then ''update_node''
      else ty)"

definition compensate :: "dag_mutation_proposal \<Rightarrow> dag_mutation_proposal" where
  "compensate proposal =
     \<lparr>proposal_id = ''comp_'' @ proposal_id proposal,
      proposal_dag_id = proposal_dag_id proposal,
      mutation_type = inverse_mutation_type (mutation_type proposal),
      target_node_id = target_node_id proposal,
      target_edge_id = target_edge_id proposal,
      payload = payload proposal,
      reason = ''compensate '' @ proposal_id proposal,
      proposal_requires_approval = False,
      proposal_status = ''pending''\<rparr>"

section \<open>Well-formed states\<close>

definition dag_wf :: "dag_state \<Rightarrow> bool" where
  "dag_wf s \<longleftrightarrow>
     distinct (node_ids (nodes s)) \<and> distinct (map edge_id (edges s)) \<and>
     valid_graph (node_ids (nodes s)) (map edge_arc (edges s))"

lemma has_cycle_cyclic: "has_cycle ns es \<longleftrightarrow> cyclic (node_ids ns) (map edge_arc es)"
  by (simp add: has_cycle_def has_cycle_arcs_iff)

lemma find_node_None_iff [simp]: "find_node ns i = None \<longleftrightarrow> i \<notin> set (node_ids ns)"
  by (auto simp: find_node_def find_None_iff)

lemma find_edge_None_iff [simp]: "find_edge es i = None \<longleftrightarrow> i \<notin> set (map edge_id es)"
  by (auto simp: find_edge_def find_None_iff)

lemma find_node_SomeD: "find_node ns i = Some n \<Longrightarrow> n \<in> set ns \<and> node_id n = i"
  by (auto simp: find_node_def find_Some_iff)

lemma find_edge_SomeD: "find_edge es i = Some e \<Longrightarrow> e \<in> set es \<and> edge_id e = i"
  by (auto simp: find_edge_def find_Some_iff)

lemma dag_wfI:
  assumes "distinct (node_ids (nodes s))" "distinct (map edge_id (edges s))"
    "dangling_free (node_ids (nodes s)) (map edge_arc (edges s))"
    "\<not> cyclic (node_ids (nodes s)) (map edge_arc (edges s))"
  shows "dag_wf s"
  using assms by (simp add: dag_wf_def valid_graph_def)

lemma dag_wfD:
  assumes "dag_wf s"
  shows "distinct (node_ids (nodes s))" "distinct (map edge_id (edges s))"
    "dangling_free (node_ids (nodes s)) (map edge_arc (edges s))"
    "\<not> cyclic (node_ids (nodes s)) (map edge_arc (edges s))"
  using assms by (simp_all add: dag_wf_def valid_graph_def)

lemma payload_record_ids [simp]:
  "node_id (payload_node i p) = i" "edge_id (payload_edge i f t p) = i"
  "from_node (payload_edge i f t p) = f" "to_node (payload_edge i f t p) = t"
  "edge_id (rewired_edge e p) = edge_id e" "node_id (updated_node n p) = node_id n"
  by (simp_all add: payload_node_def payload_edge_def rewired_edge_def updated_node_def)

lemma dangling_free_mono:
  "dangling_free vs es \<Longrightarrow> set vs \<subseteq> set vs' \<Longrightarrow> set es' \<subseteq> set es \<Longrightarrow> dangling_free vs' es'"
  by (fastforce simp: dangling_free_def)

lemma dangling_free_snoc:
  "dangling_free vs es \<Longrightarrow> u \<in> set vs \<Longrightarrow> v \<in> set vs \<Longrightarrow> dangling_free vs (es @ [(u, v)])"
  by (auto simp: dangling_free_def)

lemma not_cyclic_sub:
  assumes "\<not> cyclic vs es" "dangling_free vs es" "set es' \<subseteq> set es"
  shows "\<not> cyclic vs' es'"
proof -
  have "graph_rel vs' es' \<subseteq> graph_rel vs es"
    using assms(2,3) by (fastforce simp: graph_rel_def dangling_free_def)
  then show ?thesis using cyclic_mono assms(1) by blast
qed

text \<open>What a successful mutation did, one rule per operation.\<close>

lemma apply_add_node_OkE:
  assumes "apply_add_node s p = Ok s'"
  obtains i where "get_str (payload p) ''node_id'' = Some i" "i \<notin> set (node_ids (nodes s))"
    "s' = s\<lparr>version := version s + 1, nodes := nodes s @ [payload_node i (payload p)],
       updated_at := proposal_id p\<rparr>"
  using assms
  by (auto simp: apply_add_node_def Let_def split: option.splits if_splits)

lemma apply_remove_node_OkE:
  assumes "apply_remove_node s p = Ok s'"
  obtains i where "target_node_id p = Some i" "i \<in> set (node_ids (nodes s))"
    "\<forall>e \<in> set (edges s). from_node e \<noteq> i \<and> to_node e \<noteq> i"
    "s' = s\<lparr>version := version s + 1, nodes := filter (\<lambda>n. node_id n \<noteq> i) (nodes s),
       updated_at := proposal_id p\<rparr>"
  using assms
  by (auto simp: apply_remove_node_def Let_def filter_empty_conv split: option.splits if_splits)

lemma apply_add_edge_OkE:
  assumes "apply_add_edge s p = Ok s'"
  obtains i f t where "get_str (payload p) ''edge_id'' = Some i"
    "f \<in> set (node_ids (nodes s))" "t \<in> set (node_ids (nodes s))"
    "i \<notin> set (map edge_id (edges s))"
    "\<not> has_cycle (nodes s) (edges s @ [payload_edge i f t (payload p)])"
    "s' = s\<lparr>version := version s + 1, edges := edges s @ [payload_edge i f t (payload p)],
       updated_at := proposal_id p\<rparr>"
  using assms
  by (auto simp: apply_add_edge_def Let_def simp del: set_map split: option.splits if_splits)

lemma apply_remove_edge_OkE:
  assumes "apply_remove_edge s p = Ok s'"
  obtains i where "target_edge_id p = Some i" "i \<in> set (map edge_id (edges s))"
    "s' = s\<lparr>version := version s + 1, edges := filter (\<lambda>e. edge_id e \<noteq> i) (edges s),
       updated_at := proposal_id p\<rparr>"
  using assms
  by (auto simp: apply_remove_edge_def simp del: set_map split: option.splits if_splits)

lemma apply_rewire_edge_OkE:
  assumes "apply_rewire_edge s p = Ok s'"
  obtains e e' where "target_edge_id p = Some (edge_id e)" "e \<in> set (edges s)"
    "e' = rewired_edge e (payload p)"
    "from_node e' \<in> set (node_ids (nodes s))" "to_node e' \<in> set (node_ids (nodes s))"
    "\<not> has_cycle (nodes s) (filter (\<lambda>x. edge_id x \<noteq> edge_id e) (edges s) @ [e'])"
    "s' = s\<lparr>version := version s + 1,
       edges := filter (\<lambda>x. edge_id x \<noteq> edge_id e) (edges s) @ [e'], updated_at := proposal_id p\<rparr>"
  using assms
  by (auto simp: apply_rewire_edge_def Let_def simp del: set_map dest!: find_edge_SomeD
      split: option.splits if_splits)

lemma apply_update_node_OkE:
  assumes "apply_update_node s p = Ok s'"
  obtains n where "target_node_id p = Some (node_id n)" "n \<in> set (nodes s)"
    "s' = s\<lparr>version := version s + 1,
       nodes := map (\<lambda>x. if node_id x = node_id n then updated_node n (payload p) else x) (nodes s),
       updated_at := proposal_id p\<rparr>"
  using assms
  by (auto simp: apply_update_node_def Let_def simp del: set_map dest!: find_node_SomeD
      split: option.splits if_splits)

section \<open>The contract of a mutation\<close>

text \<open>
  Every mutation keeps a state well-formed, raises the version by one and keeps the identity of
  the DAG. The manager's step is proved once from this contract.
\<close>

locale dag_mutation_op =
  fixes f :: "dag_state \<Rightarrow> dag_mutation_proposal \<Rightarrow> (string, dag_state) result"
  assumes wf: "f s p = Ok s' \<Longrightarrow> dag_wf s \<Longrightarrow> dag_wf s'"
    and version: "f s p = Ok s' \<Longrightarrow> version s' = version s + 1"
    and frame: "f s p = Ok s' \<Longrightarrow> dag_id s' = dag_id s \<and> created_at s' = created_at s"
    and stamp: "f s p = Ok s' \<Longrightarrow> updated_at s' = proposal_id p"

lemma add_node_wf: "apply_add_node s p = Ok s' \<Longrightarrow> dag_wf s \<Longrightarrow> dag_wf s'"
proof (erule apply_add_node_OkE)
  fix i
  assume wf: "dag_wf s" and fresh: "i \<notin> set (node_ids (nodes s))"
    and s': "s' = s\<lparr>version := version s + 1, nodes := nodes s @ [payload_node i (payload p)],
       updated_at := proposal_id p\<rparr>"
  have "dangling_free (node_ids (nodes s')) (map edge_arc (edges s'))"
    using dag_wfD(3) [OF wf] by (rule dangling_free_mono) (auto simp: s')
  moreover have "\<not> cyclic (node_ids (nodes s')) (map edge_arc (edges s'))"
    by (rule not_cyclic_sub [OF dag_wfD(4,3) [OF wf]]) (simp add: s')
  ultimately show "dag_wf s'"
    using dag_wfD(1,2) [OF wf] fresh by (intro dag_wfI) (simp_all add: s')
qed

lemma remove_node_wf: "apply_remove_node s p = Ok s' \<Longrightarrow> dag_wf s \<Longrightarrow> dag_wf s'"
proof (erule apply_remove_node_OkE)
  fix i
  assume wf: "dag_wf s" and free: "\<forall>e \<in> set (edges s). from_node e \<noteq> i \<and> to_node e \<noteq> i"
    and s': "s' = s\<lparr>version := version s + 1, nodes := filter (\<lambda>n. node_id n \<noteq> i) (nodes s),
       updated_at := proposal_id p\<rparr>"
  show "dag_wf s'"
  proof (rule dag_wfI)
    show "dangling_free (node_ids (nodes s')) (map edge_arc (edges s'))"
      using dag_wfD(3) [OF wf] free by (auto simp: s' dangling_free_def)
    show "\<not> cyclic (node_ids (nodes s')) (map edge_arc (edges s'))"
      by (rule not_cyclic_sub [OF dag_wfD(4,3) [OF wf]]) (simp add: s')
  qed (use dag_wfD(1,2) [OF wf] in \<open>auto simp: s' distinct_map_filter\<close>)
qed

lemma add_edge_wf: "apply_add_edge s p = Ok s' \<Longrightarrow> dag_wf s \<Longrightarrow> dag_wf s'"
  by (erule apply_add_edge_OkE, rule dag_wfI)
    (auto simp: has_cycle_cyclic dest: dag_wfD intro: dangling_free_snoc)

lemma remove_edge_wf: "apply_remove_edge s p = Ok s' \<Longrightarrow> dag_wf s \<Longrightarrow> dag_wf s'"
proof (erule apply_remove_edge_OkE)
  fix i
  assume wf: "dag_wf s"
    and s': "s' = s\<lparr>version := version s + 1, edges := filter (\<lambda>e. edge_id e \<noteq> i) (edges s),
       updated_at := proposal_id p\<rparr>"
  have sub: "set (map edge_arc (edges s')) \<subseteq> set (map edge_arc (edges s))" by (auto simp: s')
  show "dag_wf s'"
    by (rule dag_wfI)
      (use dag_wfD [OF wf] dangling_free_mono [OF dag_wfD(3) [OF wf] _ sub]
        not_cyclic_sub [OF dag_wfD(4,3) [OF wf] sub] in \<open>auto simp: s' distinct_map_filter\<close>)
qed

lemma rewire_edge_wf: "apply_rewire_edge s p = Ok s' \<Longrightarrow> dag_wf s \<Longrightarrow> dag_wf s'"
proof (erule apply_rewire_edge_OkE)
  fix e e'
  assume wf: "dag_wf s" and e': "e' = rewired_edge e (payload p)"
    and ends: "from_node e' \<in> set (node_ids (nodes s))" "to_node e' \<in> set (node_ids (nodes s))"
    and acyc: "\<not> has_cycle (nodes s) (filter (\<lambda>x. edge_id x \<noteq> edge_id e) (edges s) @ [e'])"
    and s': "s' = s\<lparr>version := version s + 1,
       edges := filter (\<lambda>x. edge_id x \<noteq> edge_id e) (edges s) @ [e'], updated_at := proposal_id p\<rparr>"
  let ?old = "filter (\<lambda>x. edge_id x \<noteq> edge_id e) (edges s)"
  have "dangling_free (node_ids (nodes s)) (map edge_arc ?old)"
    using dag_wfD(3) [OF wf] by (rule dangling_free_mono) auto
  from dangling_free_snoc [OF this ends] show "dag_wf s'"
    using dag_wfD(1,2) [OF wf] acyc
    by (intro dag_wfI) (auto simp: s' e' has_cycle_cyclic distinct_map_filter)
qed

lemma update_node_wf: "apply_update_node s p = Ok s' \<Longrightarrow> dag_wf s \<Longrightarrow> dag_wf s'"
proof (erule apply_update_node_OkE)
  fix n
  assume wf: "dag_wf s"
    and s': "s' = s\<lparr>version := version s + 1,
       nodes := map (\<lambda>x. if node_id x = node_id n then updated_node n (payload p) else x) (nodes s),
       updated_at := proposal_id p\<rparr>"
  have "node_ids (nodes s') = node_ids (nodes s)" by (auto simp: s')
  then show "dag_wf s'" using wf by (simp add: dag_wf_def s' del: map_map)
qed

interpretation add_node: dag_mutation_op apply_add_node
  by unfold_locales (erule (1) add_node_wf | (erule apply_add_node_OkE, simp))+

interpretation remove_node: dag_mutation_op apply_remove_node
  by unfold_locales (erule (1) remove_node_wf | (erule apply_remove_node_OkE, simp))+

interpretation add_edge: dag_mutation_op apply_add_edge
  by unfold_locales (erule (1) add_edge_wf | (erule apply_add_edge_OkE, simp))+

interpretation remove_edge: dag_mutation_op apply_remove_edge
  by unfold_locales (erule (1) remove_edge_wf | (erule apply_remove_edge_OkE, simp))+

interpretation rewire_edge: dag_mutation_op apply_rewire_edge
  by unfold_locales (erule (1) rewire_edge_wf | (erule apply_rewire_edge_OkE, simp))+

interpretation update_node: dag_mutation_op apply_update_node
  by unfold_locales (erule (1) update_node_wf | (erule apply_update_node_OkE, simp))+

lemmas mutation_ops =
  add_node.dag_mutation_op_axioms remove_node.dag_mutation_op_axioms
  add_edge.dag_mutation_op_axioms remove_edge.dag_mutation_op_axioms
  rewire_edge.dag_mutation_op_axioms update_node.dag_mutation_op_axioms

lemma apply_fn_op: "apply_fn ty = Some f \<Longrightarrow> dag_mutation_op f"
  by (auto simp: apply_fn_def mutation_ops split: if_splits)

section \<open>Reachable managers\<close>

text \<open>What a caller can do to a manager: apply a proposal or roll back.\<close>

inductive dag_reachable :: "string \<Rightarrow> string \<Rightarrow> dag_manager \<Rightarrow> bool" for i ts where
  new: "dag_reachable i ts (dag_manager_new i ts)"
| mutate: "dag_reachable i ts m \<Longrightarrow> dag_reachable i ts (snd (apply_mutation m p))"
| undo: "dag_reachable i ts m \<Longrightarrow> dag_reachable i ts (rollback m v)"

text \<open>Managers built by applied mutations only; a rollback never leaves this set.\<close>

inductive dag_log :: "string \<Rightarrow> string \<Rightarrow> dag_manager \<Rightarrow> bool" for i ts where
  log_new: "dag_log i ts (dag_manager_new i ts)"
| log_step: "dag_log i ts m \<Longrightarrow> applied (fst (apply_mutation m p)) \<Longrightarrow>
    dag_log i ts (snd (apply_mutation m p))"

lemma apply_mutation_cases:
  obtains (rejected) e where "apply_mutation m p = (reject m p e, m)"
  | (accepted) f s' where "proposal_dag_id p = manager_dag_id m" "apply_fn (mutation_type p) = Some f"
      "\<not> requires_approval p (state m)" "f (state m) p = Ok s'"
      "apply_mutation m p = (\<lparr>result_proposal_id = proposal_id p, applied = True,
         new_dag_version = version s', rolled_back = False, errors = []\<rparr>,
         m\<lparr>state := s', history := (state m, p) # history m\<rparr>)"
proof (cases "proposal_dag_id p = manager_dag_id m")
  case True
  then show ?thesis
    by (cases "apply_fn (mutation_type p)"; cases "requires_approval p (state m)";
        cases "the (apply_fn (mutation_type p)) (state m) p")
      (auto simp: apply_mutation_def intro: that)
qed (auto simp: apply_mutation_def intro: that)

lemma reject_sel [simp]:
  "\<not> applied (reject m p e)" "errors (reject m p e) = [e]"
  "new_dag_version (reject m p e) = version (state m)" "\<not> rolled_back (reject m p e)"
  by (simp_all add: reject_def)

lemma dag_log_step':
  "dag_log i ts m \<Longrightarrow> dag_log i ts (snd (apply_mutation m p))"
  by (cases rule: apply_mutation_cases [where m = m and p = p]) (auto dest: log_step [of i ts m p])

lemma rollback_pop:
  assumes "apply_mutation m p = (r, m')" "applied r"
  shows "rollback m' v = (if version (state m') > v then rollback m v else m')"
  using assms by (cases rule: apply_mutation_cases [where m = m and p = p]) (auto simp: rollback_def)

lemma dag_log_rollback: "dag_log i ts m \<Longrightarrow> dag_log i ts (rollback m v)"
proof (induction rule: dag_log.induct)
  case log_new
  then show ?case by (simp add: rollback_def dag_manager_new_def dag_log.log_new [unfolded dag_manager_new_def])
next
  case (log_step m p)
  then show ?case
    using rollback_pop [of m p "fst (apply_mutation m p)" "snd (apply_mutation m p)" v]
    by (auto intro: dag_log.log_step)
qed

lemma dag_reachable_log: "dag_reachable i ts m \<Longrightarrow> dag_log i ts m"
  by (induction rule: dag_reachable.induct) (auto intro: log_new dag_log_step' dag_log_rollback)

lemma dag_log_wf:
  "dag_log i ts m \<Longrightarrow> dag_wf (state m) \<and> dag_id (state m) = i \<and> manager_dag_id m = i \<and>
     created_at (state m) = ts \<and> version (state m) = int (length (history m))"
proof (induction rule: dag_log.induct)
  case log_new
  show ?case
    by (simp add: dag_manager_new_def dag_wf_def valid_graph_def dangling_free_def cyclic_def
        graph_rel_def)
next
  case (log_step m p)
  show ?case
  proof (cases rule: apply_mutation_cases [where m = m and p = p])
    case (accepted f s')
    note op = apply_fn_op [OF accepted(2)]
    show ?thesis
      using log_step.IH accepted(5) dag_mutation_op.wf [OF op accepted(4)]
        dag_mutation_op.version [OF op accepted(4)] dag_mutation_op.frame [OF op accepted(4)]
      by simp
  qed (use log_step in auto)
qed

lemma validate_dag_iff:
  "validate_dag m = [] \<longleftrightarrow>
     valid_graph (node_ids (nodes (state m))) (map edge_arc (edges (state m)))"
  by (auto simp: validate_dag_def edge_errors_def valid_graph_def dangling_free_def has_cycle_cyclic)

end
