(* ===== verification/Dag_Path.thy ===== *)
theory Dag_Path
  imports Dag_Manager
begin

text \<open>
  \<^verbatim>\<open>DAGManager::path_between\<close> (src/engine/src/workflow/dag\_manager/mod.rs): the recursive
  search with its shared set of visited nodes and its shared path. The recursion depth is bounded
  by fuel, with \<^const>\<open>None\<close> for fuel that has run out; a node enters the recursion once, so one
  unit per declared node and one more are enough, and \<open>path_between\<close> never runs out.
\<close>

fun dfs :: "nat \<Rightarrow> string \<Rightarrow> string \<Rightarrow> adjacency \<Rightarrow> string set \<Rightarrow> string list \<Rightarrow>
      (bool \<times> string set \<times> string list) option"
  and dfs_neighbors :: "nat \<Rightarrow> string list \<Rightarrow> string \<Rightarrow> string \<Rightarrow> adjacency \<Rightarrow> string set \<Rightarrow> string list \<Rightarrow>
      (bool \<times> string set \<times> string list) option" where
  "dfs 0 current goal adj visited path = None"
| "dfs (Suc fuel) current goal adj visited path =
     (if current = goal then Some (True, visited, path @ [current])
      else case hm_get adj current of
        None \<Rightarrow> Some (False, insert current visited, path)
      | Some neighbors \<Rightarrow>
          dfs_neighbors fuel (sort neighbors) current goal adj (insert current visited) path)"
| "dfs_neighbors fuel [] current goal adj visited path = Some (False, visited, path)"
| "dfs_neighbors fuel (neighbor # rest) current goal adj visited path =
     (if neighbor \<in> visited then dfs_neighbors fuel rest current goal adj visited path
      else case dfs fuel neighbor goal adj visited (path @ [current]) of
        None \<Rightarrow> None
      | Some (found, visited', path') \<Rightarrow>
          if found then Some (True, visited', path')
          else dfs_neighbors fuel rest current goal adj visited' (butlast path'))"

text \<open>The outer option is the fuel, the inner one the result of the source.\<close>

definition path_between :: "dag_manager \<Rightarrow> string \<Rightarrow> string \<Rightarrow> string list option option" where
  "path_between m u v =
     (let ids = node_ids (nodes (state m));
          adj = build_adj ids (map edge_arc (edges (state m)))
      in map_option (\<lambda>(found, visited, path). if found then Some path else None)
           (dfs (length ids + 1) u v adj {} []))"

section \<open>The search returns\<close>

definition unvisited_keys :: "adjacency \<Rightarrow> string set \<Rightarrow> nat" where
  "unvisited_keys adj visited = card (fst ` set adj - visited)"

lemma unvisited_keys_mono: "visited \<subseteq> visited' \<Longrightarrow> unvisited_keys adj visited' \<le> unvisited_keys adj visited"
  by (auto simp: unvisited_keys_def intro!: card_mono)

lemma unvisited_keys_insert:
  assumes "hm_get adj u = Some ns" "u \<notin> visited"
  shows "Suc (unvisited_keys adj (insert u visited)) = unvisited_keys adj visited"
proof -
  have "u \<in> fst ` set adj - visited" using assms by (force dest: map_of_SomeD)
  moreover have "fst ` set adj - insert u visited = fst ` set adj - visited - {u}" by auto
  ultimately show ?thesis
    unfolding unvisited_keys_def by (metis List.finite_set card_Suc_Diff1 finite_Diff finite_imageI)
qed

lemma dfs_visited:
  "dfs fuel u goal adj visited path = Some (found, visited', path') \<Longrightarrow> visited \<subseteq> visited'"
  "dfs_neighbors fuel ns u goal adj visited path = Some (found, visited', path') \<Longrightarrow> visited \<subseteq> visited'"
  by (induction fuel u goal adj visited path and fuel ns u goal adj visited path
      arbitrary: found visited' path' and found visited' path' rule: dfs_dfs_neighbors.induct)
    (fastforce split: if_splits option.splits)+

lemma dfs_returns:
  "u \<notin> visited \<Longrightarrow> unvisited_keys adj visited < fuel \<Longrightarrow> dfs fuel u goal adj visited path \<noteq> None"
  "unvisited_keys adj visited < fuel \<Longrightarrow> dfs_neighbors fuel ns u goal adj visited path \<noteq> None"
proof (induction fuel u goal adj visited path and fuel ns u goal adj visited path
    rule: dfs_dfs_neighbors.induct)
  case (2 fuel current goal adj visited path)
  show ?case
  proof (cases "hm_get adj current")
    case (Some ns)
    then have "unvisited_keys adj (insert current visited) < fuel"
      using 2 unvisited_keys_insert [OF Some, of visited] by simp
    then show ?thesis using 2 Some by (cases "current = goal") simp_all
  qed auto
next
  case (4 fuel n rest current goal adj visited path)
  show ?case
  proof (cases "dfs fuel n goal adj visited (path @ [current])")
    case None
    then show ?thesis using 4 by auto
  next
    case (Some r)
    obtain found visited' path' where r: "r = (found, visited', path')" by (cases r)
    have "visited \<subseteq> visited'" using dfs_visited(1) Some r by blast
    then have "unvisited_keys adj visited' < fuel"
      using unvisited_keys_mono 4(4) le_less_trans by blast
    then show ?thesis using 4 Some r by auto
  qed
qed simp_all

lemma path_between_returns: "\<exists>r. path_between m u v = Some r"
proof -
  let ?ids = "node_ids (nodes (state m))"
  let ?adj = "build_adj ?ids (map edge_arc (edges (state m)))"
  have "fst ` set ?adj \<subseteq> set ?ids"
  proof
    fix k assume "k \<in> fst ` set ?adj"
    then have "hm_get ?adj k \<noteq> None" by (simp add: map_of_eq_None_iff)
    then show "k \<in> set ?ids" by (simp add: get_build_adj split: if_splits)
  qed
  then have "card (fst ` set ?adj) \<le> card (set ?ids)" by (intro card_mono) simp_all
  also have "\<dots> \<le> length ?ids" by (rule card_length)
  finally have "unvisited_keys ?adj {} \<le> length ?ids" by (simp add: unvisited_keys_def)
  then have "dfs (length ?ids + 1) u v ?adj {} [] \<noteq> None" by (intro dfs_returns(1)) auto
  then obtain r where "dfs (length ?ids + 1) u v ?adj {} [] = Some r" by blast
  then show ?thesis unfolding path_between_def Let_def by (simp only: option.map) blast
qed

section \<open>What it returns\<close>

definition succs :: "adjacency \<Rightarrow> arc set" where
  "succs adj = {(u, v). v \<in> set (neighbors_of adj u)}"

text \<open>A path: consecutive nodes are joined by arcs.\<close>

fun is_path :: "arc set \<Rightarrow> string list \<Rightarrow> bool" where
  "is_path r (u # v # p) = ((u, v) \<in> r \<and> is_path r (v # p))"
| "is_path r _ = True"

lemma is_path_rtrancl: "is_path r p \<Longrightarrow> p \<noteq> [] \<Longrightarrow> (hd p, last p) \<in> r\<^sup>*"
  by (induction r p rule: is_path.induct) (auto intro: converse_rtrancl_into_rtrancl)

definition good_path :: "arc set \<Rightarrow> string \<Rightarrow> string \<Rightarrow> string set \<Rightarrow> string list \<Rightarrow> bool" where
  "good_path r u v visited p \<longleftrightarrow>
     is_path r p \<and> p \<noteq> [] \<and> hd p = u \<and> last p = v \<and> distinct p \<and> set p \<inter> visited = {}"

lemma good_path_single: "u \<notin> visited \<Longrightarrow> good_path r u u visited [u]"
  by (simp add: good_path_def)

lemma good_path_Cons:
  assumes "good_path r w v visited' p" "(u, w) \<in> r" "u \<notin> visited" "insert u visited \<subseteq> visited'"
  shows "good_path r u v visited (u # p)"
  using assms by (cases p) (auto simp: good_path_def)

lemma neighbors_succs: "hm_get adj u = Some ns \<Longrightarrow> v \<in> set ns \<Longrightarrow> (u, v) \<in> succs adj"
  by (simp add: succs_def neighbors_of_def)

text \<open>Failure: the path is restored, and the nodes visited are closed under arcs and miss the goal.\<close>

definition closed_search :: "arc set \<Rightarrow> string \<Rightarrow> string set \<Rightarrow> string set \<Rightarrow> bool" where
  "closed_search r goal visited visited' \<longleftrightarrow>
     visited \<subseteq> visited' \<and> (\<forall>u \<in> visited' - visited. u \<noteq> goal \<and> r `` {u} \<subseteq> visited')"

lemma closed_search_trans:
  assumes "closed_search r goal A B" "closed_search r goal B C"
  shows "closed_search r goal A C"
proof -
  have "u \<noteq> goal \<and> r `` {u} \<subseteq> C" if "u \<in> C - A" for u
    using assms that by (cases "u \<in> B") (auto simp: closed_search_def)
  then show ?thesis using assms by (auto simp: closed_search_def)
qed

lemma dfs_not_found:
  "u \<notin> visited \<Longrightarrow> dfs fuel u goal adj visited path = Some (False, visited', path') \<Longrightarrow>
     path' = path \<and> u \<in> visited' \<and> closed_search (succs adj) goal visited visited'"
  "dfs_neighbors fuel ns u goal adj visited path = Some (False, visited', path') \<Longrightarrow>
     path' = path \<and> set ns \<subseteq> visited' \<and> closed_search (succs adj) goal visited visited'"
proof (induction fuel u goal adj visited path and fuel ns u goal adj visited path
    arbitrary: visited' path' and visited' path' rule: dfs_dfs_neighbors.induct)
  case (2 fuel current goal adj visited path)
  then have ne: "current \<noteq> goal" by auto
  show ?case
  proof (cases "hm_get adj current")
    case None
    then show ?thesis
      using 2 ne by (auto simp: closed_search_def succs_def neighbors_of_def)
  next
    case (Some ns)
    then have "dfs_neighbors fuel (sort ns) current goal adj (insert current visited) path =
        Some (False, visited', path')"
      using 2(3) ne by simp
    note IH = 2(1) [OF ne Some this]
    have "succs adj `` {current} \<subseteq> visited'"
      using IH Some by (auto simp: succs_def neighbors_of_def)
    then show ?thesis using IH ne by (auto simp: closed_search_def)
  qed
next
  case (4 fuel n rest current goal adj visited path)
  show ?case
  proof (cases "n \<in> visited")
    case True
    then show ?thesis using 4(1,4) by (auto simp: closed_search_def)
  next
    case False
    then obtain visited1 path1 where
      run: "dfs fuel n goal adj visited (path @ [current]) = Some (False, visited1, path1)"
      and rest: "dfs_neighbors fuel rest current goal adj visited1 (butlast path1) =
        Some (False, visited', path')"
      using 4(4) by (auto split: option.splits if_splits)
    note IH1 = 4(2) [OF False False run]
    note IH2 = 4(3) [OF False run refl refl _ rest, simplified]
    have "n \<in> visited'" using IH1 IH2 by (auto simp: closed_search_def)
    then show ?thesis using IH1 IH2 by (simp add: closed_search_trans [of _ _ visited visited1])
  qed
qed (simp_all add: closed_search_def)

text \<open>Success: the path so far is extended by a simple path to the goal through new nodes.\<close>

lemma dfs_found:
  "u \<notin> visited \<Longrightarrow> dfs fuel u goal adj visited path = Some (True, visited', path') \<Longrightarrow>
     \<exists>p. path' = path @ p \<and> good_path (succs adj) u goal visited p"
  "u \<in> visited \<Longrightarrow> \<forall>n \<in> set ns. (u, n) \<in> succs adj \<Longrightarrow>
     dfs_neighbors fuel ns u goal adj visited path = Some (True, visited', path') \<Longrightarrow>
     \<exists>p. path' = path @ u # p \<and> (\<exists>n. (u, n) \<in> succs adj \<and> good_path (succs adj) n goal visited p)"
proof (induction fuel u goal adj visited path and fuel ns u goal adj visited path
    arbitrary: visited' path' and visited' path' rule: dfs_dfs_neighbors.induct)
  case (2 fuel current goal adj visited path)
  show ?case
  proof (cases "current = goal")
    case True
    then show ?thesis using 2 good_path_single by auto
  next
    case False
    then obtain ns where ns: "hm_get adj current = Some ns"
      and run: "dfs_neighbors fuel (sort ns) current goal adj (insert current visited) path =
        Some (True, visited', path')"
      using 2(3) by (auto split: option.splits)
    from 2(1) [OF False ns _ _ run] ns
    obtain p n where p: "path' = path @ current # p" "(current, n) \<in> succs adj"
      "good_path (succs adj) n goal (insert current visited) p"
      by (auto simp: neighbors_succs)
    from good_path_Cons [OF p(3,2) 2(2)] p(1) show ?thesis by blast
  qed
next
  case (4 fuel n rest current goal adj visited path)
  show ?case
  proof (cases "n \<in> visited")
    case False
    then obtain found visited1 path1 where
      run: "dfs fuel n goal adj visited (path @ [current]) = Some (found, visited1, path1)"
      using 4(6) by (auto split: option.splits)
    show ?thesis
    proof (cases found)
      case True
      with 4(6) False run have "path' = path1" by simp
      with 4(2) [OF False False] run True 4(5) show ?thesis by fastforce
    next
      case not_found: False
      with run have path1: "path1 = path @ [current]" "visited \<subseteq> visited1"
        using dfs_not_found(1) [OF False] dfs_visited(1) by auto
      have rest: "dfs_neighbors fuel rest current goal adj visited1 path = Some (True, visited', path')"
        using 4(6) False run not_found path1 by simp
      have "\<exists>p. path' = butlast path1 @ current # p \<and>
          (\<exists>n. (current, n) \<in> succs adj \<and> good_path (succs adj) n goal visited1 p)"
        by (rule 4(3) [OF False run refl refl]) (use not_found 4(4,5) path1 rest in auto)
      then show ?thesis using path1 by (fastforce simp: good_path_def)
    qed
  qed (use 4 in simp)
qed simp_all

lemma path_between_cases:
  fixes m u v
  defines "r \<equiv> {(a, b) \<in> set (map edge_arc (edges (state m))). a \<in> set (node_ids (nodes (state m)))}"
  obtains (path) p where "path_between m u v = Some (Some p)" "good_path r u v {} p"
  | (no_path) "path_between m u v = Some None" "(u, v) \<notin> r\<^sup>*"
proof -
  let ?ids = "node_ids (nodes (state m))"
  let ?adj = "build_adj ?ids (map edge_arc (edges (state m)))"
  have r: "succs ?adj = r"
    unfolding r_def succs_def neighbors_build_adj by force
  obtain found visited' path' where
    run: "dfs (length ?ids + 1) u v ?adj {} [] = Some (found, visited', path')"
    using path_between_returns [of m u v] unfolding path_between_def Let_def by fastforce
  then have res: "path_between m u v = Some (if found then Some path' else None)"
    unfolding path_between_def Let_def by (simp only: option.map prod.case)
  show ?thesis
  proof (cases found)
    case True
    with dfs_found(1) [OF _ run [unfolded eqTrueI [OF True]]] show ?thesis using path res by (auto simp: r)
  next
    case False
    with dfs_not_found(1) [OF _ run [unfolded Eq_FalseI [OF False]]]
    have "u \<in> visited'" and closed: "closed_search r v {} visited'" by (simp_all add: r)
    have "w \<in> visited'" if "(u, w) \<in> r\<^sup>*" for w
      using that \<open>u \<in> visited'\<close> closed by induction (auto simp: closed_search_def)
    then show ?thesis using no_path res False closed by (auto simp: closed_search_def)
  qed
qed

end
