(* ===== verification/Dag_Theorems.thy ===== *)
theory Dag_Theorems
  imports Dag_Path
begin

text \<open>
  What the DAG manager guarantees: the trait \<^verbatim>\<open>GraphOperations\<close> for its queries, validity of
  every reachable manager, the exactness of the history and of rollback, paths, errors, and what
  compensation and approval do.
\<close>

section \<open>The trait\<close>

abbreviation dag_verts :: "dag_manager \<Rightarrow> string list" where
  "dag_verts m \<equiv> node_ids (nodes (state m))"

abbreviation dag_arcs :: "dag_manager \<Rightarrow> arc list" where
  "dag_arcs m \<equiv> map edge_arc (edges (state m))"

definition dag_preds :: "dag_manager \<Rightarrow> string \<Rightarrow> string set" where
  "dag_preds m n = {u. (u, n) \<in> set (dag_arcs m)}"

definition dag_candidates :: "dag_manager \<Rightarrow> string set \<Rightarrow> string set" where
  "dag_candidates m C = node_id ` {n \<in> set (nodes (state m)). node_id n \<notin> C \<and> node_status n = ''pending''}"

text \<open>The edges a search can follow: those that leave a declared node.\<close>

definition dag_rel :: "dag_manager \<Rightarrow> arc set" where
  "dag_rel m = {(a, b) \<in> set (dag_arcs m). a \<in> set (dag_verts m)}"

lemma dag_preds_subset_iff:
  "dag_preds m n \<subseteq> C \<longleftrightarrow> (\<forall>e \<in> set (edges (state m)). to_node e = n \<longrightarrow> from_node e \<in> C)"
  by (force simp: dag_preds_def)

lemma nodes_ready_set:
  "set (nodes_ready m C) = {n \<in> set (nodes (state m)). node_id n \<notin> C \<and> node_status n = ''pending'' \<and>
     dag_preds m (node_id n) \<subseteq> C}"
  by (auto simp: nodes_ready_def dag_preds_subset_iff)

interpretation dag_ops: graph_operations dag_verts dag_arcs dag_preds dag_candidates
  dag_validate topological_order dag_ready_nodes
proof unfold_locales
  show "set (dag_ready_nodes m C) = {n \<in> dag_candidates m C. dag_preds m n \<subseteq> C}" for m C
    by (auto simp: dag_ready_nodes_def nodes_ready_set dag_candidates_def)
  show "sorted (dag_ready_nodes m C)" for m C
    by (simp add: dag_ready_nodes_def nodes_ready_def)
qed (auto simp: dag_validate_def validate_dag_iff topological_order_def dag_preds_def
    dag_candidates_def intro: topological_order_arcs_topological)

section \<open>Running a sequence of proposals\<close>

definition apply_all :: "dag_manager \<Rightarrow> dag_mutation_proposal list \<Rightarrow> dag_manager" where
  "apply_all m ps = foldl (\<lambda>m p. snd (apply_mutation m p)) m ps"

lemma apply_all_simps [simp]:
  "apply_all m [] = m"
  "apply_all m (ps @ [p]) = snd (apply_mutation (apply_all m ps) p)"
  by (simp_all add: apply_all_def)

lemma apply_mutation_version:
  "version (state (snd (apply_mutation m p))) =
     version (state m) + (if applied (fst (apply_mutation m p)) then 1 else 0)"
proof (cases rule: apply_mutation_cases [where m = m and p = p])
  case (accepted f s')
  then show ?thesis
    using dag_mutation_op.version [OF apply_fn_op [OF accepted(2)] accepted(4)] by simp
qed simp

lemma apply_all_version_mono: "version (state m) \<le> version (state (apply_all m ps))"
  by (induction ps rule: rev_induct) (auto simp: apply_mutation_version)

lemma rejected_unchanged: "\<not> applied (fst (apply_mutation m p)) \<Longrightarrow> snd (apply_mutation m p) = m"
  by (cases rule: apply_mutation_cases [where m = m and p = p]) auto

lemma rollback_apply_all:
  assumes "rollback m (version (state m)) = m"
  shows "rollback (apply_all m ps) (version (state m)) = m"
proof (induction ps rule: rev_induct)
  case Nil
  then show ?case using assms by simp
next
  case (snoc p ps)
  let ?m = "apply_all m ps"
  show ?case
  proof (cases "applied (fst (apply_mutation ?m p))")
    case True
    then have "version (state m) < version (state (snd (apply_mutation ?m p)))"
      using apply_all_version_mono [of m ps] by (simp add: apply_mutation_version)
    then show ?thesis
      using rollback_pop [of ?m p "fst (apply_mutation ?m p)" "snd (apply_mutation ?m p)"] True snoc
      by simp
  qed (use snoc rejected_unchanged in simp)
qed

lemma rollback_loop_stay: "rollback_loop (version s) s h = (s, h)"
  by (cases h) auto

lemma rollback_same [simp]: "rollback m (version (state m)) = m"
  by (simp add: rollback_def rollback_loop_stay)

lemma dag_log_replay: "dag_log i ts m \<Longrightarrow> apply_all (dag_manager_new i ts) (rev (map snd (history m))) = m"
proof (induction rule: dag_log.induct)
  case log_new
  then show ?case by (simp add: dag_manager_new_def)
next
  case (log_step m p)
  then have "history (snd (apply_mutation m p)) = (state m, p) # history m"
    by (cases rule: apply_mutation_cases [where m = m and p = p]) auto
  then show ?case using log_step.IH by simp
qed

section \<open>Example\<close>

text \<open>Two nodes and an edge between them; the evaluated instance of the theorems below.\<close>

definition demo_node :: "string \<Rightarrow> dag_mutation_proposal" where
  "demo_node i = default_proposal\<lparr>proposal_id := ''p'' @ i, proposal_dag_id := ''d'',
     mutation_type := ''add_node'', payload := [(''node_id'', JString i)]\<rparr>"

definition demo_edge :: "string \<Rightarrow> string \<Rightarrow> string \<Rightarrow> dag_mutation_proposal" where
  "demo_edge i f t = default_proposal\<lparr>proposal_id := ''p'' @ i, proposal_dag_id := ''d'',
     mutation_type := ''add_edge'', target_edge_id := Some i,
     payload := [(''edge_id'', JString i), (''from_node'', JString f), (''to_node'', JString t)]\<rparr>"

definition demo_dag :: dag_manager where
  "demo_dag = apply_all (dag_manager_new ''d'' ''t'')
     [demo_node ''a'', demo_node ''b'', demo_edge ''e'' ''b'' ''a'']"

lemma apply_all_reachable: "dag_reachable i ts m \<Longrightarrow> dag_reachable i ts (apply_all m ps)"
  by (induction ps rule: rev_induct) (auto intro: dag_reachable.mutate)

lemma demo_dag_reachable: "dag_reachable ''d'' ''t'' demo_dag"
  unfolding demo_dag_def by (rule apply_all_reachable) (rule dag_reachable.new)

lemma demo_dag_contents:
  "dag_verts demo_dag = [''a'', ''b''] \<and> dag_arcs demo_dag = [(''b'', ''a'')] \<and> version (state demo_dag) = 3"
  by code_simp

section \<open>Theorems\<close>

text \<open>C9. The cycle test of helpers.rs is exact: it answers true if and only if the declared
  nodes and the edges between them contain a cycle, whatever the order, the duplicates and the
  dangling ends of its input.\<close>

theorem has_cycle_correct:
  "has_cycle ns es \<longleftrightarrow> cyclic (node_ids ns) (map edge_arc es)"
  by (simp add: has_cycle_def has_cycle_arcs_iff)

text \<open>C5. Whatever sequence of proposals and rollbacks a caller runs, the DAG stays well-formed:
  unique node and edge ids, no dangling edge and no cycle, so \<^verbatim>\<open>validate_dag\<close> reports nothing;
  the version counts the entries of the history.\<close>

theorem reachable_valid:
  assumes "dag_reachable i ts m"
  shows "distinct (dag_verts m) \<and> distinct (map edge_id (edges (state m))) \<and>
    dangling_free (dag_verts m) (dag_arcs m) \<and> \<not> cyclic (dag_verts m) (dag_arcs m) \<and>
    validate_dag m = [] \<and> version (state m) = int (length (history m))"
  using dag_log_wf [OF dag_reachable_log [OF assms]]
  by (simp_all add: validate_dag_iff dag_wf_def valid_graph_def)

theorem reachable_valid_witness:
  "dag_reachable ''d'' ''t'' demo_dag \<and> edges (state demo_dag) \<noteq> [] \<and> validate_dag demo_dag = [] \<and>
   version (state demo_dag) = int (length (history demo_dag))"
  using reachable_valid [OF demo_dag_reachable] demo_dag_reachable demo_dag_contents by auto

text \<open>C16. The history is an exact log: replaying its proposals, oldest first, on a new manager
  rebuilds the manager, state and history alike. A rollback is therefore never more than a
  shorter log.\<close>

theorem history_replays:
  assumes "dag_reachable i ts m"
  shows "apply_all (dag_manager_new i ts) (rev (map snd (history m))) = m"
  by (rule dag_log_replay) (rule dag_reachable_log [OF assms])

theorem history_replays_witness:
  "apply_all (dag_manager_new ''d'' ''t'') (rev (map snd (history demo_dag))) = demo_dag"
  by (rule history_replays) (rule demo_dag_reachable)

text \<open>C19. Rolling back to the version a manager had undoes every mutation applied since, however
  many were accepted or rejected: state and history are exactly the earlier ones.\<close>

theorem rollback_undoes:
  "rollback (apply_all m ps) (version (state m)) = m"
  by (rule rollback_apply_all) (rule rollback_same)

text \<open>C20. The order of a valid DAG is topological: every node once, every edge from an earlier to a
  later node. Without dangling edges the order lists every node exactly when there is no cycle, so
  a short result is a reliable sign of one.\<close>

theorem topological_order_correct:
  "(validate_dag m = [] \<longrightarrow> topological (dag_verts m) (dag_arcs m) (topological_order m)) \<and>
   (dangling_free (dag_verts m) (dag_arcs m) \<longrightarrow>
     (set (topological_order m) = set (dag_verts m) \<longleftrightarrow> \<not> cyclic (dag_verts m) (dag_arcs m)))"
  by (simp_all add: topological_order_def validate_dag_iff topological_order_arcs_topological
      topological_order_arcs_complete_iff del: set_map)

theorem topological_order_correct_witness:
  "validate_dag demo_dag = [] \<and> topological_order demo_dag = [''b'', ''a''] \<and>
   topological [''a'', ''b''] [(''b'', ''a'')] [''b'', ''a'']"
proof -
  have order: "topological_order demo_dag = [''b'', ''a'']" and valid: "validate_dag demo_dag = []"
    by code_simp+
  from topological_order_correct [of demo_dag] order demo_dag_contents valid show ?thesis by simp
qed

text \<open>C21. A scheduler that runs what \<^verbatim>\<open>nodes_ready\<close> offers cannot get stuck: in a reachable
  manager, while some node is not completed and every such node is still pending, at least one
  node is ready.\<close>

theorem ready_progress:
  assumes "dag_reachable i ts m"
    and "\<forall>n \<in> set (nodes (state m)). node_id n \<notin> C \<longrightarrow> node_status n = ''pending''"
    and "\<exists>n \<in> set (nodes (state m)). node_id n \<notin> C"
  shows "\<exists>n \<in> set (nodes_ready m C). node_id n \<notin> C \<and> dag_preds m (node_id n) \<subseteq> C"
proof -
  have "validate_dag m = []"
    using dag_log_wf [OF dag_reachable_log [OF assms(1)]] by (simp add: validate_dag_iff dag_wf_def)
  moreover have "set (dag_verts m) - C \<subseteq> dag_candidates m C" "set (dag_verts m) - C \<noteq> {}"
    using assms(2,3) by (auto simp: dag_candidates_def)
  ultimately show ?thesis
    using dag_ops.progress [of m C] by (auto simp: dag_validate_def dag_ready_nodes_def nodes_ready_set)
qed

theorem ready_progress_witness:
  "\<exists>n \<in> set (nodes_ready demo_dag {''b''}). node_id n \<notin> {''b''} \<and> dag_preds demo_dag (node_id n) \<subseteq> {''b''}"
proof (rule ready_progress [OF demo_dag_reachable])
  show "\<forall>n \<in> set (nodes (state demo_dag)). node_id n \<notin> {''b''} \<longrightarrow> node_status n = ''pending''"
    by code_simp
  show "\<exists>n \<in> set (nodes (state demo_dag)). node_id n \<notin> {''b''}" by code_simp
qed

text \<open>C22. The path search always returns, and it is sound and complete: it returns a simple path
  along edges of declared nodes from the start to the goal, or nothing, and nothing exactly when
  the goal cannot be reached.\<close>

theorem path_between_correct:
  "case path_between m u v of
     Some (Some p) \<Rightarrow> is_path (dag_rel m) p \<and> p \<noteq> [] \<and> hd p = u \<and> last p = v \<and> distinct p
   | Some None \<Rightarrow> (u, v) \<notin> (dag_rel m)\<^sup>*
   | None \<Rightarrow> False"
  by (cases rule: path_between_cases [of m u v])
    (simp_all add: dag_rel_def good_path_def)

text \<open>C23. A proposal is applied or refused as a whole. An applied one raises the version by one,
  logs the state it replaced, reports the new version and no error, and did not need approval; a
  refused one changes nothing, and reports the current version and exactly one error.\<close>

theorem apply_mutation_outcome:
  "let r = fst (apply_mutation m p); m' = snd (apply_mutation m p)
   in if applied r
      then errors r = [] \<and> version (state m') = version (state m) + 1 \<and>
           new_dag_version r = version (state m') \<and> history m' = (state m, p) # history m \<and>
           updated_at (state m') = proposal_id p \<and> \<not> requires_approval p (state m)
      else m' = m \<and> length (errors r) = 1 \<and> new_dag_version r = version (state m)"
proof (cases rule: apply_mutation_cases [where m = m and p = p])
  case (accepted f s')
  note op = apply_fn_op [OF accepted(2)]
  show ?thesis
    using accepted dag_mutation_op.version [OF op accepted(4)] dag_mutation_op.stamp [OF op accepted(4)]
    by simp
qed simp

text \<open>Compensating an added edge restores the DAG: when the proposal also names the edge as its
  target, the compensation is accepted and leaves the nodes and edges as they were, two versions
  later.\<close>

lemma compensate_add_edge_restores:
  assumes "applied (fst (apply_mutation m p))" "mutation_type p = ''add_edge''"
    and "target_edge_id p = get_str (payload p) ''edge_id''"
  shows "let m' = snd (apply_mutation m p); r = apply_mutation m' (compensate p)
    in applied (fst r) \<and> nodes (state (snd r)) = nodes (state m) \<and>
       edges (state (snd r)) = edges (state m) \<and> version (state (snd r)) = version (state m) + 2"
proof (cases rule: apply_mutation_cases [where m = m and p = p])
  case (accepted f s')
  with assms(2) have "apply_add_edge (state m) p = Ok s'" by (simp add: apply_fn_def)
  then obtain i f' t where i: "get_str (payload p) ''edge_id'' = Some i"
    "i \<notin> set (map edge_id (edges (state m)))"
    "s' = state m\<lparr>version := version (state m) + 1,
       edges := edges (state m) @ [payload_edge i f' t (payload p)], updated_at := proposal_id p\<rparr>"
    by (rule apply_add_edge_OkE)
  let ?m = "snd (apply_mutation m p)"
  have "filter (\<lambda>e. edge_id e \<noteq> i) (edges (state m)) = edges (state m)"
    using i(2) by (auto simp: filter_id_conv)
  then show ?thesis
    using accepted(1,5) assms(2,3) i
    by (simp add: apply_mutation_def compensate_def inverse_mutation_type_def apply_fn_def
        requires_approval_def apply_remove_edge_def)
qed (use assms in simp)

lemma compensate_add_edge_restores_example:
  "let p = demo_edge ''f'' ''b'' ''a''; m' = snd (apply_mutation demo_dag p);
       r = apply_mutation m' (compensate p)
   in applied (fst r) \<and> nodes (state (snd r)) = nodes (state demo_dag) \<and>
      edges (state (snd r)) = edges (state demo_dag) \<and> version (state (snd r)) = version (state demo_dag) + 2"
proof -
  have "applied (fst (apply_mutation demo_dag (demo_edge ''f'' ''b'' ''a'')))"
    "mutation_type (demo_edge ''f'' ''b'' ''a'') = ''add_edge''"
    "target_edge_id (demo_edge ''f'' ''b'' ''a'') = get_str (payload (demo_edge ''f'' ''b'' ''a'')) ''edge_id''"
    by code_simp+
  then show ?thesis using compensate_add_edge_restores unfolding Let_def by blast
qed

text \<open>A proposal that adds a node and carries its id in the payload only, as the proposal
  format requires, cannot be compensated: the compensation keeps the empty target and is refused,
  and the node stays.\<close>

lemma compensate_add_node_refused:
  assumes "applied (fst (apply_mutation m p))" "mutation_type p = ''add_node''" "target_node_id p = None"
  shows "let m' = snd (apply_mutation m p)
    in errors (fst (apply_mutation m' (compensate p))) = [''missing target_node_id''] \<and>
       snd (apply_mutation m' (compensate p)) = m' \<and> length (nodes (state m')) = length (nodes (state m)) + 1"
proof (cases rule: apply_mutation_cases [where m = m and p = p])
  case (accepted f s')
  with assms(2) have "apply_add_node (state m) p = Ok s'" by (simp add: apply_fn_def)
  then have "length (nodes s') = length (nodes (state m)) + 1" by (rule apply_add_node_OkE) simp
  then show ?thesis
    using accepted(1,5) assms(2,3)
    by (simp add: apply_mutation_def compensate_def inverse_mutation_type_def apply_fn_def
        requires_approval_def apply_remove_node_def)
qed (use assms in simp)

lemma compensate_add_node_refused_example:
  "let m' = snd (apply_mutation demo_dag (demo_node ''c''))
   in errors (fst (apply_mutation m' (compensate (demo_node ''c'')))) = [''missing target_node_id''] \<and>
      snd (apply_mutation m' (compensate (demo_node ''c''))) = m' \<and>
      length (nodes (state m')) = length (nodes (state demo_dag)) + 1"
proof (rule compensate_add_node_refused)
  show "applied (fst (apply_mutation demo_dag (demo_node ''c'')))"
    "mutation_type (demo_node ''c'') = ''add_node''" "target_node_id (demo_node ''c'') = None"
    by code_simp+
qed

text \<open>A mutation that needs approval is refused whatever its status says: setting the status to
  \<^verbatim>\<open>approved\<close>, which the error message asks for, has no effect.\<close>

lemma approval_status_ignored:
  assumes "proposal_dag_id p = manager_dag_id m" "apply_fn (mutation_type p) \<noteq> None"
    and "requires_approval p (state m)"
  shows "apply_mutation m (p\<lparr>proposal_status := st\<rparr>) =
    (reject m p ''mutation requires approval; set status=approved to proceed'', m)"
  using assms by (auto simp: apply_mutation_def requires_approval_def reject_def)

lemma approval_status_ignored_example:
  "apply_mutation demo_dag (demo_node ''c''\<lparr>proposal_requires_approval := True, proposal_status := ''approved''\<rparr>) =
   (reject demo_dag (demo_node ''c'') ''mutation requires approval; set status=approved to proceed'', demo_dag)"
proof -
  let ?p = "demo_node ''c''\<lparr>proposal_requires_approval := True\<rparr>"
  have "proposal_dag_id ?p = manager_dag_id demo_dag" "apply_fn (mutation_type ?p) \<noteq> None"
    "requires_approval ?p (state demo_dag)"
    by code_simp+
  from approval_status_ignored [OF this, of "''approved''"] show ?thesis by (simp add: reject_def)
qed

end
