(* ===== verification/Workflow_Graph.thy ===== *)
theory Workflow_Graph
  imports Graph_Spec Json_Value
begin

text \<open>
  The workflow graph of src/engine/src/orchestration/schemas.rs and the work queue over it
  (work\_queue.rs). Budgets and costs are \<^verbatim>\<open>f64\<close> fields that no operation here reads; their type
  is the parameter \<open>'f\<close> of the records.
\<close>

record 'f workflow_node =
  wn_schema_version :: string
  wn_node_id :: string
  wn_workflow_id :: string
  wn_task_type :: string
  wn_assigned_agent_id :: "string option"
  wn_status :: string
  wn_input_refs :: "string list"
  wn_output_ref :: "string option"
  wn_budget :: 'f
  wn_cost_incurred :: 'f
  wn_error :: "string option"
  wn_created_at :: string
  wn_started_at :: "string option"
  wn_completed_at :: "string option"

record workflow_edge =
  we_schema_version :: string
  we_edge_id :: string
  from_node_id :: string
  to_node_id :: string
  edge_type :: string

record 'f workflow_graph =
  wg_schema_version :: string
  wg_workflow_id :: string
  wg_dispatch_id :: string
  wg_nodes :: "'f workflow_node list"
  wg_edges :: "workflow_edge list"
  wg_status :: string
  wg_created_at :: string
  wg_updated_at :: string
  wg_started_at :: "string option"
  wg_completed_at :: "string option"
  wg_result :: "json option"

abbreviation wg_ids :: "'f workflow_graph \<Rightarrow> string list" where
  "wg_ids g \<equiv> map wn_node_id (wg_nodes g)"

abbreviation wg_arc :: "workflow_edge \<Rightarrow> arc" where
  "wg_arc e \<equiv> (from_node_id e, to_node_id e)"

abbreviation wg_arcs :: "'f workflow_graph \<Rightarrow> arc list" where
  "wg_arcs g \<equiv> map wg_arc (wg_edges g)"

section \<open>The work queue\<close>

definition wq_find_node :: "'f workflow_graph \<Rightarrow> string \<Rightarrow> 'f workflow_node option" where
  "wq_find_node g i = List.find (\<lambda>n. wn_node_id n = i) (wg_nodes g)"

definition replace_node :: "'f workflow_graph \<Rightarrow> string \<Rightarrow> 'f workflow_node \<Rightarrow> 'f workflow_graph" where
  "replace_node g i replacement =
     g\<lparr>wg_nodes := map (\<lambda>n. if wn_node_id n = i then replacement else n) (wg_nodes g)\<rparr>"

definition queue_update_node :: "'f workflow_graph \<Rightarrow> string \<Rightarrow> string \<Rightarrow> 'f workflow_graph" where
  "queue_update_node g i status =
     (case wq_find_node g i of
        None \<Rightarrow> g
      | Some node \<Rightarrow>
          replace_node g i (node\<lparr>wn_status := status,
            wn_started_at := (if status = ''running'' \<and> wn_started_at node = None
                              then Some ''now'' else wn_started_at node),
            wn_completed_at := (if status = ''completed'' \<or> status = ''failed''
                                then Some ''now'' else wn_completed_at node)\<rparr>))"

definition enqueue :: "'f workflow_graph \<Rightarrow> 'f workflow_node \<Rightarrow> 'f workflow_graph" where
  "enqueue g node = g"

definition dequeue_ready :: "'f workflow_graph \<Rightarrow> 'f workflow_node list" where
  "dequeue_ready g = filter (\<lambda>n. wn_status n = ''ready'') (wg_nodes g)"

definition queue_start :: "'f workflow_graph \<Rightarrow> string \<Rightarrow> 'f workflow_graph" where
  "queue_start g i = queue_update_node g i ''running''"

definition queue_complete :: "'f workflow_graph \<Rightarrow> string \<Rightarrow> string \<Rightarrow> 'f workflow_graph" where
  "queue_complete g i output_ref =
     (case wq_find_node g i of
        None \<Rightarrow> g
      | Some node \<Rightarrow>
          replace_node g i (node\<lparr>wn_status := ''completed'', wn_output_ref := Some output_ref,
            wn_completed_at := Some ''now''\<rparr>))"

definition queue_fail :: "'f workflow_graph \<Rightarrow> string \<Rightarrow> string \<Rightarrow> 'f workflow_graph" where
  "queue_fail g i error =
     (case wq_find_node g i of
        None \<Rightarrow> g
      | Some node \<Rightarrow>
          replace_node g i (node\<lparr>wn_status := ''failed'', wn_error := Some error,
            wn_completed_at := Some ''now''\<rparr>))"

definition queue_cancel :: "'f workflow_graph \<Rightarrow> string \<Rightarrow> 'f workflow_graph" where
  "queue_cancel g i =
     (case wq_find_node g i of
        None \<Rightarrow> g
      | Some node \<Rightarrow>
          if wn_status node = ''completed'' \<or> wn_status node = ''failed'' \<or> wn_status node = ''cancelled''
          then g
          else queue_update_node g i ''cancelled'')"

definition status_of :: "'f workflow_graph \<Rightarrow> string \<Rightarrow> string" where
  "status_of g i = (case wq_find_node g i of None \<Rightarrow> ''pending'' | Some n \<Rightarrow> wn_status n)"

section \<open>What the queue operations keep\<close>

text \<open>
  Every operation of the queue changes one node in place: the ids, their order, the edges and all
  other nodes stay. The contract is shared by the four operations that change a node.
\<close>

lemma find_map_if:
  assumes "\<And>n. f n = i \<Longrightarrow> f (r n) = i"
  shows "List.find (\<lambda>n. f n = i) (map (\<lambda>n. if f n = i then r n else n) ns) =
    map_option r (List.find (\<lambda>n. f n = i) ns)"
  using assms by (induction ns) auto

lemma find_map_if_other:
  assumes "\<And>n. f n = i \<Longrightarrow> f (r n) = i" "j \<noteq> i"
  shows "List.find (\<lambda>n. f n = j) (map (\<lambda>n. if f n = i then r n else n) ns) = List.find (\<lambda>n. f n = j) ns"
  using assms by (induction ns) auto

lemma wq_find_node_id: "wq_find_node g i = Some n \<Longrightarrow> wn_node_id n = i"
  by (auto simp: wq_find_node_def find_Some_iff)

lemma wq_find_node_None_iff: "wq_find_node g i = None \<longleftrightarrow> i \<notin> set (wg_ids g)"
  by (auto simp: wq_find_node_def find_None_iff)

lemma replace_node_ids: "wn_node_id r = i \<Longrightarrow> wg_ids (replace_node g i r) = wg_ids g"
  by (auto simp: replace_node_def)

lemma replace_node_edges [simp]: "wg_edges (replace_node g i r) = wg_edges g"
  by (simp add: replace_node_def)

lemma replace_node_status [simp]: "wg_status (replace_node g i r) = wg_status g"
  by (simp add: replace_node_def)

lemma find_replace_node:
  assumes "wn_node_id r = i"
  shows "wq_find_node (replace_node g i r) j =
    (if j = i then map_option (\<lambda>_. r) (wq_find_node g i) else wq_find_node g j)"
  using assms find_map_if [of wn_node_id i "\<lambda>_. r" "wg_nodes g"]
    find_map_if_other [of wn_node_id i "\<lambda>_. r" j "wg_nodes g"]
  by (simp add: wq_find_node_def replace_node_def)

locale node_operation =
  fixes op :: "'f workflow_graph \<Rightarrow> string \<Rightarrow> 'f workflow_graph"
  assumes op_ids: "wg_ids (op g i) = wg_ids g"
    and op_edges: "wg_edges (op g i) = wg_edges g"
    and op_status: "wg_status (op g i) = wg_status g"
    and op_other: "j \<noteq> i \<Longrightarrow> wq_find_node (op g i) j = wq_find_node g j"
begin

text \<open>Operations on different nodes do not see each other.\<close>

lemma foldl_other: "j \<notin> set is \<Longrightarrow> wq_find_node (foldl op g is) j = wq_find_node g j"
  by (induction "is" arbitrary: g) (simp_all add: op_other)

lemma foldl_ids: "wg_ids (foldl op g is) = wg_ids g"
  by (induction "is" arbitrary: g) (simp_all add: op_ids)

lemma foldl_edges: "wg_edges (foldl op g is) = wg_edges g"
  by (induction "is" arbitrary: g) (simp_all add: op_edges)

lemma foldl_status: "wg_status (foldl op g is) = wg_status g"
  by (induction "is" arbitrary: g) (simp_all add: op_status)

lemma op_arcs: "wg_arcs (op g i) = wg_arcs g"
  by (simp add: op_edges)

end

lemma update_node_find:
  "wq_find_node (queue_update_node g i status) j =
     (if j = i then map_option (\<lambda>node. node\<lparr>wn_status := status,
            wn_started_at := (if status = ''running'' \<and> wn_started_at node = None
                              then Some ''now'' else wn_started_at node),
            wn_completed_at := (if status = ''completed'' \<or> status = ''failed''
                                then Some ''now'' else wn_completed_at node)\<rparr>) (wq_find_node g i)
      else wq_find_node g j)"
  by (cases "wq_find_node g i") (simp_all add: queue_update_node_def find_replace_node wq_find_node_id)

interpretation update_node_op: node_operation "\<lambda>g i. queue_update_node g i status"
  by unfold_locales
    (auto simp: queue_update_node_def find_replace_node wq_find_node_id replace_node_ids
      split: option.splits)

interpretation start_op: node_operation queue_start
  unfolding queue_start_def by (rule update_node_op.node_operation_axioms)

interpretation complete_op: node_operation "\<lambda>g i. queue_complete g i output_ref"
  by unfold_locales
    (auto simp: queue_complete_def find_replace_node wq_find_node_id replace_node_ids
      split: option.splits)

interpretation fail_op: node_operation "\<lambda>g i. queue_fail g i error"
  by unfold_locales
    (auto simp: queue_fail_def find_replace_node wq_find_node_id replace_node_ids
      split: option.splits)

interpretation cancel_op: node_operation queue_cancel
  by unfold_locales
    (auto simp: queue_cancel_def update_node_op.op_ids update_node_op.op_edges update_node_op.op_status
      update_node_op.op_other split: option.splits)

section \<open>The queue as one small machine per node\<close>

datatype queue_event = QStart string | QComplete string string | QFail string string | QCancel string

fun queue_apply :: "queue_event \<Rightarrow> 'f workflow_graph \<Rightarrow> 'f workflow_graph" where
  "queue_apply (QStart i) g = queue_start g i"
| "queue_apply (QComplete i output_ref) g = queue_complete g i output_ref"
| "queue_apply (QFail i error) g = queue_fail g i error"
| "queue_apply (QCancel i) g = queue_cancel g i"

fun event_node :: "queue_event \<Rightarrow> string" where
  "event_node (QStart i) = i"
| "event_node (QComplete i _) = i"
| "event_node (QFail i _) = i"
| "event_node (QCancel i) = i"

text \<open>The specification: what one event does to the status of the node it names.\<close>

fun status_step :: "queue_event \<Rightarrow> string \<Rightarrow> string" where
  "status_step (QStart _) s = ''running''"
| "status_step (QComplete _ _) s = ''completed''"
| "status_step (QFail _ _) s = ''failed''"
| "status_step (QCancel _) s = (if s \<in> {''completed'', ''failed'', ''cancelled''} then s else ''cancelled'')"

lemma queue_apply_frame:
  "wg_ids (queue_apply e g) = wg_ids g" "wg_edges (queue_apply e g) = wg_edges g"
  "j \<noteq> event_node e \<Longrightarrow> wq_find_node (queue_apply e g) j = wq_find_node g j"
  by (cases e; simp add: start_op.op_ids complete_op.op_ids fail_op.op_ids cancel_op.op_ids start_op.op_edges
      complete_op.op_edges fail_op.op_edges cancel_op.op_edges start_op.op_other complete_op.op_other
      fail_op.op_other cancel_op.op_other)+

lemma queue_apply_status:
  assumes "event_node e \<in> set (wg_ids g)"
  shows "status_of (queue_apply e g) (event_node e) = status_step e (status_of g (event_node e))"
proof -
  obtain n where n: "wq_find_node g (event_node e) = Some n"
    using assms wq_find_node_None_iff by fastforce
  then show ?thesis
    by (cases e) (auto simp: status_of_def queue_start_def update_node_find queue_complete_def queue_fail_def
        queue_cancel_def find_replace_node wq_find_node_id)
qed

text \<open>C34. The queue refines one small machine per node. Whatever sequence of start, complete, fail and cancel
  requests arrives for any nodes in any order, the nodes and edges of the graph stay, and the status of a node
  is what the requests for that node alone make of it, in their order: the others never touch it, a
  cancellation never overrides a completed, failed or cancelled status, and each other request sets its own.\<close>

theorem queue_refines_node_machines:
  "wg_ids (fold queue_apply es g) = wg_ids g \<and> wg_edges (fold queue_apply es g) = wg_edges g \<and>
   status_of (fold queue_apply es g) i =
     (if i \<in> set (wg_ids g)
      then fold status_step (filter (\<lambda>e. event_node e = i) es) (status_of g i) else ''pending'')"
proof (induction es arbitrary: g)
  case Nil
  show ?case using wq_find_node_None_iff [of g i] by (auto simp: status_of_def split: option.splits)
next
  case (Cons e es)
  have "status_of (queue_apply e g) i = (if event_node e = i then status_step e (status_of g i) else status_of g i)"
    if "i \<in> set (wg_ids g)"
    using queue_apply_status [of e g] queue_apply_frame(3) [of i e g] that by (auto simp: status_of_def)
  then show ?case using Cons.IH [of "queue_apply e g"] queue_apply_frame(1,2) [of e g] by auto
qed

end
