(* ===== verification/Dependency_Resolver.thy ===== *)
theory Dependency_Resolver
  imports Workflow_Graph Dag_Order
begin

text \<open>
  \<^verbatim>\<open>DependencyResolver\<close> and \<^verbatim>\<open>ResolvableGraph\<close> of
  src/engine/src/orchestration/dependency\_resolver.rs: validation with a recursive cycle test,
  the execution waves, and the nodes ready to run. The recursion of the cycle test carries fuel,
  \<^const>\<open>None\<close> when it has run out; the number of nodes and one more is enough. The test walks
  a hash map in an unspecified order, which is an argument of \<open>dr_has_cycle_in\<close>, and its answer
  does not depend on it. A degree is a \<^verbatim>\<open>usize\<close>: the decrement of a zero degree, a panic in the
  source, is \<^const>\<open>None\<close>, and is shown not to happen.
\<close>

section \<open>The recursive cycle test\<close>

fun visit :: "nat \<Rightarrow> string \<Rightarrow> coloring \<Rightarrow> adjacency \<Rightarrow> (bool \<times> coloring) option"
  and visit_deps :: "nat \<Rightarrow> string list \<Rightarrow> coloring \<Rightarrow> adjacency \<Rightarrow>
      (bool \<times> coloring) option" where
  "visit 0 nid color adj = None"
| "visit (Suc fuel) nid color adj =
     (case (case hm_get adj nid of
              None \<Rightarrow> Some (False, hm_put nid GRAY color)
            | Some neighbors \<Rightarrow> visit_deps fuel neighbors (hm_put nid GRAY color) adj) of
        None \<Rightarrow> None
      | Some (cycle, color') \<Rightarrow>
          if cycle then Some (True, color') else Some (False, hm_put nid BLACK color'))"
| "visit_deps fuel [] color adj = Some (False, color)"
| "visit_deps fuel (dep # deps) color adj =
     (if hm_get color dep = Some GRAY then Some (True, color)
      else if hm_get color dep = Some WHITE then
        (case visit fuel dep color adj of
           None \<Rightarrow> None
         | Some (cycle, color') \<Rightarrow>
             if cycle then Some (True, color') else visit_deps fuel deps color' adj)
      else visit_deps fuel deps color adj)"

fun visit_all :: "nat \<Rightarrow> string list \<Rightarrow> coloring \<Rightarrow> adjacency \<Rightarrow> bool option" where
  "visit_all fuel [] color adj = Some False"
| "visit_all fuel (nid # nids) color adj =
     (case visit fuel nid color adj of
        None \<Rightarrow> None
      | Some (cycle, color') \<Rightarrow> if cycle then Some True else visit_all fuel nids color' adj)"

definition dr_color :: "'f workflow_graph \<Rightarrow> coloring" where
  "dr_color g = fold (\<lambda>n. hm_put n WHITE) (wg_ids g) []"

definition push_edges :: "arc list \<Rightarrow> adjacency \<Rightarrow> adjacency" where
  "push_edges es m = fold (\<lambda>(u, v) m. hm_modify u (\<lambda>l. l @ [v]) (hm_or_insert u [] m)) es m"

definition dr_adj :: "'f workflow_graph \<Rightarrow> adjacency" where
  "dr_adj g = push_edges (wg_arcs g) (fold (\<lambda>n. hm_put n []) (wg_ids g) [])"

text \<open>\<open>order\<close> lists the white nodes in the order in which the hash map yields them.\<close>

definition dr_has_cycle_in :: "string list \<Rightarrow> 'f workflow_graph \<Rightarrow> bool option" where
  "dr_has_cycle_in order g =
     visit_all (length (wg_ids g) + 1) order (dr_color g) (dr_adj g)"

definition dr_has_cycle :: "'f workflow_graph \<Rightarrow> bool" where
  "dr_has_cycle g \<longleftrightarrow> dr_has_cycle_in (map fst (dr_color g)) g = Some True"

section \<open>Validation, waves, ready nodes\<close>

definition wg_edge_errors :: "string list \<Rightarrow> workflow_edge \<Rightarrow> string list" where
  "wg_edge_errors ids e =
     (if from_node_id e \<notin> set ids then [''missing_source:'' @ from_node_id e] else []) @
     (if to_node_id e \<notin> set ids then [''missing_target:'' @ to_node_id e] else [])"

definition dr_validate :: "'f workflow_graph \<Rightarrow> bool \<times> string list" where
  "dr_validate g =
     (let errs = concat (map (wg_edge_errors (wg_ids g)) (wg_edges g)) @
            (if dr_has_cycle g then [''cycle_detected''] else [])
      in (errs = [], errs))"

definition build_dependents :: "string list \<Rightarrow> arc list \<Rightarrow> adjacency" where
  "build_dependents ids es = push_edges es (fold (\<lambda>n. hm_or_insert n []) ids [])"

fun relax_usize :: "string list \<Rightarrow> degrees \<Rightarrow> string list \<Rightarrow> (degrees \<times> string list) option" where
  "relax_usize [] indeg next = Some (indeg, next)"
| "relax_usize (v # vs) indeg next =
     (case hm_get indeg v of
        None \<Rightarrow> relax_usize vs indeg next
      | Some d \<Rightarrow>
          if d = 0 then None
          else relax_usize vs (hm_put v (d - 1) indeg) (if d - 1 = 0 then next @ [v] else next))"

fun relax_wave :: "adjacency \<Rightarrow> string list \<Rightarrow> degrees \<Rightarrow> string list \<Rightarrow> (degrees \<times> string list) option" where
  "relax_wave dependents [] indeg next = Some (indeg, next)"
| "relax_wave dependents (nid # ready) indeg next =
     (case hm_get dependents nid of
        None \<Rightarrow> relax_wave dependents ready indeg next
      | Some deps \<Rightarrow>
          (case relax_usize deps indeg next of
             None \<Rightarrow> None
           | Some (indeg', next') \<Rightarrow> relax_wave dependents ready indeg' next'))"

lemma relax_usize_relax:
  "relax_usize vs indeg next = Some r \<Longrightarrow> r = relax vs indeg next"
  by (induction vs indeg "next" rule: relax_usize.induct) (auto split: option.splits if_splits)

lemma relax_wave_weight:
  "relax_wave dependents ready indeg next = Some (indeg', next') \<Longrightarrow>
     degree_weight indeg' + length next' \<le> degree_weight indeg + length next"
proof (induction dependents ready indeg "next" rule: relax_wave.induct)
  case (2 dependents nid ready indeg "next")
  show ?case
  proof (cases "hm_get dependents nid")
    case (Some deps)
    with 2(3) obtain i1 n1 where step: "relax_usize deps indeg next = Some (i1, n1)"
      "relax_wave dependents ready i1 n1 = Some (indeg', next')"
      by (auto split: option.splits)
    then have "(i1, n1) = relax deps indeg next" by (blast dest: relax_usize_relax)
    then show ?thesis
      using 2(2) [OF Some step(1) refl step(2)] relax_weight [of deps indeg "next"]
      by (metis fst_conv le_trans snd_conv)
  qed (use 2 in simp)
qed simp

function waves_loop :: "adjacency \<Rightarrow> degrees \<Rightarrow> string list \<Rightarrow> string list list \<Rightarrow> string list list option" where
  "waves_loop dependents indeg ready waves =
     (if ready = [] then Some waves
      else case relax_wave dependents ready indeg [] of
        None \<Rightarrow> None
      | Some (indeg', next) \<Rightarrow> waves_loop dependents indeg' (sort next) (waves @ [ready]))"
  by pat_completeness auto
termination
proof (relation "measure (\<lambda>(dependents, indeg, ready, waves). degree_weight indeg + length ready)")
  fix dependents indeg ready waves r indeg' and "next" :: "string list"
  assume "ready \<noteq> []" "relax_wave dependents ready indeg [] = Some r" "(indeg', next) = r"
  then have "degree_weight indeg' + length next \<le> degree_weight indeg"
    using relax_wave_weight by fastforce
  then show "((dependents, indeg', sort next, waves @ [ready]), dependents, indeg, ready, waves)
      \<in> measure (\<lambda>(dependents, indeg, ready, waves). degree_weight indeg + length ready)"
    using \<open>ready \<noteq> []\<close> by (cases ready) simp_all
qed simp

declare waves_loop.simps [simp del]

definition execution_order :: "'f workflow_graph \<Rightarrow> string list list option" where
  "execution_order g =
     (if \<not> fst (dr_validate g) then Some []
      else let indeg = build_in_degree (wg_ids g) (wg_arcs g)
           in waves_loop (build_dependents (wg_ids g) (wg_arcs g)) indeg (zero_degree indeg) [])"

definition dependencies_of :: "'f workflow_graph \<Rightarrow> string \<Rightarrow> string list" where
  "dependencies_of g i =
     map from_node_id (filter (\<lambda>e. to_node_id e = i \<and> edge_type e = ''dependency'') (wg_edges g))"

definition dr_ready_nodes :: "'f workflow_graph \<Rightarrow> string list" where
  "dr_ready_nodes g =
     (let completed = wn_node_id ` {n \<in> set (wg_nodes g). wn_status n = ''completed''}
      in sort (map wn_node_id (filter (\<lambda>node. wn_status node = ''pending'' \<and>
           list_all (\<lambda>d. d \<in> completed) (dependencies_of g (wn_node_id node))) (wg_nodes g))))"

text \<open>\<^verbatim>\<open>ResolvableGraph\<close>: the trait over a graph.\<close>

definition rg_topological_order :: "'f workflow_graph \<Rightarrow> string list" where
  "rg_topological_order g = (case execution_order g of None \<Rightarrow> [] | Some waves \<Rightarrow> concat waves)"

definition rg_ready_nodes :: "'f workflow_graph \<Rightarrow> string set \<Rightarrow> string list" where
  "rg_ready_nodes g completed =
     sort (map wn_node_id (filter (\<lambda>node. wn_status node = ''pending'' \<and>
       list_all (\<lambda>d. d \<in> completed)
         (map from_node_id (filter (\<lambda>e. to_node_id e = wn_node_id node \<and> edge_type e = ''dependency'') (wg_edges g))))
       (wg_nodes g)))"

end
