(* ===== verification/Dependency_Theorems.thy ===== *)
theory Dependency_Theorems
  imports Dependency_Resolver
begin

text \<open>
  Correctness of the dependency resolver: the recursive cycle test returns and is exact for every
  iteration order of the hash map, the waves are a layered topological order with every node as
  early as possible, and \<^verbatim>\<open>ResolvableGraph\<close> satisfies the trait \<^verbatim>\<open>GraphOperations\<close>.
\<close>

section \<open>The cycle test returns\<close>

definition whites :: "coloring \<Rightarrow> nat" where
  "whites color = length (filter (\<lambda>(n, c). c = WHITE) color)"

lemma whites_put: "c \<noteq> WHITE \<Longrightarrow> whites (hm_put n c color) \<le> whites color"
  by (induction color) (auto simp: whites_def)

lemma whites_put_white:
  "hm_get color n = Some WHITE \<Longrightarrow> c \<noteq> WHITE \<Longrightarrow> whites (hm_put n c color) < whites color"
proof (induction color)
  case (Cons a color)
  then show ?case using whites_put [of c n color] by (cases a) (auto simp: whites_def)
qed simp

lemma visit_whites:
  "visit fuel nid color adj = Some (r, color') \<Longrightarrow> whites color' \<le> whites color"
  "visit_deps fuel deps color adj = Some (r, color') \<Longrightarrow> whites color' \<le> whites color"
proof (induction fuel nid color adj and fuel deps color adj arbitrary: r color' and r color'
    rule: visit_visit_deps.induct)
  case (2 fuel nid color adj)
  then show ?case
    using whites_put [of GRAY nid color] whites_put [of BLACK nid]
    by (fastforce split: option.splits if_splits intro: le_trans)
next
  case (4 fuel dep deps color adj)
  then show ?case
    by (fastforce split: option.splits if_splits intro: le_trans)
qed auto

lemma visit_returns:
  "whites (hm_put nid GRAY color) < fuel \<Longrightarrow> visit fuel nid color adj \<noteq> None"
  "whites color \<le> fuel \<Longrightarrow> visit_deps fuel deps color adj \<noteq> None"
proof (induction fuel nid color adj and fuel deps color adj rule: visit_visit_deps.induct)
  case (2 fuel nid color adj)
  show ?case
  proof (cases "hm_get adj nid")
    case None
    then show ?thesis by auto
  next
    case (Some ns)
    then have "visit_deps fuel ns (hm_put nid GRAY color) adj \<noteq> None" using 2 by simp
    then show ?thesis using Some by (auto split: if_splits)
  qed
next
  case (4 fuel dep deps color adj)
  consider "hm_get color dep = Some GRAY" | "hm_get color dep = Some WHITE"
    | "hm_get color dep \<noteq> Some GRAY" "hm_get color dep \<noteq> Some WHITE" by blast
  then show ?case
  proof cases
    case 2
    then have "visit fuel dep color adj \<noteq> None"
      using 4(1) 4(4) whites_put_white [OF 2, of GRAY] by simp
    then obtain r color' where v: "visit fuel dep color adj = Some (r, color')" by auto
    then have "whites color' \<le> fuel" using visit_whites(1) 4(4) le_trans by blast
    then show ?thesis using 4(2) 2 v by auto
  qed (use 4 in auto)
qed auto

lemma visit_all_returns:
  assumes "whites color < fuel"
  shows "visit_all fuel nids color adj \<noteq> None"
  using assms
proof (induction fuel nids color adj rule: visit_all.induct)
  case (2 fuel nid nids color adj)
  have "whites (hm_put nid GRAY color) < fuel" using 2 whites_put [of GRAY nid color] by simp
  then have "visit fuel nid color adj \<noteq> None" by (rule visit_returns(1))
  then obtain r color' where v: "visit fuel nid color adj = Some (r, color')" by auto
  then have "whites color' < fuel" using visit_whites(1) 2(2) le_less_trans by blast
  then show ?case using 2(1) v by auto
qed simp

section \<open>The cycle test is exact\<close>

text \<open>
  \<open>r\<close> is the relation of the graph. Finished nodes are closed under it and lie on no cycle; every
  node in progress reaches the current one; and a call that finds nothing keeps the nodes in
  progress and only finishes more.
\<close>

definition black_ok :: "arc set \<Rightarrow> coloring \<Rightarrow> bool" where
  "black_ok r color \<longleftrightarrow> (\<forall>u. hm_get color u = Some BLACK \<longrightarrow>
     (u, u) \<notin> r\<^sup>+ \<and> (\<forall>v. (u, v) \<in> r \<longrightarrow> hm_get color v = Some BLACK))"

definition gray_reach :: "arc set \<Rightarrow> coloring \<Rightarrow> string \<Rightarrow> bool" where
  "gray_reach r color n \<longleftrightarrow> (\<forall>g. hm_get color g = Some GRAY \<longrightarrow> (g, n) \<in> r\<^sup>*)"

definition extends :: "coloring \<Rightarrow> coloring \<Rightarrow> bool" where
  "extends color color' \<longleftrightarrow> (\<forall>v.
     (hm_get color' v = None \<longleftrightarrow> hm_get color v = None) \<and>
     (hm_get color' v = Some GRAY \<longleftrightarrow> hm_get color v = Some GRAY) \<and>
     (hm_get color v = Some BLACK \<longrightarrow> hm_get color' v = Some BLACK))"

lemma extends_refl: "extends color color"
  by (simp add: extends_def)

lemma extends_trans: "extends a b \<Longrightarrow> extends b c \<Longrightarrow> extends a c"
  by (simp add: extends_def)

lemma extendsD:
  assumes "extends color color'"
  shows "hm_get color' v = None \<longleftrightarrow> hm_get color v = None"
    "hm_get color' v = Some GRAY \<longleftrightarrow> hm_get color v = Some GRAY"
    "hm_get color v = Some BLACK \<Longrightarrow> hm_get color' v = Some BLACK"
  using assms by (auto simp: extends_def)

lemma black_trancl:
  assumes "(u, v) \<in> r\<^sup>+" "black_ok r color" "hm_get color u = Some BLACK"
  shows "hm_get color v = Some BLACK"
  using assms by induction (auto simp: black_ok_def)

lemma black_ok_finish:
  assumes ok: "black_ok r color" and n: "hm_get color n = Some GRAY"
    and succ: "\<And>v. (n, v) \<in> r \<Longrightarrow> hm_get color v = Some BLACK"
  shows "black_ok r (hm_put n BLACK color)"
proof -
  have "(n, n) \<notin> r\<^sup>+"
  proof
    assume "(n, n) \<in> r\<^sup>+"
    then obtain v where v: "(n, v) \<in> r" "v = n \<or> (v, n) \<in> r\<^sup>+" by (metis tranclD rtranclD)
    with succ [OF v(1)] black_trancl [OF _ ok] n show False by auto
  qed
  then show ?thesis using ok succ by (auto simp: black_ok_def map_laws)
qed

text \<open>The relation the colours and the adjacency map describe.\<close>

definition color_rel :: "coloring \<Rightarrow> adjacency \<Rightarrow> arc set" where
  "color_rel color adj = {(u, v). hm_get color u \<noteq> None \<and> hm_get color v \<noteq> None \<and> v \<in> set (neighbors_of adj u)}"

lemma color_rel_put: "hm_get color n \<noteq> None \<Longrightarrow> color_rel (hm_put n c color) adj = color_rel color adj"
  by (auto simp: color_rel_def map_laws)

lemma color_rel_extends: "extends color color' \<Longrightarrow> color_rel color' adj = color_rel color adj"
  by (simp add: color_rel_def extends_def)

lemma extends_visit:
  assumes "hm_get color n = Some WHITE" "extends (hm_put n GRAY color) color'"
  shows "extends color (hm_put n BLACK color')"
  using assms by (auto simp: extends_def map_laws)

lemma visit_sound:
  "r = color_rel color adj \<Longrightarrow> hm_get color nid = Some WHITE \<Longrightarrow> black_ok r color \<Longrightarrow>
     gray_reach r color nid \<Longrightarrow> visit fuel nid color adj = Some (cycle, color') \<Longrightarrow>
     (if cycle then \<exists>u. (u, u) \<in> r\<^sup>+
      else black_ok r color' \<and> extends color color' \<and> hm_get color' nid = Some BLACK)"
  "r = color_rel color adj \<Longrightarrow> hm_get color n = Some GRAY \<Longrightarrow> set deps \<subseteq> set (neighbors_of adj n) \<Longrightarrow>
     black_ok r color \<Longrightarrow> gray_reach r color n \<Longrightarrow> visit_deps fuel deps color adj = Some (cycle, color') \<Longrightarrow>
     (if cycle then \<exists>u. (u, u) \<in> r\<^sup>+
      else black_ok r color' \<and> extends color color' \<and>
        (\<forall>d \<in> set deps. hm_get color d = None \<or> hm_get color' d = Some BLACK))"
proof (induction fuel nid color adj and fuel deps color adj
    arbitrary: cycle color' and n cycle color' rule: visit_visit_deps.induct)
  case (2 fuel nid color adj)
  let ?gray = "hm_put nid GRAY color"
  have r: "r = color_rel ?gray adj" using 2(2,3) by (simp add: color_rel_put)
  have ok: "black_ok r ?gray" using 2(3,4) by (auto simp: black_ok_def map_laws)
  have reach: "gray_reach r ?gray nid" using 2(5) by (auto simp: gray_reach_def map_laws)
  show ?case
  proof (cases "hm_get adj nid")
    case None
    then have "color' = hm_put nid BLACK ?gray" "\<not> cycle" using 2(6) by auto
    moreover have "black_ok r (hm_put nid BLACK ?gray)"
      by (rule black_ok_finish [OF ok]) (auto simp: map_laws r color_rel_def neighbors_of_def None)
    ultimately show ?thesis
      using extends_visit [OF 2(3) extends_refl] by (simp add: map_laws)
  next
    case (Some ns)
    then obtain cycle1 color1 where run: "visit_deps fuel ns ?gray adj = Some (cycle1, color1)"
      and res: "cycle = cycle1" "color' = (if cycle1 then color1 else hm_put nid BLACK color1)"
      using 2(6) by (auto split: option.splits if_splits)
    have IH: "if cycle1 then \<exists>u. (u, u) \<in> r\<^sup>+
      else black_ok r color1 \<and> extends ?gray color1 \<and>
        (\<forall>d \<in> set ns. hm_get ?gray d = None \<or> hm_get color1 d = Some BLACK)"
      by (rule 2(1) [OF Some r _ _ ok reach run]) (simp_all add: map_laws neighbors_of_def Some)
    show ?thesis
    proof (cases cycle1)
      case False
      with IH have IH: "black_ok r color1" "extends ?gray color1"
        "\<forall>d \<in> set ns. hm_get ?gray d = None \<or> hm_get color1 d = Some BLACK" by auto
      have "black_ok r (hm_put nid BLACK color1)"
      proof (rule black_ok_finish [OF IH(1)])
        show "hm_get color1 nid = Some GRAY" using extendsD(2) [OF IH(2), of nid] by (simp add: map_laws)
        show "hm_get color1 v = Some BLACK" if "(nid, v) \<in> r" for v
          using that IH(3) by (auto simp: r color_rel_def neighbors_of_def Some)
      qed
      then show ?thesis using res False extends_visit [OF 2(3) IH(2)] by (simp add: map_laws)
    qed (use IH res in simp)
  qed
next
  case (4 fuel dep deps color adj)
  note prems = 4(4-9)
  have arc: "(n, dep) \<in> r" if "hm_get color dep \<noteq> None"
    using that prems(1,2,3) by (auto simp: color_rel_def)
  have sub: "set deps \<subseteq> set (neighbors_of adj n)" using prems(3) by simp
  consider (gray) "hm_get color dep = Some GRAY" | (white) "hm_get color dep = Some WHITE"
    | (other) "hm_get color dep \<noteq> Some GRAY" "hm_get color dep \<noteq> Some WHITE" by blast
  then show ?case
  proof cases
    case gray
    then have "(n, dep) \<in> r" "(dep, n) \<in> r\<^sup>*"
      using arc prems(5) by (simp_all add: gray_reach_def)
    then have "(n, n) \<in> r\<^sup>+" by (rule rtrancl_into_trancl2)
    then show ?thesis using gray prems(6) by auto
  next
    case white
    then have ne: "hm_get color dep \<noteq> Some GRAY" by simp
    have reach: "gray_reach r color dep"
      using prems(5) arc white by (auto simp: gray_reach_def intro: rtrancl_into_rtrancl)
    obtain cycle1 color1 where run: "visit fuel dep color adj = Some (cycle1, color1)"
      and rest: "if cycle1 then cycle \<and> color' = color1
        else visit_deps fuel deps color1 adj = Some (cycle, color')"
      using prems(6) white by (auto split: option.splits if_splits)
    note IH1 = 4(1) [OF ne white prems(1) white prems(4) reach run]
    show ?thesis
    proof (cases cycle1)
      case True
      then show ?thesis using IH1 rest by simp
    next
      case False
      with IH1 have IH1: "black_ok r color1" "extends color color1" "hm_get color1 dep = Some BLACK"
        by simp_all
      have IH2: "if cycle then \<exists>u. (u, u) \<in> r\<^sup>+
        else black_ok r color' \<and> extends color1 color' \<and>
          (\<forall>d \<in> set deps. hm_get color1 d = None \<or> hm_get color' d = Some BLACK)"
      proof (rule 4(2) [OF ne white run refl False])
        show "r = color_rel color1 adj" using prems(1) IH1(2) by (simp add: color_rel_extends)
        show "gray_reach r color1 n" using prems(5) extendsD(2) [OF IH1(2)] by (simp add: gray_reach_def)
      qed (use IH1 extendsD(2) [OF IH1(2), of n] prems(2) sub rest False in auto)
      then show ?thesis
        using IH1 extendsD(1) [OF IH1(2)]
        by (auto intro: extends_trans dest: extendsD(3))
    qed
  next
    case other
    then have black: "hm_get color dep = None \<or> hm_get color dep = Some BLACK"
      by (cases "hm_get color dep"; cases "the (hm_get color dep)") auto
    have "if cycle then \<exists>u. (u, u) \<in> r\<^sup>+
      else black_ok r color' \<and> extends color color' \<and>
        (\<forall>d \<in> set deps. hm_get color d = None \<or> hm_get color' d = Some BLACK)"
      using 4(3) [OF other prems(1,2) sub prems(4,5)] prems(6) other by simp
    then show ?thesis using black by (auto dest: extendsD(3))
  qed
qed (auto simp: extends_refl)

text \<open>The outer loop may meet a node that is already finished; its second visit changes nothing.\<close>

lemma visit_deps_finished:
  "\<forall>d \<in> set deps. hm_get color d = None \<or> hm_get color d = Some BLACK \<Longrightarrow>
     visit_deps fuel deps color adj = Some (False, color)"
  by (induction deps) auto

lemma visit_again:
  assumes "black_ok r color" "r = color_rel color adj" "hm_get color nid = Some BLACK"
    "\<And>v. hm_get color v \<noteq> Some GRAY" "visit fuel nid color adj = Some (cycle, color')"
  shows "\<not> cycle \<and> (\<forall>v. hm_get color' v = hm_get color v)"
proof -
  have fin: "hm_get (hm_put nid GRAY color) d = None \<or> hm_get (hm_put nid GRAY color) d = Some BLACK"
    if "d \<in> set (neighbors_of adj nid)" for d
  proof (cases "hm_get color d")
    case (Some c)
    then have "(nid, d) \<in> r" using that assms(2,3) by (simp add: color_rel_def)
    with assms(1,3) have "hm_get color d = Some BLACK" "d \<noteq> nid" by (auto simp: black_ok_def)
    then show ?thesis by (simp add: map_laws)
  next
    case None
    then show ?thesis using assms(3) by (auto simp: map_laws)
  qed
  obtain k where fuel: "fuel = Suc k" using assms(5) by (cases fuel) auto
  have "visit fuel nid color adj = Some (False, hm_put nid BLACK (hm_put nid GRAY color))"
    using visit_deps_finished [of "neighbors_of adj nid" "hm_put nid GRAY color" k adj] fin
    by (cases "hm_get adj nid") (simp_all add: fuel neighbors_of_def)
  then show ?thesis using assms(3,5) by (auto simp: map_laws)
qed

lemma not_white_gray:
  assumes "hm_get color u \<noteq> None" "hm_get color u \<noteq> Some GRAY" "hm_get color u \<noteq> Some WHITE"
  shows "hm_get color u = Some BLACK"
proof -
  obtain c where "hm_get color u = Some c" using assms(1) by blast
  then show ?thesis using assms by (cases c) auto
qed

lemma visit_all_exact:
  assumes "r = color_rel color adj" "black_ok r color" "\<And>v. hm_get color v \<noteq> Some GRAY"
    "\<And>n. n \<in> set nids \<Longrightarrow> hm_get color n \<noteq> None"
    "\<And>v. hm_get color v = Some WHITE \<Longrightarrow> v \<in> set nids"
    "visit_all fuel nids color adj = Some b"
  shows "b \<longleftrightarrow> (\<exists>u. (u, u) \<in> r\<^sup>+)"
  using assms
proof (induction fuel nids color adj rule: visit_all.induct)
  case (1 fuel color adj)
  have "(u, u) \<notin> r\<^sup>+" for u
  proof
    assume "(u, u) \<in> r\<^sup>+"
    then obtain v where "(u, v) \<in> r" by (metis tranclD)
    then have "hm_get color u \<noteq> None" using 1(1) by (auto simp: color_rel_def)
    then have "hm_get color u = Some BLACK"
      using not_white_gray [of color u] 1(3) [of u] 1(5) [of u] by auto
    with 1(2) \<open>(u, u) \<in> r\<^sup>+\<close> show False by (auto simp: black_ok_def)
  qed
  then show ?case using 1(6) by simp
next
  case (2 fuel nid nids color adj)
  obtain cycle color' where run: "visit fuel nid color adj = Some (cycle, color')"
    using 2(7) by (auto split: option.splits)
  have nogray: "gray_reach r color nid" using 2(4) by (simp add: gray_reach_def)
  consider (white) "hm_get color nid = Some WHITE" | (black) "hm_get color nid = Some BLACK"
    using not_white_gray [of color nid] 2(4) [of nid] 2(5) [of nid] by fastforce
  then show ?case
  proof cases
    case white
    note post = visit_sound(1) [OF 2(2) white 2(3) nogray run]
    show ?thesis
    proof (cases cycle)
      case True
      then show ?thesis using post run 2(7) by auto
    next
      case False
      with post have post: "black_ok r color'" "extends color color'" "hm_get color' nid = Some BLACK"
        by simp_all
      show ?thesis
      proof (rule 2(1) [OF run refl False _ post(1)])
        show "r = color_rel color' adj" using 2(2) post(2) by (simp add: color_rel_extends)
        show "hm_get color' v \<noteq> Some GRAY" for v using 2(4) extendsD(2) [OF post(2)] by simp
        show "hm_get color' n \<noteq> None" if "n \<in> set nids" for n
          using that 2(5) extendsD(1) [OF post(2)] by simp
        show "v \<in> set nids" if "hm_get color' v = Some WHITE" for v
        proof -
          have "hm_get color v = Some WHITE"
            using that extendsD [OF post(2), of v] 2(4) [of v] not_white_gray [of color v] by fastforce
          then show ?thesis using 2(6) [of v] post(3) that by auto
        qed
        show "visit_all fuel nids color' adj = Some b" using 2(7) run False by simp
      qed
    qed
  next
    case black
    have post: "\<not> cycle" "\<And>v. hm_get color' v = hm_get color v"
      using visit_again [OF 2(3,2) black 2(4) run] by auto
    show ?thesis
    proof (rule 2(1) [OF run refl post(1)])
      show "r = color_rel color' adj" using 2(2) by (simp add: color_rel_def post(2))
      show "black_ok r color'" using 2(3) by (simp add: black_ok_def post(2))
      show "v \<in> set nids" if "hm_get color' v = Some WHITE" for v
        using that 2(6) [of v] black by (auto simp: post(2))
      show "visit_all fuel nids color' adj = Some b" using 2(7) run post(1) by simp
    qed (use 2(4,5) in \<open>simp_all add: post(2)\<close>)
  qed
qed

lemma get_dr_color: "hm_get (dr_color g) v = (if v \<in> set (wg_ids g) then Some WHITE else None)"
  unfolding dr_color_def
  using hm.get_fold_put_const [where m = "[]" and f = "\<lambda>x. x" and c = WHITE and xs = "wg_ids g" and k = v]
  by simp

lemma whites_dr_color: "whites (dr_color g) \<le> length (wg_ids g)"
proof -
  have put: "whites (hm_put n WHITE m) \<le> Suc (whites m)" for n m
    by (induction m) (auto simp: whites_def)
  have "whites (fold (\<lambda>n. hm_put n WHITE) ns m) \<le> whites m + length ns" for ns m
  proof (induction ns arbitrary: m)
    case (Cons n ns)
    show ?case using Cons.IH [of "hm_put n WHITE m"] put [of n m] by simp
  qed simp
  from this [of "wg_ids g" "[]"] show ?thesis by (simp add: dr_color_def whites_def)
qed

lemma get_push_edges:
  "hm_get (push_edges es m) u =
     (if u \<in> fst ` set es \<or> hm_get m u \<noteq> None
      then Some (unwrap_or (hm_get m u) [] @ map snd (filter (\<lambda>e. fst e = u) es)) else None)"
proof (induction es arbitrary: m)
  case Nil
  then show ?case by (simp add: push_edges_def unwrap_or_def split: option.splits)
next
  case (Cons e es)
  obtain a b where e: "e = (a, b)" by (cases e)
  have "push_edges (e # es) m = push_edges es (hm_modify a (\<lambda>l. l @ [b]) (hm_or_insert a [] m))"
    by (simp add: push_edges_def e)
  then show ?case
    by (auto simp: Cons.IH e map_laws unwrap_or_def split: option.splits)
qed

lemma neighbors_push_edges:
  assumes "hm_get m u = None \<or> hm_get m u = Some []"
  shows "neighbors_of (push_edges es m) u = map snd (filter (\<lambda>e. fst e = u) es)"
proof -
  have "filter (\<lambda>e. fst e = u) es = []" if "u \<notin> fst ` set es"
    using that by (auto simp: filter_empty_conv)
  then show ?thesis
    using assms by (auto simp: neighbors_of_def get_push_edges unwrap_or_def)
qed

lemma neighbors_dr_adj: "neighbors_of (dr_adj g) u = map snd (filter (\<lambda>e. fst e = u) (wg_arcs g))"
proof -
  have "hm_get (fold (\<lambda>n. hm_put n ([] :: string list)) (wg_ids g) []) u =
    (if u \<in> set (wg_ids g) then Some [] else None)"
    using hm.get_fold_put_const [where m = "[]" and f = "\<lambda>x. x" and c = "[] :: string list"
        and xs = "wg_ids g" and k = u] by simp
  then show ?thesis unfolding dr_adj_def by (intro neighbors_push_edges) simp
qed

lemma set_out_arcs: "v \<in> set (map snd (filter (\<lambda>e. fst e = u) es)) \<longleftrightarrow> (u, v) \<in> set es"
  by force

lemma color_rel_dr: "color_rel (dr_color g) (dr_adj g) = graph_rel (wg_ids g) (wg_arcs g)"
  unfolding color_rel_def graph_rel_def get_dr_color neighbors_dr_adj set_out_arcs by auto

lemma dr_has_cycle_in_exact:
  assumes "set order = set (wg_ids g)"
  shows "dr_has_cycle_in order g = Some (cyclic (wg_ids g) (wg_arcs g))"
proof -
  have "visit_all (length (wg_ids g) + 1) order (dr_color g) (dr_adj g) \<noteq> None"
    using whites_dr_color [of g] by (intro visit_all_returns) simp
  then obtain b where b: "visit_all (length (wg_ids g) + 1) order (dr_color g) (dr_adj g) = Some b" by blast
  have "b \<longleftrightarrow> (\<exists>u. (u, u) \<in> (color_rel (dr_color g) (dr_adj g))\<^sup>+)"
    by (rule visit_all_exact [OF refl _ _ _ _ b])
      (use assms in \<open>auto simp: get_dr_color black_ok_def split: if_splits\<close>)
  then show ?thesis using b by (simp add: dr_has_cycle_in_def color_rel_dr cyclic_def)
qed

lemma dr_has_cycle_cyclic: "dr_has_cycle g \<longleftrightarrow> cyclic (wg_ids g) (wg_arcs g)"
proof -
  have "set (map fst (dr_color g)) = dom (hm_get (dr_color g))" by (simp add: dom_map_of_conv_image_fst)
  also have "\<dots> = set (wg_ids g)" by (auto simp: dom_def get_dr_color split: if_splits)
  finally show ?thesis using dr_has_cycle_in_exact [of "map fst (dr_color g)" g]
    by (simp add: dr_has_cycle_def)
qed

lemma dr_validate_iff: "fst (dr_validate g) \<longleftrightarrow> valid_graph (wg_ids g) (wg_arcs g)"
  by (auto simp: dr_validate_def Let_def wg_edge_errors_def valid_graph_def dangling_free_def
      dr_has_cycle_cyclic)

section \<open>Waves\<close>

lemma relax_usize_exact:
  assumes "\<And>v d. hm_get indeg v = Some d \<Longrightarrow> int (count_list vs v) \<le> d"
  shows "relax_usize vs indeg queue = Some (relax vs indeg queue)"
  using assms
proof (induction vs indeg queue rule: relax_usize.induct)
  case (2 w vs indeg queue)
  show ?case
  proof (cases "hm_get indeg w")
    case None
    have "relax_usize vs indeg queue = Some (relax vs indeg queue)"
    proof (rule 2(1) [OF None])
      fix v d assume "hm_get indeg v = Some d"
      from 2(3) [OF this] show "int (count_list vs v) \<le> d" by (simp split: if_splits)
    qed
    then show ?thesis using None by simp
  next
    case (Some d)
    have d: "1 + int (count_list vs w) \<le> d" using 2(3) [OF Some] by simp
    then have ne: "d \<noteq> 0" by simp
    have "relax_usize vs (hm_put w (d - 1) indeg) (if d - 1 = 0 then queue @ [w] else queue) =
      Some (relax vs (hm_put w (d - 1) indeg) (if d - 1 = 0 then queue @ [w] else queue))"
    proof (rule 2(2) [OF Some ne])
      fix v d' assume "hm_get (hm_put w (d - 1) indeg) v = Some d'"
      with d 2(3) [of v d'] show "int (count_list vs v) \<le> d'"
        by (auto simp: map_laws split: if_splits)
    qed
    then show ?thesis using Some ne by simp
  qed
qed simp

lemma relax_append: "relax vs indeg (p @ q) = (fst (relax vs indeg q), p @ snd (relax vs indeg q))"
proof (induction vs indeg q rule: relax.induct)
  case (2 v vs indeg q)
  then show ?case by (cases "hm_get indeg v") (auto split: if_splits)
qed simp

lemma kahn_inv_perm:
  "kahn_inv ids es indeg queue acc \<Longrightarrow> mset queue' = mset queue \<Longrightarrow> kahn_inv ids es indeg queue' acc"
  unfolding kahn_inv_def
  by (metis distinct_append mset_eq_imp_distinct_iff mset_eq_setD set_append)

lemma get_build_dependents:
  "v \<in> set ids \<Longrightarrow> hm_get (build_dependents ids es) v = Some (map snd (filter (\<lambda>e. fst e = v) es))"
  by (simp add: build_dependents_def get_push_edges get_or_insert_fold unwrap_or_def)

lemma relax_wave_inv:
  assumes free: "dangling_free ids es" and inv: "kahn_inv ids es indeg (ready @ queue) acc"
  shows "\<exists>indeg' queue'. relax_wave (build_dependents ids es) ready indeg queue = Some (indeg', queue') \<and>
    kahn_inv ids es indeg' queue' (acc @ ready)"
  using inv
proof (induction ready arbitrary: indeg queue acc)
  case (Cons n ready)
  let ?deps = "map snd (filter (\<lambda>e. fst e = n) es)"
  note inv = kahn_invD [OF Cons.prems]
  have "n \<in> set ids" using inv(2) [of n] by simp
  then have deps: "hm_get (build_dependents ids es) n = Some ?deps" by (rule get_build_dependents)
  have "n \<notin> set acc" using inv(1) by simp
  from open_arcs_insert [OF this]
  have le: "int (count_list ?deps v) \<le> d" if "hm_get indeg v = Some d" for v d
    using that inv(3) [of v] by (auto split: if_splits) (metis le_add2)
  have "relax_usize ?deps indeg queue = Some (relax ?deps indeg queue)"
    by (rule relax_usize_exact) (rule le)
  moreover have "kahn_inv ids es (fst (relax ?deps indeg (ready @ queue)))
      (snd (relax ?deps indeg (ready @ queue))) (acc @ [n])"
    using kahn_inv_relax [of ids es indeg n "ready @ queue" acc ?deps] Cons.prems free by simp
  then have "kahn_inv ids es (fst (relax ?deps indeg queue)) (ready @ snd (relax ?deps indeg queue)) (acc @ [n])"
    by (simp add: relax_append)
  ultimately show ?case
    using Cons.IH deps by (fastforce simp: case_prod_beta)
qed simp

text \<open>
  Layers: every wave is non-empty and sorted, the predecessors of its nodes lie in earlier waves,
  and every node of a later wave has a predecessor in the wave just before, so no node could run
  earlier.
\<close>

definition layered :: "arc list \<Rightarrow> string list list \<Rightarrow> bool" where
  "layered es ws \<longleftrightarrow> (\<forall>pre w post. ws = pre @ w # post \<longrightarrow>
     w \<noteq> [] \<and> sorted w \<and>
     (\<forall>v \<in> set w. \<forall>u. (u, v) \<in> set es \<longrightarrow> u \<in> set (concat pre)) \<and>
     (pre \<noteq> [] \<longrightarrow> (\<forall>v \<in> set w. \<exists>u \<in> set (last pre). (u, v) \<in> set es)))"

lemma layered_snoc:
  assumes "layered es ws" "w \<noteq> []" "sorted w"
    "\<And>u v. v \<in> set w \<Longrightarrow> (u, v) \<in> set es \<Longrightarrow> u \<in> set (concat ws)"
    "\<And>v. ws \<noteq> [] \<Longrightarrow> v \<in> set w \<Longrightarrow> \<exists>u \<in> set (last ws). (u, v) \<in> set es"
  shows "layered es (ws @ [w])"
  unfolding layered_def
proof (intro allI impI)
  fix pre x post assume eq: "ws @ [w] = pre @ x # post"
  show "x \<noteq> [] \<and> sorted x \<and> (\<forall>v \<in> set x. \<forall>u. (u, v) \<in> set es \<longrightarrow> u \<in> set (concat pre)) \<and>
     (pre \<noteq> [] \<longrightarrow> (\<forall>v \<in> set x. \<exists>u \<in> set (last pre). (u, v) \<in> set es))"
  proof (cases post rule: rev_cases)
    case Nil
    then have "pre = ws" "x = w" using eq by simp_all
    then show ?thesis using assms(2-5) by blast
  next
    case (snoc post' y)
    then have "ws = pre @ x # post'" using eq by simp
    then show ?thesis using assms(1) unfolding layered_def by blast
  qed
qed

lemma waves_loop_inv:
  assumes free: "dangling_free ids es"
    and "kahn_inv ids es indeg ready (concat ws)" "layered es ws" "sorted ready"
    and "ws \<noteq> [] \<Longrightarrow> \<forall>v \<in> set ready. \<exists>u \<in> set (last ws). (u, v) \<in> set es"
  shows "\<exists>ws' indeg'. waves_loop (build_dependents ids es) indeg ready ws = Some ws' \<and>
    kahn_inv ids es indeg' [] (concat ws') \<and> layered es ws'"
  using assms(2-)
proof (induction "build_dependents ids es" indeg ready ws rule: waves_loop.induct)
  case (1 indeg ready ws)
  show ?case
  proof (cases "ready = []")
    case True
    then show ?thesis using 1(2,3) by (auto simp: waves_loop.simps)
  next
    case False
    note inv = kahn_invD [OF 1(2)]
    obtain indeg' queue where step: "relax_wave (build_dependents ids es) ready indeg [] = Some (indeg', queue)"
      and inv': "kahn_inv ids es indeg' queue (concat ws @ ready)"
      using relax_wave_inv [OF free, of indeg ready "[]" "concat ws"] 1(2) by auto
    note post = kahn_invD [OF inv']
    have "layered es (ws @ [ready])"
    proof (rule layered_snoc [OF 1(3) False 1(4)])
      show "u \<in> set (concat ws)" if "v \<in> set ready" "(u, v) \<in> set es" for u v
        using that inv(2) [of v] by (auto simp: open_arcs_zero_iff)
    qed (use 1(5) in blast)
    moreover have "\<exists>u \<in> set ready. (u, v) \<in> set es" if "v \<in> set (sort queue)" for v
    proof -
      have v: "v \<in> set ids" "open_arcs es (set (concat ws @ ready)) v = 0" "v \<notin> set (concat ws @ ready)"
        using that post(1) post(2) [of v] by auto
      then have "open_arcs es (set (concat ws)) v \<noteq> 0" using inv(2) [of v] by (simp del: set_append set_concat)
      then obtain u where "(u, v) \<in> set es" "u \<notin> set (concat ws)" by (auto simp: open_arcs_zero_iff)
      with v(2) show ?thesis by (auto simp: open_arcs_zero_iff)
    qed
    moreover have "kahn_inv ids es indeg' (sort queue) (concat (ws @ [ready]))"
      using inv' by (simp add: kahn_inv_perm)
    ultimately show ?thesis
      using 1(1) [OF False step refl] step False by (simp add: waves_loop.simps [of _ indeg])
  qed
qed

lemma execution_order_layers:
  assumes "valid_graph (wg_ids g) (wg_arcs g)"
  shows "\<exists>ws. execution_order g = Some ws \<and> layered (wg_arcs g) ws \<and>
    topological (wg_ids g) (wg_arcs g) (concat ws)"
proof -
  let ?indeg = "build_in_degree (wg_ids g) (wg_arcs g)"
  from assms have free: "dangling_free (wg_ids g) (wg_arcs g)" and acyc: "\<not> cyclic (wg_ids g) (wg_arcs g)"
    by (auto simp: valid_graph_def)
  have "\<exists>ws' indeg'. waves_loop (build_dependents (wg_ids g) (wg_arcs g)) ?indeg (zero_degree ?indeg) [] =
      Some ws' \<and> kahn_inv (wg_ids g) (wg_arcs g) indeg' [] (concat ws') \<and> layered (wg_arcs g) ws'"
    by (rule waves_loop_inv [OF free]) (use kahn_inv_start [OF free] in \<open>simp_all add: layered_def zero_degree_def\<close>)
  then obtain ws indeg where ws: "waves_loop (build_dependents (wg_ids g) (wg_arcs g)) ?indeg (zero_degree ?indeg) [] = Some ws"
    and inv: "kahn_inv (wg_ids g) (wg_arcs g) indeg [] (concat ws)" and "layered (wg_arcs g) ws"
    by blast
  moreover have "topological (wg_ids g) (wg_arcs g) (concat ws)"
    using kahn_invD(1,4) [OF inv] kahn_inv_complete [OF inv acyc free] free
    by (intro topologicalI) simp_all
  ultimately show ?thesis
    using assms by (simp add: execution_order_def Let_def dr_validate_iff)
qed

section \<open>The trait\<close>

definition rg_preds :: "'f workflow_graph \<Rightarrow> string \<Rightarrow> string set" where
  "rg_preds g n = set (dependencies_of g n)"

definition rg_candidates :: "'f workflow_graph \<Rightarrow> string set \<Rightarrow> string set" where
  "rg_candidates g C = wn_node_id ` {n \<in> set (wg_nodes g). wn_status n = ''pending''}"

interpretation rg_ops: graph_operations wg_ids wg_arcs rg_preds rg_candidates dr_validate
  rg_topological_order rg_ready_nodes
proof unfold_locales
  show "topological (wg_ids g) (wg_arcs g) (rg_topological_order g)"
    if "fst (dr_validate g)" for g :: "'a workflow_graph"
    using execution_order_layers [of g] that by (auto simp: dr_validate_iff rg_topological_order_def)
  show "set (rg_ready_nodes g C) = {n \<in> rg_candidates g C. rg_preds g n \<subseteq> C}"
    for g :: "'a workflow_graph" and C
    by (auto simp: rg_ready_nodes_def rg_candidates_def rg_preds_def dependencies_of_def list_all_iff)
  show "sorted (rg_ready_nodes g C)" for g :: "'a workflow_graph" and C
    by (simp add: rg_ready_nodes_def)
  show "(p, n) \<in> set (wg_arcs g)" if "p \<in> rg_preds g n" for g :: "'a workflow_graph" and p n
    using that by (force simp: rg_preds_def dependencies_of_def)
  show "fst (dr_validate g) = (snd (dr_validate g) = [])" for g :: "'a workflow_graph"
    by (simp add: dr_validate_def Let_def)
qed (auto simp: dr_validate_iff rg_candidates_def)

section \<open>Example\<close>

definition demo_wnode :: "string \<Rightarrow> nat workflow_node" where
  "demo_wnode i = \<lparr>wn_schema_version = ''1'', wn_node_id = i, wn_workflow_id = ''w'', wn_task_type = ''t'',
     wn_assigned_agent_id = None, wn_status = ''pending'', wn_input_refs = [], wn_output_ref = None,
     wn_budget = 0, wn_cost_incurred = 0, wn_error = None, wn_created_at = [], wn_started_at = None,
     wn_completed_at = None\<rparr>"

definition demo_wedge :: "string \<Rightarrow> string \<Rightarrow> workflow_edge" where
  "demo_wedge u v = \<lparr>we_schema_version = ''1'', we_edge_id = u @ v, from_node_id = u, to_node_id = v,
     edge_type = ''dependency''\<rparr>"

text \<open>A diamond: \<open>d\<close> before \<open>b\<close> and \<open>c\<close>, both before \<open>a\<close>.\<close>

definition demo_graph :: "nat workflow_graph" where
  "demo_graph = \<lparr>wg_schema_version = ''1'', wg_workflow_id = ''w'', wg_dispatch_id = ''x'',
     wg_nodes = map demo_wnode [''a'', ''b'', ''c'', ''d''],
     wg_edges = [demo_wedge ''b'' ''a'', demo_wedge ''c'' ''a'', demo_wedge ''d'' ''b'', demo_wedge ''d'' ''c''],
     wg_status = ''created'', wg_created_at = [], wg_updated_at = [], wg_started_at = None,
     wg_completed_at = None, wg_result = None\<rparr>"

section \<open>Theorems\<close>

text \<open>The recursive cycle test of the resolver always returns, whatever the graph, and its
  answer is exact and the same for every order in which the hash map yields the nodes: true if and
  only if the declared nodes contain a cycle.\<close>

lemma resolver_cycle_exact:
  assumes "set order = set (wg_ids g)"
  shows "dr_has_cycle_in order g = Some (cyclic (wg_ids g) (wg_arcs g))"
  using dr_has_cycle_in_exact [OF assms] .

lemma resolver_cycle_exact_example:
  "set [''d'', ''a'', ''c'', ''b''] = set (wg_ids demo_graph) \<and>
   dr_has_cycle_in [''d'', ''a'', ''c'', ''b''] demo_graph = Some False \<and>
   \<not> cyclic (wg_ids demo_graph) (wg_arcs demo_graph)"
proof -
  have order: "set [''d'', ''a'', ''c'', ''b''] = set (wg_ids demo_graph)"
    and run: "dr_has_cycle_in [''d'', ''a'', ''c'', ''b''] demo_graph = Some False"
    by code_simp+
  then show ?thesis using resolver_cycle_exact [OF order] by simp
qed

text \<open>C13. The execution waves never hit the unsigned decrement of a zero degree, and the waves of a
  valid graph are an exact layering: together they list every node once, in an order where every
  edge goes forward, the nodes of a wave depend on earlier waves only, and every node after the
  first wave depends on one of the wave just before, so it could not run earlier. An invalid graph
  has no waves.\<close>

theorem execution_order_correct:
  "\<exists>ws. execution_order g = Some ws \<and> layered (wg_arcs g) ws \<and>
     (if valid_graph (wg_ids g) (wg_arcs g)
      then topological (wg_ids g) (wg_arcs g) (concat ws) else ws = [])"
  using execution_order_layers [of g]
  by (auto simp: execution_order_def dr_validate_iff layered_def)

text \<open>\<^verbatim>\<open>ResolvableGraph\<close> can be scheduled through the trait alone: following its order, every
  pending node is offered by \<^verbatim>\<open>ready_nodes\<close> once the nodes before it are completed.\<close>

lemma resolvable_schedule:
  assumes "valid_graph (wg_ids g) (wg_arcs g)" "rg_topological_order g = xs @ n # ys"
    and "\<exists>node \<in> set (wg_nodes g). wn_node_id node = n \<and> wn_status node = ''pending''"
  shows "n \<in> set (rg_ready_nodes g (set xs))"
  using rg_ops.order_schedules [of g xs n ys] assms by (auto simp: dr_validate_iff rg_candidates_def)

lemma resolvable_schedule_example:
  "''a'' \<in> set (rg_ready_nodes demo_graph (set [''d'', ''b'', ''c'']))"
proof (rule resolvable_schedule)
  show "valid_graph (wg_ids demo_graph) (wg_arcs demo_graph)"
    unfolding dr_validate_iff [symmetric] by code_simp
  show "rg_topological_order demo_graph = [''d'', ''b'', ''c''] @ ''a'' # []" by code_simp
  show "\<exists>node \<in> set (wg_nodes demo_graph). wn_node_id node = ''a'' \<and> wn_status node = ''pending''"
    by code_simp
qed

end
