(* ===== verification/Recursive_Budget.thy ===== *)
theory Recursive_Budget
  imports Harness_Prelude
begin

text \<open>
  \<^verbatim>\<open>RecursiveBudget\<close> of src/engine/src/recursive\_execution.rs: four \<^verbatim>\<open>u64\<close> dimensions with
  saturating addition and subtraction. \<open>bget\<close> reads a budget by dimension, so that every law below
  is one statement about all four.
\<close>

named_theorems budget_simps \<open>budget operations, dimension by dimension\<close>

record recursive_budget =
  calls_remaining :: nat
  tokens_remaining :: nat
  cost_micros_remaining :: nat
  time_ms_remaining :: nat

definition zero_budget :: recursive_budget where
  "zero_budget = \<lparr>calls_remaining = 0, tokens_remaining = 0, cost_micros_remaining = 0,
     time_ms_remaining = 0\<rparr>"

definition default_recursive_tree_budget :: recursive_budget where
  "default_recursive_tree_budget = \<lparr>calls_remaining = 12, tokens_remaining = 120000,
     cost_micros_remaining = 1000000, time_ms_remaining = 600000\<rparr>"

definition default_recursive_child_budget :: recursive_budget where
  "default_recursive_child_budget = \<lparr>calls_remaining = 1, tokens_remaining = 10000,
     cost_micros_remaining = 10000, time_ms_remaining = 60000\<rparr>"

definition can_spend :: "recursive_budget \<Rightarrow> recursive_budget \<Rightarrow> bool" where
  "can_spend b usage \<longleftrightarrow>
     calls_remaining b \<ge> calls_remaining usage \<and> tokens_remaining b \<ge> tokens_remaining usage \<and>
     cost_micros_remaining b \<ge> cost_micros_remaining usage \<and> time_ms_remaining b \<ge> time_ms_remaining usage"

definition spend :: "recursive_budget \<Rightarrow> recursive_budget \<Rightarrow> recursive_budget" where
  "spend b other = \<lparr>
     calls_remaining = saturating_sub (calls_remaining b) (calls_remaining other),
     tokens_remaining = saturating_sub (tokens_remaining b) (tokens_remaining other),
     cost_micros_remaining = saturating_sub (cost_micros_remaining b) (cost_micros_remaining other),
     time_ms_remaining = saturating_sub (time_ms_remaining b) (time_ms_remaining other)\<rparr>"

definition add_budget :: "recursive_budget \<Rightarrow> recursive_budget \<Rightarrow> recursive_budget" where
  "add_budget b other = \<lparr>
     calls_remaining = saturating_add (calls_remaining b) (calls_remaining other),
     tokens_remaining = saturating_add (tokens_remaining b) (tokens_remaining other),
     cost_micros_remaining = saturating_add (cost_micros_remaining b) (cost_micros_remaining other),
     time_ms_remaining = saturating_add (time_ms_remaining b) (time_ms_remaining other)\<rparr>"

definition bounded_by :: "recursive_budget \<Rightarrow> recursive_budget \<Rightarrow> recursive_budget" where
  "bounded_by b other = \<lparr>
     calls_remaining = min (calls_remaining b) (calls_remaining other),
     tokens_remaining = min (tokens_remaining b) (tokens_remaining other),
     cost_micros_remaining = min (cost_micros_remaining b) (cost_micros_remaining other),
     time_ms_remaining = min (time_ms_remaining b) (time_ms_remaining other)\<rparr>"

definition is_nonzero :: "recursive_budget \<Rightarrow> bool" where
  "is_nonzero b \<longleftrightarrow>
     calls_remaining b > 0 \<and> tokens_remaining b > 0 \<and> cost_micros_remaining b > 0 \<and>
     time_ms_remaining b > 0"

section \<open>Dimension by dimension\<close>

datatype dim = Calls | Tokens | Cost | Time

fun bget :: "recursive_budget \<Rightarrow> dim \<Rightarrow> nat" where
  "bget b Calls = calls_remaining b"
| "bget b Tokens = tokens_remaining b"
| "bget b Cost = cost_micros_remaining b"
| "bget b Time = time_ms_remaining b"

lemma all_dim: "(\<forall>d. P d) \<longleftrightarrow> P Calls \<and> P Tokens \<and> P Cost \<and> P Time"
  by (metis dim.exhaust)

lemma budget_eqI: "(\<And>d. bget b d = bget c d) \<Longrightarrow> b = c"
  by (metis bget.simps recursive_budget.equality unit_eq)

lemma bget_zero [budget_simps]: "bget zero_budget d = 0"
  by (cases d) (simp_all add: zero_budget_def)

lemma bget_spend [budget_simps]: "bget (spend b c) d = bget b d - bget c d"
  by (cases d) (simp_all add: spend_def)

lemma bget_add [budget_simps]: "bget (add_budget b c) d = saturating_add (bget b d) (bget c d)"
  by (cases d) (simp_all add: add_budget_def)

lemma bget_bounded [budget_simps]: "bget (bounded_by b c) d = min (bget b d) (bget c d)"
  by (cases d) (simp_all add: bounded_by_def)

lemma can_spend_iff [budget_simps]: "can_spend b c \<longleftrightarrow> (\<forall>d. bget c d \<le> bget b d)"
  by (simp add: all_dim can_spend_def)

lemma is_nonzero_iff [budget_simps]: "is_nonzero b \<longleftrightarrow> (\<forall>d. 0 < bget b d)"
  by (simp add: all_dim is_nonzero_def)

lemma budget_eq_iff: "b = c \<longleftrightarrow> (\<forall>d. bget b d = bget c d)"
  by (auto intro: budget_eqI)

text \<open>Budgets that fit their \<^verbatim>\<open>u64\<close> fields.\<close>

definition budget_u64 :: "recursive_budget \<Rightarrow> bool" where
  "budget_u64 b \<longleftrightarrow> (\<forall>d. bget b d \<le> u64_max)"

text \<open>Spending an affordable amount and adding it back restores the budget.\<close>

lemma spend_add_cancel:
  assumes "can_spend b c" "budget_u64 b"
  shows "add_budget (spend b c) c = b"
proof (rule budget_eqI)
  fix d
  have "bget c d \<le> bget b d" "bget b d \<le> u64_max"
    using assms by (simp_all add: budget_simps budget_u64_def)
  then show "bget (add_budget (spend b c) c) d = bget b d"
    by (simp add: budget_simps saturating_add_exact)
qed

end
