(* ===== verification/Rust_Text.thy ===== *)
theory Rust_Text
  imports Harness_Prelude
begin

text \<open>
  The text operations of the Rust standard library that the components use, on the characters
  U+0000 to U+00FF: byte lengths, character classes, ASCII case, and splitting at white space.
\<close>

text \<open>\<^verbatim>\<open>str::len\<close>: the number of UTF-8 bytes.\<close>

definition utf8_len :: "string \<Rightarrow> nat" where
  "utf8_len s = sum_list (map (\<lambda>c. if (of_char c :: nat) < 128 then 1 else 2) s)"

definition char_in :: "char \<Rightarrow> nat \<Rightarrow> nat \<Rightarrow> bool" where
  "char_in c lo hi \<longleftrightarrow> lo \<le> (of_char c :: nat) \<and> (of_char c :: nat) \<le> hi"

text \<open>\<^verbatim>\<open>char::is_whitespace\<close>: the White\_Space property.\<close>

definition is_whitespace :: "char \<Rightarrow> bool" where
  "is_whitespace c \<longleftrightarrow> char_in c 9 13 \<or> char_in c 32 32 \<or> char_in c 133 133 \<or> char_in c 160 160"

text \<open>\<^verbatim>\<open>char::is_alphanumeric\<close>: the Alphabetic property or a numeric general category.\<close>

definition is_alphabetic :: "char \<Rightarrow> bool" where
  "is_alphabetic c \<longleftrightarrow> char_in c 65 90 \<or> char_in c 97 122 \<or> char_in c 170 170 \<or> char_in c 181 181 \<or>
     char_in c 186 186 \<or> char_in c 192 214 \<or> char_in c 216 246 \<or> char_in c 248 255"

definition is_numeric :: "char \<Rightarrow> bool" where
  "is_numeric c \<longleftrightarrow> char_in c 48 57 \<or> char_in c 178 179 \<or> char_in c 185 185 \<or> char_in c 188 190"

definition is_alphanumeric :: "char \<Rightarrow> bool" where
  "is_alphanumeric c \<longleftrightarrow> is_alphabetic c \<or> is_numeric c"

definition to_ascii_lowercase :: "char \<Rightarrow> char" where
  "to_ascii_lowercase c = (if char_in c 65 90 then char_of ((of_char c :: nat) + 32) else c)"

definition eq_ignore_ascii_case :: "string \<Rightarrow> string \<Rightarrow> bool" where
  "eq_ignore_ascii_case s t \<longleftrightarrow> map to_ascii_lowercase s = map to_ascii_lowercase t"

text \<open>\<^verbatim>\<open>str::split_whitespace\<close>; the first argument is the word being read, reversed.\<close>

fun split_words :: "string \<Rightarrow> string \<Rightarrow> string list" where
  "split_words w [] = (if w = [] then [] else [rev w])"
| "split_words w (c # cs) =
     (if is_whitespace c then (if w = [] then split_words [] cs else rev w # split_words [] cs)
      else split_words (c # w) cs)"

definition split_whitespace :: "string \<Rightarrow> string list" where
  "split_whitespace s = split_words [] s"

text \<open>\<^verbatim>\<open>join(" ")\<close>.\<close>

fun join_words :: "string list \<Rightarrow> string" where
  "join_words [] = []"
| "join_words [w] = w"
| "join_words (w # ws) = w @ CHR '' '' # join_words ws"

section \<open>Lemmas\<close>

lemma space_whitespace [simp]: "is_whitespace CHR '' ''"
  by (simp add: is_whitespace_def char_in_def)

lemma of_lowercase: "char_in c 65 90 \<Longrightarrow> (of_char (to_ascii_lowercase c) :: nat) = of_char c + 32"
  by (simp add: to_ascii_lowercase_def char_in_def)

lemma lowercase_idem [simp]: "to_ascii_lowercase (to_ascii_lowercase c) = to_ascii_lowercase c"
proof (cases "char_in c 65 90")
  case True
  then have "\<not> char_in (to_ascii_lowercase c) 65 90"
    using of_lowercase [OF True] by (simp add: char_in_def)
  then show ?thesis by (simp add: to_ascii_lowercase_def [of "to_ascii_lowercase c"])
qed (simp add: to_ascii_lowercase_def)

lemma is_whitespace_lowercase [simp]: "is_whitespace (to_ascii_lowercase c) \<longleftrightarrow> is_whitespace c"
proof (cases "char_in c 65 90")
  case True
  then have "\<not> is_whitespace c" by (simp add: is_whitespace_def char_in_def)
  moreover have "\<not> is_whitespace (to_ascii_lowercase c)"
    using True by (simp add: is_whitespace_def char_in_def of_lowercase [OF True])
  ultimately show ?thesis by simp
qed (simp add: to_ascii_lowercase_def)

lemma is_alphanumeric_lowercase [simp]: "is_alphanumeric (to_ascii_lowercase c) \<longleftrightarrow> is_alphanumeric c"
proof (cases "char_in c 65 90")
  case True
  then have "is_alphabetic c" by (simp add: is_alphabetic_def)
  moreover have "char_in (to_ascii_lowercase c) 97 122"
    using True by (simp add: char_in_def of_lowercase [OF True])
  then have "is_alphabetic (to_ascii_lowercase c)" by (simp add: is_alphabetic_def)
  ultimately show ?thesis by (simp add: is_alphanumeric_def)
qed (simp add: to_ascii_lowercase_def)

definition is_word :: "string \<Rightarrow> bool" where
  "is_word w \<longleftrightarrow> w \<noteq> [] \<and> (\<forall>c \<in> set w. \<not> is_whitespace c)"

lemma split_words_are_words:
  "(\<forall>c \<in> set w. \<not> is_whitespace c) \<Longrightarrow> \<forall>x \<in> set (split_words w s). is_word x"
proof (induction w s rule: split_words.induct)
  case (2 w c cs)
  then show ?case by (cases "is_whitespace c"; cases "w = []") (simp_all add: is_word_def)
qed (simp add: is_word_def)

lemma split_whitespace_words: "x \<in> set (split_whitespace s) \<Longrightarrow> is_word x"
  using split_words_are_words [of "[]" s] by (simp add: split_whitespace_def)

lemma split_words_chars: "x \<in> set (split_words w s) \<Longrightarrow> set x \<subseteq> set w \<union> set s"
  by (induction w s rule: split_words.induct) (auto split: if_splits)

lemma split_whitespace_chars: "x \<in> set (split_whitespace s) \<Longrightarrow> set x \<subseteq> set s"
  using split_words_chars [of x "[]" s] by (simp add: split_whitespace_def)

lemma split_words_append:
  "(\<forall>c \<in> set w. \<not> is_whitespace c) \<Longrightarrow> split_words v (w @ s) = split_words (rev w @ v) s"
  by (induction w arbitrary: v) auto

text \<open>Splitting a joined list of words gives the words back.\<close>

lemma split_join_words: "\<forall>w \<in> set ws. is_word w \<Longrightarrow> split_whitespace (join_words ws) = ws"
proof (induction ws rule: join_words.induct)
  case 1
  then show ?case by (simp add: split_whitespace_def)
next
  case (2 w)
  then show ?case
    using split_words_append [of w "[]" "[]"] by (simp add: split_whitespace_def is_word_def)
next
  case (3 w v ws)
  then show ?case
    using split_words_append [of w "[]" "CHR '' '' # join_words (v # ws)"]
    by (simp add: split_whitespace_def is_word_def)
qed

end
