(* ===== verification/Recursive_Policy.thy ===== *)
theory Recursive_Policy
  imports Recursive_Budget Rust_Text
begin

text \<open>
  The policy vocabulary of src/engine/src/recursive\_execution.rs: limits, states and failure
  reasons, scopes, usage contracts, and the identity of an objective. SHA-256 with hexadecimal
  encoding, the JSON serialisation of two records and the process environment are not code of the
  repository; they are the fields of \<open>platform\<close>, an argument of every operation that uses them.
\<close>

section \<open>Limits\<close>

definition MAX_RECURSIVE_DEPTH :: nat where "MAX_RECURSIVE_DEPTH = 2"
definition MAX_ACCEPTED_CHILDREN_PER_NODE :: nat where "MAX_ACCEPTED_CHILDREN_PER_NODE = 3"
definition MAX_RECURSIVE_NODES_PER_ROOT :: nat where "MAX_RECURSIVE_NODES_PER_ROOT = 12"
definition MAX_RECURSIVE_LEASES :: nat where "MAX_RECURSIVE_LEASES = 3"
definition MAX_RECURSIVE_RETRIES :: nat where "MAX_RECURSIVE_RETRIES = 1"
definition MAX_OBJECTIVE_BYTES :: nat where "MAX_OBJECTIVE_BYTES = 4096"
definition MAX_CONTEXT_BYTES :: nat where "MAX_CONTEXT_BYTES = 8192"

lemma text_caps_code [code_unfold]:
  "n \<le> MAX_OBJECTIVE_BYTES \<longleftrightarrow> int n \<le> 4096" "n \<le> MAX_CONTEXT_BYTES \<longleftrightarrow> int n \<le> 8192"
  by (simp_all add: MAX_OBJECTIVE_BYTES_def MAX_CONTEXT_BYTES_def)

lemmas recursive_limits =
  MAX_RECURSIVE_DEPTH_def MAX_ACCEPTED_CHILDREN_PER_NODE_def MAX_RECURSIVE_NODES_PER_ROOT_def
  MAX_RECURSIVE_LEASES_def MAX_RECURSIVE_RETRIES_def

definition RECURSIVE_SCHEMA_VERSION :: string where "RECURSIVE_SCHEMA_VERSION = ''recursive_execution.v1''"
definition OBJECTIVE_IDENTITY_VERSION :: string where "OBJECTIVE_IDENTITY_VERSION = ''recursive-objective.v2''"

definition RECURSIVE_NON_HERITABLE_CAPABILITIES :: "string list" where
  "RECURSIVE_NON_HERITABLE_CAPABILITIES = [''handoff'']"

definition heritable_recursive_capabilities :: "string set \<Rightarrow> string set" where
  "heritable_recursive_capabilities capabilities =
     {c \<in> capabilities. c \<notin> set RECURSIVE_NON_HERITABLE_CAPABILITIES}"

section \<open>States and reasons\<close>

datatype recursive_execution_state =
  Running | Completed | OperatorPaused | BudgetExhausted | KillStopped | TerminalFailed

datatype recursive_failure_reason =
    RecursiveDisabled
  | DepthExceeded
  | ChildLimitExceeded
  | TreeBudgetExhausted
  | DuplicateObjective
  | AncestorCycle
  | CapabilityEscalation
  | ScopeMismatch
  | StaleParent
  | ProposalConflict
  | ReceiptConflict
  | SchedulerCapacityExhausted
  | RecursiveKillSwitchActive
  | ReasonOperatorPaused
  | ReasonTerminalFailed
  | ExecutionFailure
  | RetryExhausted
  | RecursiveTreeMissing
  | RecursiveNodeMissing
  | RecursiveUsageUnavailable
  | FixtureUsageContractMissing
  | FixtureUsageContractInvalid
  | RecursiveNodeIdentityMalformed

fun reason_str :: "recursive_failure_reason \<Rightarrow> string" where
  "reason_str RecursiveDisabled = ''recursive_disabled''"
| "reason_str DepthExceeded = ''depth_exceeded''"
| "reason_str ChildLimitExceeded = ''child_limit_exceeded''"
| "reason_str TreeBudgetExhausted = ''tree_budget_exhausted''"
| "reason_str DuplicateObjective = ''duplicate_objective''"
| "reason_str AncestorCycle = ''ancestor_cycle''"
| "reason_str CapabilityEscalation = ''capability_escalation''"
| "reason_str ScopeMismatch = ''scope_mismatch''"
| "reason_str StaleParent = ''stale_parent''"
| "reason_str ProposalConflict = ''proposal_conflict''"
| "reason_str ReceiptConflict = ''receipt_conflict''"
| "reason_str SchedulerCapacityExhausted = ''scheduler_capacity_exhausted''"
| "reason_str RecursiveKillSwitchActive = ''recursive_kill_switch_active''"
| "reason_str ReasonOperatorPaused = ''operator_paused''"
| "reason_str ReasonTerminalFailed = ''terminal_failed''"
| "reason_str ExecutionFailure = ''recursive_node_execution_failed''"
| "reason_str RetryExhausted = ''recursive_retry_exhausted''"
| "reason_str RecursiveTreeMissing = ''recursive_tree_missing''"
| "reason_str RecursiveNodeMissing = ''recursive_node_missing''"
| "reason_str RecursiveUsageUnavailable = ''recursive_usage_unavailable''"
| "reason_str FixtureUsageContractMissing = ''fixture_usage_contract_missing''"
| "reason_str FixtureUsageContractInvalid = ''fixture_usage_contract_invalid''"
| "reason_str RecursiveNodeIdentityMalformed = ''recursive_node_identity_malformed''"

definition ALL_REASONS :: "recursive_failure_reason list" where
  "ALL_REASONS =
    [RecursiveDisabled, DepthExceeded, ChildLimitExceeded, TreeBudgetExhausted, DuplicateObjective,
     AncestorCycle, CapabilityEscalation, ScopeMismatch, StaleParent, ProposalConflict,
     ReceiptConflict, SchedulerCapacityExhausted, RecursiveKillSwitchActive, ReasonOperatorPaused,
     ReasonTerminalFailed, ExecutionFailure, RetryExhausted, RecursiveTreeMissing,
     RecursiveNodeMissing, RecursiveUsageUnavailable, FixtureUsageContractMissing,
     FixtureUsageContractInvalid, RecursiveNodeIdentityMalformed]"

definition code_for_error :: "string \<Rightarrow> string option" where
  "code_for_error error =
     List.find (\<lambda>code. error = code \<or> starts_with error (code @ '':'')) (map reason_str ALL_REASONS)"

datatype recursive_node_status = Ready | Leased | NodeCompleted | NodeFailed

fun status_str :: "recursive_node_status \<Rightarrow> string" where
  "status_str Ready = ''ready''"
| "status_str Leased = ''leased''"
| "status_str NodeCompleted = ''completed''"
| "status_str NodeFailed = ''failed''"

section \<open>Usage contracts and scopes\<close>

datatype recursive_usage_contract =
    Fixture (fx_calls: nat) (fx_tokens: nat) (fx_cost_micros: nat) (fx_time_ms: nat)
  | Measured
  | Unavailable

fun fixture_usage :: "recursive_usage_contract \<Rightarrow> recursive_budget option" where
  "fixture_usage (Fixture calls tokens cost_micros time_ms) =
     Some \<lparr>calls_remaining = calls, tokens_remaining = tokens, cost_micros_remaining = cost_micros,
           time_ms_remaining = time_ms\<rparr>"
| "fixture_usage Measured = None"
| "fixture_usage Unavailable = None"

record recursive_scope =
  repository :: "string option"
  allowed_paths :: "string set"
  scope_capabilities :: "string set"

definition is_subset_of :: "recursive_scope \<Rightarrow> recursive_scope \<Rightarrow> bool" where
  "is_subset_of s parent \<longleftrightarrow>
     repository s = repository parent \<and> allowed_paths s \<subseteq> allowed_paths parent \<and>
     scope_capabilities s \<subseteq> scope_capabilities parent"

section \<open>Objectives\<close>

definition objective_char :: "char \<Rightarrow> char" where
  "objective_char c = (if is_alphanumeric c \<or> is_whitespace c then to_ascii_lowercase c else CHR '' '')"

definition stop_words :: "string list" where
  "stop_words = [''a'', ''an'', ''the'', ''to'', ''please'']"

definition synonym :: "string \<Rightarrow> string" where
  "synonym token =
     (if token = ''inspect'' \<or> token = ''examine'' \<or> token = ''check'' then ''review''
      else if token = ''documentation'' then ''docs'' else token)"

definition normalize_objective :: "string \<Rightarrow> string" where
  "normalize_objective objective =
     join_words (map synonym (filter (\<lambda>token. token \<notin> set stop_words)
       (split_whitespace (map objective_char objective))))"

record recursive_objective_identity =
  oi_version :: string
  oi_intent :: string
  oi_subject :: string
  oi_qualifiers :: "string list"

text \<open>
  What the operations take from outside the repository: \<open>sha256_hex\<close> is \<^verbatim>\<open>hex::encode\<close> of
  \<^verbatim>\<open>Sha256\<close> over the UTF-8 bytes of a text, \<open>identity_json\<close> and \<open>usage_json\<close> are the serialisations
  of an objective identity and of a budget (the latter may fail), \<open>env_var\<close> is the environment.
\<close>

record platform =
  env_var :: "string \<Rightarrow> string option"
  sha256_hex :: "string \<Rightarrow> string"
  identity_json :: "recursive_objective_identity \<Rightarrow> string"
  usage_json :: "recursive_budget \<Rightarrow> string option"

definition objective_identity :: "string \<Rightarrow> recursive_objective_identity" where
  "objective_identity objective =
     (let tokens = split_whitespace (normalize_objective objective)
      in \<lparr>oi_version = OBJECTIVE_IDENTITY_VERSION,
          oi_intent = (case tokens of [] \<Rightarrow> [] | t # _ \<Rightarrow> t),
          oi_subject = (case tokens of _ # t # _ \<Rightarrow> t | _ \<Rightarrow> []),
          oi_qualifiers = drop 2 tokens\<rparr>)"

definition objective_fingerprint :: "platform \<Rightarrow> string \<Rightarrow> string" where
  "objective_fingerprint pf objective = sha256_hex pf (identity_json pf (objective_identity objective))"

definition nul :: char where "nul = CHR 0x00"

definition derived_node_id :: "platform \<Rightarrow> string \<Rightarrow> string \<Rightarrow> string \<Rightarrow> string" where
  "derived_node_id pf root_run_id proposal_id fingerprint =
     ''recursive-'' @ sha256_hex pf (root_run_id @ [nul] @ proposal_id @ [nul] @ fingerprint)"

definition flag_set :: "platform \<Rightarrow> string \<Rightarrow> bool" where
  "flag_set pf name = (case env_var pf name of None \<Rightarrow> False
     | Some value \<Rightarrow> value = ''1'' \<or> eq_ignore_ascii_case value ''true'')"

definition recursive_enabled :: "platform \<Rightarrow> bool" where
  "recursive_enabled pf = flag_set pf ''ACP_RECURSIVE_EXECUTION_ENABLED''"

definition kill_switch_active :: "platform \<Rightarrow> bool" where
  "kill_switch_active pf = flag_set pf ''ACP_RECURSIVE_EXECUTION_KILL_SWITCH''"

section \<open>Normalisation is stable\<close>

lemma objective_char_class:
  "is_alphanumeric (objective_char c) \<or> is_whitespace (objective_char c)"
  by (simp add: objective_char_def)

lemma objective_char_idem: "objective_char (objective_char c) = objective_char c"
  by (auto simp: objective_char_def to_ascii_lowercase_def [of "CHR '' ''"] char_in_def)

definition normal_token :: "string \<Rightarrow> bool" where
  "normal_token t \<longleftrightarrow> is_word t \<and> map objective_char t = t \<and> t \<notin> set stop_words \<and> synonym t = t"

lemma synonym_normal:
  assumes "is_word w" "map objective_char w = w" "w \<notin> set stop_words"
  shows "normal_token (synonym w)"
proof (cases "synonym w = w")
  case True
  with assms show ?thesis by (simp add: normal_token_def)
next
  case False
  then have "synonym w = ''review'' \<or> synonym w = ''docs''"
    by (auto simp: synonym_def split: if_splits)
  moreover have "normal_token ''review''" "normal_token ''docs''" by code_simp+
  ultimately show ?thesis by auto
qed

lemma normalize_tokens:
  "\<exists>ts. normalize_objective s = join_words ts \<and> (\<forall>t \<in> set ts. normal_token t)"
proof -
  let ?ws = "split_whitespace (map objective_char s)"
  let ?ts = "map synonym (filter (\<lambda>token. token \<notin> set stop_words) ?ws)"
  have "normal_token (synonym w)" if "w \<in> set ?ws" "w \<notin> set stop_words" for w
  proof (rule synonym_normal [OF split_whitespace_words [OF that(1)] _ that(2)])
    have "set w \<subseteq> objective_char ` set s"
      using split_whitespace_chars [OF that(1)] by simp
    then show "map objective_char w = w"
      by (intro map_idI) (auto simp: objective_char_idem)
  qed
  then have "\<forall>t \<in> set ?ts. normal_token t" by auto
  then show ?thesis unfolding normalize_objective_def by blast
qed

lemma objective_char_space [simp]: "objective_char CHR '' '' = CHR '' ''"
  by code_simp

lemma map_objective_char_join:
  "\<forall>t \<in> set ts. map objective_char t = t \<Longrightarrow> map objective_char (join_words ts) = join_words ts"
  by (induction ts rule: join_words.induct) auto

lemma normalize_join_normal:
  assumes "\<forall>t \<in> set ts. normal_token t"
  shows "normalize_objective (join_words ts) = join_words ts"
proof -
  have "map objective_char (join_words ts) = join_words ts"
    using assms by (intro map_objective_char_join) (simp add: normal_token_def)
  moreover have "split_whitespace (join_words ts) = ts"
    using assms by (intro split_join_words) (simp add: normal_token_def)
  moreover have "filter (\<lambda>token. token \<notin> set stop_words) ts = ts"
    using assms by (auto simp: normal_token_def filter_id_conv)
  moreover have "map synonym ts = ts"
    using assms by (intro map_idI) (simp add: normal_token_def)
  ultimately show ?thesis by (simp add: normalize_objective_def)
qed

lemma normalize_idem: "normalize_objective (normalize_objective s) = normalize_objective s"
  using normalize_tokens [of s] normalize_join_normal by auto

section \<open>Reason codes\<close>

lemma no_colon: "CHR '':'' \<notin> set (reason_str r)"
  by (cases r) simp_all

lemma ALL_REASONS_complete: "r \<in> set ALL_REASONS"
  by (cases r) (simp_all add: ALL_REASONS_def)

lemma code_prefix_unique:
  assumes "reason_str r @ '':'' @ d = reason_str q @ '':'' @ e"
  shows "reason_str r = reason_str q"
proof -
  have "takeWhile (\<lambda>c. c \<noteq> CHR '':'') (reason_str x @ '':'' @ y) = reason_str x" for x y
    using no_colon [of x] by (subst takeWhile_append2) auto
  then show ?thesis using assms by metis
qed

lemma find_SomeD: "List.find P xs = Some x \<Longrightarrow> x \<in> set xs \<and> P x"
  by (auto simp: find_Some_iff)

lemma find_unique:
  assumes "x \<in> set xs" "P x" "\<And>y. y \<in> set xs \<Longrightarrow> P y \<Longrightarrow> y = x"
  shows "List.find P xs = Some x"
proof -
  have "List.find P xs \<noteq> None" using assms(1,2) by (auto simp: find_None_iff)
  then obtain y where y: "List.find P xs = Some y" by blast
  with find_SomeD [OF y] assms(3) show ?thesis by blast
qed

section \<open>Theorems\<close>

text \<open>Normalising an objective is stable, and an objective and its normal form have the same
  identity and the same fingerprint: spelling, case, punctuation, spacing, filler words and the
  listed synonyms cannot be used to disguise a repeated objective, whatever the hash and the
  serialisation are.\<close>

lemma objective_identity_stable:
  "normalize_objective (normalize_objective s) = normalize_objective s \<and>
   objective_identity (normalize_objective s) = objective_identity s \<and>
   objective_fingerprint pf (normalize_objective s) = objective_fingerprint pf s"
  by (simp add: objective_identity_def objective_fingerprint_def normalize_idem)

text \<open>Classification of error strings is exact: every reason is recognised from its bare code
  and from the form \<^verbatim>\<open>code: detail\<close> with any detail, nothing else is recognised, and the codes of
  different reasons are never confused.\<close>

lemma code_for_error_exact:
  "code_for_error e = Some c \<longleftrightarrow> (\<exists>r. c = reason_str r \<and> (e = c \<or> (\<exists>d. e = c @ '':'' @ d)))"
proof
  assume "code_for_error e = Some c"
  then have "c \<in> set (map reason_str ALL_REASONS)" "e = c \<or> starts_with e (c @ '':'')"
    unfolding code_for_error_def by (blast dest: find_SomeD)+
  then show "\<exists>r. c = reason_str r \<and> (e = c \<or> (\<exists>d. e = c @ '':'' @ d))"
    by (auto simp: starts_with_iff)
next
  assume "\<exists>r. c = reason_str r \<and> (e = c \<or> (\<exists>d. e = c @ '':'' @ d))"
  then obtain r where c: "c = reason_str r" and e: "e = c \<or> (\<exists>d. e = c @ '':'' @ d)" by blast
  show "code_for_error e = Some c"
    unfolding code_for_error_def
  proof (rule find_unique)
    show "c \<in> set (map reason_str ALL_REASONS)" using c ALL_REASONS_complete by auto
    show "e = c \<or> starts_with e (c @ '':'')" using e by (auto simp: starts_with_iff)
    show "y = c" if y: "y \<in> set (map reason_str ALL_REASONS)" "e = y \<or> starts_with e (y @ '':'')" for y
    proof -
      obtain q where q: "y = reason_str q" using y(1) by auto
      have "e = y \<or> (\<exists>d. e = y @ '':'' @ d)" using y(2) by (auto simp: starts_with_iff)
      then show ?thesis
      proof
        assume "e = y"
        with e show ?thesis using no_colon [of q] q by auto
      next
        assume "\<exists>d. e = y @ '':'' @ d"
        then obtain d where d: "e = y @ '':'' @ d" by blast
        have "CHR '':'' \<in> set e" unfolding d by simp
        then have "e \<noteq> c" using no_colon [of r] c by blast
        with e obtain d' where "e = c @ '':'' @ d'" by blast
        with d c q show ?thesis using code_prefix_unique by metis
      qed
    qed
  qed
qed

end
