(* ===== verification/Recursive_Tree.thy ===== *)
theory Recursive_Tree
  imports Recursive_Policy
begin

text \<open>
  \<^verbatim>\<open>RecursiveTree\<close> of src/engine/src/recursive\_execution.rs with every operation that changes it.
  A method that can fail returns a \<open>result\<close>; the methods of the source check before they write, so an
  error leaves the tree as it was (\<open>bind_root_execution_scope\<close> is the one exception and returns the
  tree in both cases). \<^verbatim>\<open>BTreeSet\<close> is a set, \<^verbatim>\<open>BTreeMap\<close> a sorted association list. Versions are
  \<^verbatim>\<open>u64\<close> counters that wrap; depths, child counts and retry counts stay within their guards and do
  not overflow. The walk up the parent chain in \<open>finalize_terminal_tree\<close> carries fuel; the
  number of nodes and the depth limit together are enough in every well-formed tree.
\<close>

section \<open>Data\<close>

record recursive_proposal =
  rp_proposal_id :: string
  rp_parent_node_id :: string
  rp_parent_version :: nat
  rp_objective :: string
  rp_context_summary :: string
  rp_requested_scope :: recursive_scope
  rp_requested_capabilities :: "string set"
  rp_budget :: recursive_budget
  rp_receipt_sha256 :: string

record recursive_node =
  rn_node_id :: string
  rn_root_run_id :: string
  rn_parent_node_id :: "string option"
  rn_proposal_id :: "string option"
  rn_depth :: nat
  rn_objective_fingerprint :: string
  rn_ancestor_fingerprints :: "string list"
  rn_scope :: recursive_scope
  rn_capabilities :: "string set"
  rn_tenant_id :: "string option"
  rn_workspace_id :: "string option"
  rn_budget :: recursive_budget
  rn_budget_limit :: recursive_budget
  rn_child_budget :: recursive_budget
  rn_child_budget_limit :: recursive_budget
  rn_reservation :: recursive_budget
  rn_actual_usage :: recursive_budget
  rn_status :: recursive_node_status
  rn_accepted_children :: nat
  rn_retry_count :: nat
  rn_version :: nat
  rn_lease_id :: "string option"
  rn_failure_reason :: "recursive_failure_reason option"
  rn_evidence_refs :: "string list"

record recursive_decision_evidence =
  rde_reason_code :: recursive_failure_reason
  rde_evidence_refs :: "string list"

record recursive_tree =
  rt_schema_version :: string
  rt_root_run_id :: string
  rt_workflow_id :: string
  rt_root_node_id :: string
  rt_root_agent_id :: string
  rt_root_recursive_marker :: string
  rt_root_creation_receipt_sha256 :: string
  rt_root_scope :: recursive_scope
  rt_root_capabilities :: "string set"
  rt_root_tenant_id :: "string option"
  rt_root_workspace_id :: "string option"
  rt_root_budget :: recursive_budget
  rt_root_budget_limit :: "recursive_budget option"
  rt_root_child_budget_limit :: "recursive_budget option"
  rt_spent_budget :: recursive_budget
  rt_reserved_budget :: recursive_budget
  rt_execution_state :: recursive_execution_state
  rt_version :: nat
  rt_nodes :: "(string, recursive_node) btree_map"
  rt_accepted_proposals :: "string set"
  rt_receipts :: "(string, string) btree_map"
  rt_active_leases :: "string set"
  rt_rejected_proposals :: "(string, recursive_decision_evidence) btree_map"
  rt_usage_receipts :: "(string, string) btree_map"

record recursive_admission =
  ra_node :: recursive_node
  ra_parent_version :: nat

section \<open>Creation and binding\<close>

definition root_node :: "platform \<Rightarrow> string \<Rightarrow> string \<Rightarrow> string \<Rightarrow> recursive_scope \<Rightarrow> string set \<Rightarrow>
    recursive_budget \<Rightarrow> recursive_node" where
  "root_node pf root_run_id node_id objective scope capabilities budget =
     \<lparr>rn_node_id = node_id, rn_root_run_id = root_run_id, rn_parent_node_id = None,
      rn_proposal_id = None, rn_depth = 0,
      rn_objective_fingerprint = objective_fingerprint pf objective, rn_ancestor_fingerprints = [],
      rn_scope = scope\<lparr>scope_capabilities := capabilities\<rparr>, rn_capabilities = capabilities,
      rn_tenant_id = None, rn_workspace_id = None, rn_budget = budget, rn_budget_limit = budget,
      rn_child_budget = budget, rn_child_budget_limit = budget, rn_reservation = zero_budget,
      rn_actual_usage = zero_budget, rn_status = Ready, rn_accepted_children = 0, rn_retry_count = 0,
      rn_version = 1, rn_lease_id = None, rn_failure_reason = None, rn_evidence_refs = []\<rparr>"

definition new_with_root_node_id :: "platform \<Rightarrow> string \<Rightarrow> string \<Rightarrow> string \<Rightarrow> string \<Rightarrow> recursive_scope \<Rightarrow>
    string set \<Rightarrow> recursive_budget \<Rightarrow> recursive_tree" where
  "new_with_root_node_id pf root_run_id workflow_id node_id objective scope capabilities budget =
     \<lparr>rt_schema_version = RECURSIVE_SCHEMA_VERSION, rt_root_run_id = root_run_id,
      rt_workflow_id = workflow_id, rt_root_node_id = node_id, rt_root_agent_id = [],
      rt_root_recursive_marker = [], rt_root_creation_receipt_sha256 = [],
      rt_root_scope = scope\<lparr>scope_capabilities := capabilities\<rparr>, rt_root_capabilities = capabilities,
      rt_root_tenant_id = None, rt_root_workspace_id = None, rt_root_budget = budget,
      rt_root_budget_limit = Some budget, rt_root_child_budget_limit = Some budget,
      rt_spent_budget = zero_budget, rt_reserved_budget = zero_budget, rt_execution_state = Running,
      rt_version = 1,
      rt_nodes = bt_put node_id (root_node pf root_run_id node_id objective scope capabilities budget) [],
      rt_accepted_proposals = {}, rt_receipts = [], rt_active_leases = {}, rt_rejected_proposals = [],
      rt_usage_receipts = []\<rparr>"

definition recursive_tree_new :: "platform \<Rightarrow> string \<Rightarrow> string \<Rightarrow> string \<Rightarrow> recursive_scope \<Rightarrow> string set \<Rightarrow>
    recursive_budget \<Rightarrow> recursive_tree" where
  "recursive_tree_new pf root_run_id workflow_id objective scope capabilities budget =
     (let fingerprint = objective_fingerprint pf objective;
          node_id = ''recursive-root-'' @ take 24 (sha256_hex pf (root_run_id @ [nul] @ fingerprint))
      in new_with_root_node_id pf root_run_id workflow_id node_id objective scope capabilities budget)"

definition bind_root_identity :: "recursive_tree \<Rightarrow> string \<Rightarrow> string \<Rightarrow> string \<Rightarrow>
    (recursive_failure_reason, recursive_tree) result" where
  "bind_root_identity t agent_id recursive_marker creation_receipt_sha256 =
     (let matches_or_empty = (\<lambda>existing value. existing = [] \<or> existing = value)
      in if agent_id = [] \<or> recursive_marker = [] \<or> creation_receipt_sha256 = [] then Err ReceiptConflict
         else if \<not> matches_or_empty (rt_root_agent_id t) agent_id \<or>
           \<not> matches_or_empty (rt_root_recursive_marker t) recursive_marker \<or>
           \<not> matches_or_empty (rt_root_creation_receipt_sha256 t) creation_receipt_sha256
         then Err ReceiptConflict
         else Ok (t\<lparr>rt_root_agent_id := agent_id, rt_root_recursive_marker := recursive_marker,
                    rt_root_creation_receipt_sha256 := creation_receipt_sha256\<rparr>))"

definition bind_root_execution_scope :: "recursive_tree \<Rightarrow> string option \<Rightarrow> string option \<Rightarrow>
    (recursive_failure_reason, unit) result \<times> recursive_tree" where
  "bind_root_execution_scope t tenant_id workspace_id =
     (if (rt_root_tenant_id t \<noteq> None \<and> rt_root_tenant_id t \<noteq> tenant_id) \<or>
         (rt_root_workspace_id t \<noteq> None \<and> rt_root_workspace_id t \<noteq> workspace_id)
      then (Err ReceiptConflict, t)
      else
        let t1 = t\<lparr>rt_root_tenant_id := tenant_id, rt_root_workspace_id := workspace_id\<rparr>
        in if bt_get (rt_nodes t1) (rt_root_node_id t1) = None then (Err RecursiveNodeMissing, t1)
           else (Ok (), t1\<lparr>rt_nodes := bt_modify (rt_root_node_id t1)
                  (\<lambda>root. root\<lparr>rn_tenant_id := tenant_id, rn_workspace_id := workspace_id\<rparr>) (rt_nodes t1)\<rparr>))"

section \<open>Admission\<close>

definition shape_is_valid :: "recursive_proposal \<Rightarrow> bool" where
  "shape_is_valid p \<longleftrightarrow>
     rp_proposal_id p \<noteq> [] \<and> rp_parent_node_id p \<noteq> [] \<and> rp_receipt_sha256 p \<noteq> [] \<and>
     normalize_objective (rp_objective p) \<noteq> [] \<and>
     utf8_len (rp_objective p) \<le> MAX_OBJECTIVE_BYTES \<and>
     utf8_len (rp_context_summary p) \<le> MAX_CONTEXT_BYTES"

text \<open>The guards \<^verbatim>\<open>admit_child\<close> and \<^verbatim>\<open>lease_node\<close> share: the two flags, then the execution state.\<close>

definition activity_guard :: "platform \<Rightarrow> recursive_tree \<Rightarrow> (recursive_failure_reason, unit) result" where
  "activity_guard pf t =
     (if \<not> recursive_enabled pf then Err RecursiveDisabled
      else if kill_switch_active pf then Err RecursiveKillSwitchActive
      else case rt_execution_state t of
        Running \<Rightarrow> Ok ()
      | Completed \<Rightarrow> Err ProposalConflict
      | OperatorPaused \<Rightarrow> Err ReasonOperatorPaused
      | BudgetExhausted \<Rightarrow> Err TreeBudgetExhausted
      | KillStopped \<Rightarrow> Err RecursiveKillSwitchActive
      | TerminalFailed \<Rightarrow> Err ReasonTerminalFailed)"

definition effective_budget :: "recursive_tree \<Rightarrow> recursive_node \<Rightarrow> recursive_proposal \<Rightarrow> recursive_budget" where
  "effective_budget t parent p =
     bounded_by (bounded_by (rp_budget p) (rn_child_budget parent)) (rt_root_budget t)"

definition over_limit :: "recursive_tree \<Rightarrow> recursive_budget \<Rightarrow> bool" where
  "over_limit t eff = (case rt_root_budget_limit t of
     None \<Rightarrow> False
   | Some limit \<Rightarrow>
       \<not> can_spend limit (add_budget (add_budget (rt_spent_budget t) (rt_reserved_budget t)) eff))"

definition child_node :: "platform \<Rightarrow> recursive_tree \<Rightarrow> recursive_node \<Rightarrow> recursive_proposal \<Rightarrow> recursive_node" where
  "child_node pf t parent p =
     (let fingerprint = objective_fingerprint pf (rp_objective p);
          derived_capabilities = heritable_recursive_capabilities (rp_requested_capabilities p);
          eff = effective_budget t parent p
      in \<lparr>rn_node_id = derived_node_id pf (rt_root_run_id t) (rp_proposal_id p) fingerprint,
          rn_root_run_id = rt_root_run_id t, rn_parent_node_id = Some (rn_node_id parent),
          rn_proposal_id = Some (rp_proposal_id p), rn_depth = rn_depth parent + 1,
          rn_objective_fingerprint = fingerprint,
          rn_ancestor_fingerprints = rn_ancestor_fingerprints parent @ [rn_objective_fingerprint parent],
          rn_scope = (rp_requested_scope p)\<lparr>scope_capabilities := derived_capabilities\<rparr>,
          rn_capabilities = derived_capabilities,
          rn_tenant_id = rn_tenant_id parent, rn_workspace_id = rn_workspace_id parent,
          rn_budget = eff, rn_budget_limit = eff, rn_child_budget = eff, rn_child_budget_limit = eff,
          rn_reservation = eff, rn_actual_usage = zero_budget, rn_status = Ready,
          rn_accepted_children = 0, rn_retry_count = 0, rn_version = 1, rn_lease_id = None,
          rn_failure_reason = None, rn_evidence_refs = [''agent_proposal/'' @ rp_proposal_id p]\<rparr>)"

text \<open>What an admission changes in the parent, and in the tree.\<close>

definition parent_update :: "recursive_budget \<Rightarrow> recursive_node \<Rightarrow> recursive_node" where
  "parent_update eff n = n\<lparr>rn_accepted_children := rn_accepted_children n + 1,
     rn_child_budget := spend (rn_child_budget n) eff, rn_version := inc_u64 (rn_version n)\<rparr>"

definition admitted_tree :: "platform \<Rightarrow> recursive_tree \<Rightarrow> recursive_node \<Rightarrow> recursive_proposal \<Rightarrow> recursive_tree" where
  "admitted_tree pf t parent p =
     (let node = child_node pf t parent p; eff = effective_budget t parent p
      in t\<lparr>rt_root_budget := spend (rt_root_budget t) eff,
           rt_reserved_budget := add_budget (rt_reserved_budget t) eff,
           rt_nodes := bt_put (rn_node_id node) node
             (bt_modify (rn_node_id parent) (parent_update eff) (rt_nodes t)),
           rt_accepted_proposals := insert (rp_proposal_id p) (rt_accepted_proposals t),
           rt_receipts := bt_put (rp_proposal_id p) (rp_receipt_sha256 p) (rt_receipts t),
           rt_version := inc_u64 (rt_version t)\<rparr>)"

definition admit_child :: "platform \<Rightarrow> recursive_tree \<Rightarrow> recursive_proposal \<Rightarrow>
    (recursive_failure_reason, recursive_admission \<times> recursive_tree) result" where
  "admit_child pf t p =
     bind_result (activity_guard pf t) (\<lambda>_.
       if \<not> shape_is_valid p then Err ProposalConflict
       else if (case bt_get (rt_receipts t) (rp_proposal_id p) of
                  None \<Rightarrow> False | Some receipt \<Rightarrow> receipt \<noteq> rp_receipt_sha256 p) then Err ReceiptConflict
       else if rp_proposal_id p \<in> rt_accepted_proposals t then Err ProposalConflict
       else if bt_get (rt_rejected_proposals t) (rp_proposal_id p) \<noteq> None then Err ProposalConflict
       else case bt_get (rt_nodes t) (rp_parent_node_id p) of None \<Rightarrow> Err StaleParent | Some parent \<Rightarrow>
         if rn_version parent \<noteq> rp_parent_version p then Err StaleParent
         else if rn_depth parent \<ge> MAX_RECURSIVE_DEPTH then Err DepthExceeded
         else if rn_accepted_children parent \<ge> MAX_ACCEPTED_CHILDREN_PER_NODE then Err ChildLimitExceeded
         else if length (rt_nodes t) \<ge> MAX_RECURSIVE_NODES_PER_ROOT then Err TreeBudgetExhausted
         else if \<not> rp_requested_capabilities p \<subseteq> rn_capabilities parent then Err CapabilityEscalation
         else if scope_capabilities (rp_requested_scope p) \<noteq> rp_requested_capabilities p then Err ScopeMismatch
         else if \<not> is_subset_of (rp_requested_scope p) (rn_scope parent) then Err ScopeMismatch
         else
           let fingerprint = objective_fingerprint pf (rp_objective p)
           in if fingerprint \<in> set (rn_ancestor_fingerprints parent) \<or>
                 rn_objective_fingerprint parent = fingerprint then Err AncestorCycle
              else if list_ex (\<lambda>n. rn_objective_fingerprint n = fingerprint) (bt_values (rt_nodes t))
                then Err DuplicateObjective
              else if \<not> is_nonzero (effective_budget t parent p) then Err TreeBudgetExhausted
              else if over_limit t (effective_budget t parent p) then Err TreeBudgetExhausted
              else Ok (\<lparr>ra_node = child_node pf t parent p, ra_parent_version = inc_u64 (rn_version parent)\<rparr>,
                       admitted_tree pf t parent p))"

definition lease_node :: "platform \<Rightarrow> recursive_tree \<Rightarrow> string \<Rightarrow> string \<Rightarrow>
    (recursive_failure_reason, recursive_tree) result" where
  "lease_node pf t node_id lease_id =
     bind_result (activity_guard pf t) (\<lambda>_.
       if card (rt_active_leases t) \<ge> MAX_RECURSIVE_LEASES then Err SchedulerCapacityExhausted
       else case bt_get (rt_nodes t) node_id of None \<Rightarrow> Err StaleParent | Some node \<Rightarrow>
         if rn_lease_id node \<noteq> None \<or> rn_status node \<noteq> Ready then Err ProposalConflict
         else Ok (t\<lparr>
           rt_nodes := bt_modify node_id (\<lambda>n. n\<lparr>rn_lease_id := Some lease_id, rn_status := Leased,
             rn_version := inc_u64 (rn_version n)\<rparr>) (rt_nodes t),
           rt_active_leases := insert lease_id (rt_active_leases t),
           rt_version := inc_u64 (rt_version t)\<rparr>))"

section \<open>Reservations and terminal states\<close>

definition release_node_reservation_for_persistence :: "recursive_tree \<Rightarrow> string \<Rightarrow> recursive_tree" where
  "release_node_reservation_for_persistence t node_id =
     (case bt_get (rt_nodes t) node_id of
        None \<Rightarrow> t
      | Some node \<Rightarrow>
          let remaining = rn_reservation node;
              t1 = t\<lparr>rt_nodes := bt_modify node_id (\<lambda>n. n\<lparr>rn_reservation := zero_budget\<rparr>) (rt_nodes t),
                     rt_reserved_budget := spend (rt_reserved_budget t) remaining,
                     rt_root_budget := add_budget (rt_root_budget t) remaining\<rparr>;
              t2 = (case rn_parent_node_id node of
                      None \<Rightarrow> t1
                    | Some parent_node_id \<Rightarrow> t1\<lparr>rt_nodes := bt_modify parent_node_id
                        (\<lambda>parent. parent\<lparr>rn_child_budget := add_budget (rn_child_budget parent) remaining,
                           rn_version := inc_u64 (rn_version parent)\<rparr>) (rt_nodes t1)\<rparr>)
          in t2\<lparr>rt_version := inc_u64 (rt_version t2)\<rparr>)"

text \<open>The loop body both terminal operations share: drop the lease, fail the node.\<close>

definition fail_node :: "recursive_failure_reason \<Rightarrow> recursive_tree \<Rightarrow> string \<Rightarrow> recursive_tree" where
  "fail_node reason t node_id =
     (case bt_get (rt_nodes t) node_id of
        None \<Rightarrow> t
      | Some node \<Rightarrow>
          t\<lparr>rt_active_leases := (case rn_lease_id node of
               None \<Rightarrow> rt_active_leases t | Some lease_id \<Rightarrow> rt_active_leases t - {lease_id}),
            rt_nodes := bt_modify node_id (\<lambda>n. n\<lparr>rn_lease_id := None, rn_status := NodeFailed,
               rn_failure_reason := Some reason, rn_version := inc_u64 (rn_version n)\<rparr>) (rt_nodes t)\<rparr>)"

definition is_live :: "recursive_node \<Rightarrow> bool" where
  "is_live node \<longleftrightarrow> rn_status node = Ready \<or> rn_status node = Leased"

definition terminalized_ids :: "recursive_tree \<Rightarrow> string option \<Rightarrow> string list" where
  "terminalized_ids t except =
     map rn_node_id (filter (\<lambda>node. rn_parent_node_id node \<noteq> None \<and> Some (rn_node_id node) \<noteq> except \<and>
       is_live node) (bt_values (rt_nodes t)))"

definition terminalize_remaining_nodes ::
  "recursive_tree \<Rightarrow> string option \<Rightarrow> recursive_failure_reason \<Rightarrow> recursive_tree" where
  "terminalize_remaining_nodes t except reason =
     (let terminalized = terminalized_ids t except;
          t1 = foldl (fail_node reason) t terminalized;
          t2 = foldl release_node_reservation_for_persistence t1 terminalized
      in if terminalized \<noteq> [] then t2\<lparr>rt_version := inc_u64 (rt_version t2)\<rparr> else t2)"

text \<open>The \<^verbatim>\<open>while let\<close> walk up the parent chain.\<close>

fun ancestor_walk :: "nat \<Rightarrow> (string, recursive_node) btree_map \<Rightarrow> string \<Rightarrow> string option \<Rightarrow> bool option" where
  "ancestor_walk fuel nodes target None = Some False"
| "ancestor_walk 0 nodes target (Some parent_id) = None"
| "ancestor_walk (Suc fuel) nodes target (Some parent_id) =
     (if parent_id = target then Some True
      else ancestor_walk fuel nodes target (Option.bind (bt_get nodes parent_id) rn_parent_node_id))"

definition live_descendants :: "recursive_tree \<Rightarrow> string \<Rightarrow> string list" where
  "live_descendants t node_id =
     map rn_node_id (filter (\<lambda>c. ancestor_walk (length (rt_nodes t) + MAX_RECURSIVE_DEPTH) (rt_nodes t) node_id
       (rn_parent_node_id c) = Some True \<and> is_live c) (bt_values (rt_nodes t)))"

definition is_terminal_state :: "recursive_execution_state \<Rightarrow> bool" where
  "is_terminal_state s \<longleftrightarrow> s = BudgetExhausted \<or> s = KillStopped \<or> s = TerminalFailed \<or> s = Completed"

text \<open>A failed node takes its live descendants with it; then the tree may be settled.\<close>

definition cascade_failure :: "recursive_tree \<Rightarrow> string option \<Rightarrow> recursive_tree" where
  "cascade_failure t failed_node_id =
     (case failed_node_id of
        None \<Rightarrow> t
      | Some node_id \<Rightarrow>
          let descendants = live_descendants t node_id
          in foldl release_node_reservation_for_persistence
               (foldl (fail_node ReasonTerminalFailed) t descendants) descendants)"

definition settle_tree :: "recursive_tree \<Rightarrow> recursive_tree" where
  "settle_tree t =
     (if rt_active_leases t = {} \<and>
         list_all (\<lambda>n. rn_status n = NodeCompleted \<or> rn_status n = NodeFailed) (bt_values (rt_nodes t))
      then t\<lparr>rt_execution_state :=
              (if list_all (\<lambda>n. rn_status n = NodeCompleted) (bt_values (rt_nodes t))
               then Completed else TerminalFailed),
             rt_version := inc_u64 (rt_version t)\<rparr>
      else t)"

definition finalize_terminal_tree :: "recursive_tree \<Rightarrow> string option \<Rightarrow> recursive_tree" where
  "finalize_terminal_tree t failed_node_id =
     (if is_terminal_state (rt_execution_state t) then t
      else settle_tree (cascade_failure t failed_node_id))"

section \<open>Usage\<close>

text \<open>States that an overrun does not replace.\<close>

definition settled_state :: "recursive_execution_state \<Rightarrow> bool" where
  "settled_state s \<longleftrightarrow> s = Completed \<or> s = KillStopped \<or> s = TerminalFailed"

text \<open>A receipt seen before: the recorded answer for the same usage, a conflict for another.\<close>

definition replayed_receipt :: "string \<Rightarrow> string \<Rightarrow> (recursive_failure_reason, bool) result" where
  "replayed_receipt previous usage_fingerprint =
     (case strip_prefix ''1:'' previous of
        Some previous_usage \<Rightarrow>
          if previous_usage = usage_fingerprint then Ok True else Err ReceiptConflict
      | None \<Rightarrow>
          (case strip_prefix ''0:'' previous of
             Some previous_usage \<Rightarrow>
               if previous_usage = usage_fingerprint then Ok False else Err ReceiptConflict
           | None \<Rightarrow> Err ReceiptConflict))"

definition within_tree_budget :: "recursive_tree \<Rightarrow> recursive_budget \<Rightarrow> bool \<Rightarrow> bool" where
  "within_tree_budget t usage consumes_reservation =
     (case rt_root_budget_limit t of
        None \<Rightarrow> True
      | Some limit \<Rightarrow>
          can_spend limit (add_budget (add_budget (rt_spent_budget t) usage)
            (if consumes_reservation then spend (rt_reserved_budget t) usage else rt_reserved_budget t)))"

definition record_usage_internal :: "platform \<Rightarrow> recursive_tree \<Rightarrow> string \<Rightarrow> recursive_budget \<Rightarrow> bool \<Rightarrow>
    (recursive_failure_reason, bool \<times> recursive_tree) result" where
  "record_usage_internal pf t receipt_id usage consumes_reservation =
     (case usage_json pf usage of None \<Rightarrow> Err ReceiptConflict | Some usage_fingerprint \<Rightarrow>
      case bt_get (rt_usage_receipts t) receipt_id of
        Some previous \<Rightarrow> bind_result (replayed_receipt previous usage_fingerprint) (\<lambda>b. Ok (b, t))
      | None \<Rightarrow>
          let within = within_tree_budget t usage consumes_reservation;
              t1 = t\<lparr>rt_spent_budget := add_budget (rt_spent_budget t) usage,
                     rt_reserved_budget := (if consumes_reservation then spend (rt_reserved_budget t) usage
                                            else rt_reserved_budget t),
                     rt_usage_receipts := bt_put receipt_id
                       ((if within then ''1:'' else ''0:'') @ usage_fingerprint) (rt_usage_receipts t)\<rparr>;
              t2 = (if \<not> within \<and> \<not> settled_state (rt_execution_state t1)
                    then t1\<lparr>rt_execution_state := BudgetExhausted, rt_version := inc_u64 (rt_version t1)\<rparr>
                    else t1)
          in Ok (within, t2))"

definition record_usage :: "platform \<Rightarrow> recursive_tree \<Rightarrow> string \<Rightarrow> recursive_budget \<Rightarrow>
    (recursive_failure_reason, bool \<times> recursive_tree) result" where
  "record_usage pf t receipt_id usage = record_usage_internal pf t receipt_id usage True"

definition record_unreserved_usage :: "platform \<Rightarrow> recursive_tree \<Rightarrow> string \<Rightarrow> recursive_budget \<Rightarrow>
    (recursive_failure_reason, bool \<times> recursive_tree) result" where
  "record_unreserved_usage pf t receipt_id usage = record_usage_internal pf t receipt_id usage False"

text \<open>Charging a usage to a node.\<close>

definition charge_node :: "recursive_budget \<Rightarrow> recursive_node \<Rightarrow> recursive_node" where
  "charge_node usage node = node\<lparr>rn_budget := spend (rn_budget node) usage,
     rn_actual_usage := add_budget (rn_actual_usage node) usage,
     rn_reservation := spend (rn_reservation node) usage\<rparr>"

definition charge_root :: "recursive_budget \<Rightarrow> recursive_node \<Rightarrow> recursive_node" where
  "charge_root usage node = node\<lparr>rn_budget := spend (rn_budget node) usage,
     rn_actual_usage := add_budget (rn_actual_usage node) usage\<rparr>"

section \<open>Completion\<close>

definition settle_node :: "bool \<Rightarrow> bool \<Rightarrow> recursive_node \<Rightarrow> recursive_node" where
  "settle_node success within_budget node =
     node\<lparr>rn_status := (if success \<and> within_budget then NodeCompleted else NodeFailed),
       rn_failure_reason :=
         (if \<not> within_budget then Some TreeBudgetExhausted
          else if \<not> success \<and> rn_retry_count node \<ge> MAX_RECURSIVE_RETRIES then Some RetryExhausted
          else if \<not> success then Some ExecutionFailure else None),
       rn_lease_id := None, rn_version := inc_u64 (rn_version node)\<rparr>"

definition complete_node_with_usage_receipt :: "platform \<Rightarrow> recursive_tree \<Rightarrow> string \<Rightarrow> string \<Rightarrow> string \<Rightarrow>
    bool \<Rightarrow> recursive_budget \<Rightarrow> (recursive_failure_reason, recursive_tree) result" where
  "complete_node_with_usage_receipt pf t node_id lease_id usage_receipt_id success usage =
     (let usage_previously_recorded = bt_get (rt_usage_receipts t) usage_receipt_id \<noteq> None
      in bind_result
        (if usage_previously_recorded then Ok True
         else case bt_get (rt_nodes t) node_id of None \<Rightarrow> Err StaleParent | Some node \<Rightarrow>
           if rn_lease_id node \<noteq> Some lease_id then Err ReceiptConflict
           else Ok (can_spend (rn_budget node) usage))
        (\<lambda>within_node_budget.
          case bt_get (rt_nodes t) node_id of None \<Rightarrow> Err StaleParent | Some node \<Rightarrow>
            if rn_lease_id node \<noteq> Some lease_id then Err ReceiptConflict
            else bind_result (record_usage pf t usage_receipt_id usage) (\<lambda>(within_tree, t1).
              let within_budget = within_node_budget \<and> within_tree;
                  t2 = t1\<lparr>rt_nodes := bt_modify node_id (\<lambda>n. settle_node success within_budget
                           (if usage_previously_recorded then n else charge_node usage n)) (rt_nodes t1),
                         rt_active_leases := rt_active_leases t1 - {lease_id}\<rparr>;
                  t3 = (if \<not> within_budget
                        then terminalize_remaining_nodes (t2\<lparr>rt_execution_state := BudgetExhausted\<rparr>)
                               (Some node_id) TreeBudgetExhausted
                        else t2)
              in Ok (t3\<lparr>rt_version := inc_u64 (rt_version t3)\<rparr>))))"

definition complete_node_with_usage :: "platform \<Rightarrow> recursive_tree \<Rightarrow> string \<Rightarrow> string \<Rightarrow> bool \<Rightarrow>
    recursive_budget \<Rightarrow> (recursive_failure_reason, recursive_tree) result" where
  "complete_node_with_usage pf t node_id lease_id success usage =
     complete_node_with_usage_receipt pf t node_id lease_id lease_id success usage"

definition complete_node :: "platform \<Rightarrow> recursive_tree \<Rightarrow> string \<Rightarrow> string \<Rightarrow> bool \<Rightarrow>
    (recursive_failure_reason, recursive_tree) result" where
  "complete_node pf t node_id lease_id success =
     bind_result (complete_node_with_usage pf t node_id lease_id success zero_budget)
       (\<lambda>t1. Ok (release_node_reservation_for_persistence t1 node_id))"

text \<open>The root does not hold a reservation; its settlement has no retry branch.\<close>

definition settle_root :: "bool \<Rightarrow> bool \<Rightarrow> recursive_node \<Rightarrow> recursive_node" where
  "settle_root success within_budget root =
     root\<lparr>rn_status := (if success \<and> within_budget then NodeCompleted else NodeFailed),
       rn_failure_reason :=
         (if \<not> within_budget then Some TreeBudgetExhausted
          else if \<not> success then Some ExecutionFailure else None),
       rn_lease_id := None, rn_version := inc_u64 (rn_version root)\<rparr>"

text \<open>A second completion of a settled root: accepted only as an exact replay.\<close>

definition root_replay :: "platform \<Rightarrow> recursive_tree \<Rightarrow> recursive_node \<Rightarrow> string \<Rightarrow> bool \<Rightarrow> recursive_budget \<Rightarrow>
    (recursive_failure_reason, recursive_tree) result" where
  "root_replay pf t root usage_receipt_id success usage =
     (case usage_json pf usage of None \<Rightarrow> Err ReceiptConflict | Some usage_fingerprint \<Rightarrow>
      case bt_get (rt_usage_receipts t) usage_receipt_id of None \<Rightarrow> Err ReceiptConflict | Some previous \<Rightarrow>
        if strip_prefix ''1:'' previous = Some usage_fingerprint \<and>
           ((success \<and> rn_status root = NodeCompleted \<and> rn_failure_reason root = None) \<or>
            (\<not> success \<and> rn_status root = NodeFailed \<and> rn_failure_reason root = Some ExecutionFailure))
        then Ok t
        else if strip_prefix ''0:'' previous = Some usage_fingerprint \<and> rn_status root = NodeFailed \<and>
           rn_failure_reason root = Some TreeBudgetExhausted
        then Ok t
        else Err ReceiptConflict)"

definition complete_root_with_usage_receipt :: "platform \<Rightarrow> recursive_tree \<Rightarrow> string \<Rightarrow> string \<Rightarrow>
    bool \<Rightarrow> recursive_budget \<Rightarrow> (recursive_failure_reason, recursive_tree) result" where
  "complete_root_with_usage_receipt pf t lease_id usage_receipt_id success usage =
     (let root_id = rt_root_node_id t
      in case bt_get (rt_nodes t) root_id of None \<Rightarrow> Err RecursiveNodeMissing | Some root \<Rightarrow>
        if rn_parent_node_id root \<noteq> None then Err ReceiptConflict
        else if rn_status root = NodeCompleted \<or> rn_status root = NodeFailed
        then root_replay pf t root usage_receipt_id success usage
        else if rn_lease_id root \<noteq> Some lease_id \<or> rn_status root \<noteq> Leased then Err ReceiptConflict
        else
          let usage_previously_recorded = bt_get (rt_usage_receipts t) usage_receipt_id \<noteq> None;
              within_node_budget = (usage_previously_recorded \<or> can_spend (rn_budget root) usage)
          in bind_result (record_unreserved_usage pf t usage_receipt_id usage) (\<lambda>(within_tree, t1).
            let within_budget = within_node_budget \<and> within_tree;
                t2 = t1\<lparr>rt_root_budget := (if usage_previously_recorded then rt_root_budget t1
                           else spend (rt_root_budget t1) usage),
                       rt_nodes := bt_modify root_id (\<lambda>n. settle_root success within_budget
                         (if usage_previously_recorded then n else charge_root usage n)) (rt_nodes t1),
                       rt_active_leases := rt_active_leases t1 - {lease_id}\<rparr>;
                t3 = (if \<not> within_budget
                      then terminalize_remaining_nodes (t2\<lparr>rt_execution_state := BudgetExhausted\<rparr>)
                             (Some root_id) TreeBudgetExhausted
                      else if \<not> success
                      then terminalize_remaining_nodes (t2\<lparr>rt_execution_state := TerminalFailed\<rparr>)
                             (Some root_id) ReasonTerminalFailed
                      else t2);
                t4 = t3\<lparr>rt_version := inc_u64 (rt_version t3)\<rparr>
            in Ok (if success \<and> within_budget then finalize_terminal_tree t4 None else t4)))"

definition complete_root_with_usage :: "platform \<Rightarrow> recursive_tree \<Rightarrow> string \<Rightarrow> bool \<Rightarrow> recursive_budget \<Rightarrow>
    (recursive_failure_reason, recursive_tree) result" where
  "complete_root_with_usage pf t lease_id success usage =
     complete_root_with_usage_receipt pf t lease_id lease_id success usage"

section \<open>Late usage, retries, stale leases\<close>

text \<open>What an over-budget late receipt does: it is recorded as such, and a live tree is stopped.\<close>

definition late_overrun :: "recursive_tree \<Rightarrow> string \<Rightarrow> string \<Rightarrow> string \<Rightarrow> recursive_tree" where
  "late_overrun t node_id receipt_id usage_fingerprint =
     (let t1 = t\<lparr>rt_usage_receipts := bt_put receipt_id (''0:'' @ usage_fingerprint) (rt_usage_receipts t)\<rparr>
      in if \<not> settled_state (rt_execution_state t1)
         then terminalize_remaining_nodes (t1\<lparr>rt_execution_state := BudgetExhausted\<rparr>) (Some node_id)
                TreeBudgetExhausted
         else t1)"

definition record_root_late_usage :: "platform \<Rightarrow> recursive_tree \<Rightarrow> string \<Rightarrow> recursive_budget \<Rightarrow>
    (recursive_failure_reason, bool \<times> recursive_tree) result" where
  "record_root_late_usage pf t receipt_id usage =
     (case usage_json pf usage of None \<Rightarrow> Err ReceiptConflict | Some usage_fingerprint \<Rightarrow>
      case bt_get (rt_usage_receipts t) receipt_id of
        Some previous \<Rightarrow>
          if strip_prefix ''1:'' previous = Some usage_fingerprint then Ok (True, t)
          else if strip_prefix ''0:'' previous = Some usage_fingerprint then Ok (False, t)
          else Err ReceiptConflict
      | None \<Rightarrow>
          (case bt_get (rt_nodes t) (rt_root_node_id t) of None \<Rightarrow> Err RecursiveNodeMissing | Some root \<Rightarrow>
            bind_result (record_unreserved_usage pf t receipt_id usage) (\<lambda>(within_tree, t1).
              let within_budget = can_spend (rn_budget root) usage \<and> within_tree;
                  t2 = t1\<lparr>rt_root_budget := spend (rt_root_budget t1) usage,
                         rt_nodes := bt_modify (rt_root_node_id t)
                           (\<lambda>n. (charge_root usage n)\<lparr>rn_version := inc_u64 (rn_version n)\<rparr>) (rt_nodes t1)\<rparr>;
                  t3 = (if \<not> within_budget
                        then late_overrun t2 (rt_root_node_id t) receipt_id usage_fingerprint else t2)
              in Ok (within_budget, t3\<lparr>rt_version := inc_u64 (rt_version t3)\<rparr>))))"

definition record_late_usage :: "platform \<Rightarrow> recursive_tree \<Rightarrow> string \<Rightarrow> string \<Rightarrow> recursive_budget \<Rightarrow>
    (recursive_failure_reason, bool \<times> recursive_tree) result" where
  "record_late_usage pf t node_id attempt_receipt usage =
     (case usage_json pf usage of None \<Rightarrow> Err ReceiptConflict | Some usage_fingerprint \<Rightarrow>
      case bt_get (rt_usage_receipts t) attempt_receipt of
        Some previous \<Rightarrow> bind_result (replayed_receipt previous usage_fingerprint) (\<lambda>b. Ok (b, t))
      | None \<Rightarrow>
          (case bt_get (rt_nodes t) node_id of None \<Rightarrow> Err StaleParent | Some node \<Rightarrow>
            bind_result (record_usage pf t attempt_receipt usage) (\<lambda>(within_tree, t1).
              let within_budget = can_spend (rn_budget node) usage \<and> within_tree;
                  t2 = t1\<lparr>rt_nodes := bt_modify node_id
                           (\<lambda>n. (charge_node usage n)\<lparr>rn_version := inc_u64 (rn_version n)\<rparr>) (rt_nodes t1)\<rparr>;
                  t3 = (if \<not> within_budget then late_overrun t2 node_id attempt_receipt usage_fingerprint
                        else t2)
              in Ok (within_budget, t3\<lparr>rt_version := inc_u64 (rt_version t3)\<rparr>))))"

definition retry_node :: "recursive_tree \<Rightarrow> string \<Rightarrow> (recursive_failure_reason, recursive_tree) result" where
  "retry_node t node_id =
     (case bt_get (rt_nodes t) node_id of None \<Rightarrow> Err StaleParent | Some node \<Rightarrow>
        Ok (t\<lparr>rt_nodes := bt_modify node_id (\<lambda>n.
              if rn_retry_count node \<ge> MAX_RECURSIVE_RETRIES
              then n\<lparr>rn_status := NodeFailed, rn_failure_reason := Some RetryExhausted,
                     rn_version := inc_u64 (rn_version n)\<rparr>
              else n\<lparr>rn_retry_count := rn_retry_count n + 1, rn_status := Ready, rn_failure_reason := None,
                     rn_version := inc_u64 (rn_version n)\<rparr>) (rt_nodes t),
              rt_version := inc_u64 (rt_version t)\<rparr>))"

definition retry_allowed :: "platform \<Rightarrow> recursive_tree \<Rightarrow> string \<Rightarrow> recursive_budget \<Rightarrow>
    (recursive_failure_reason, bool) result" where
  "retry_allowed pf t node_id usage =
     (case bt_get (rt_nodes t) node_id of None \<Rightarrow> Err StaleParent | Some node \<Rightarrow>
        let current_attempt_fits = can_spend (rn_budget node) usage;
            remaining = (if current_attempt_fits then spend (rn_budget node) usage else rn_budget node)
        in Ok (recursive_enabled pf \<and> \<not> kill_switch_active pf \<and> rt_execution_state t = Running \<and>
               rn_retry_count node < MAX_RECURSIVE_RETRIES \<and> current_attempt_fits \<and>
               calls_remaining remaining > 0))"

definition recover_stale_lease :: "recursive_tree \<Rightarrow> string \<Rightarrow> string \<Rightarrow> bool \<Rightarrow>
    (recursive_failure_reason, string \<times> recursive_tree) result" where
  "recover_stale_lease t node_id lease_id retry =
     (case bt_get (rt_nodes t) node_id of None \<Rightarrow> Err RecursiveNodeMissing | Some node \<Rightarrow>
        if rn_lease_id node \<noteq> Some lease_id then Err ReceiptConflict
        else
          let again = (retry \<and> rn_retry_count node < MAX_RECURSIVE_RETRIES)
          in Ok (status_str (if again then Ready else NodeFailed),
                 t\<lparr>rt_nodes := bt_modify node_id (\<lambda>n.
                     if again
                     then n\<lparr>rn_lease_id := None, rn_retry_count := rn_retry_count n + 1, rn_status := Ready,
                            rn_failure_reason := None, rn_version := inc_u64 (rn_version n)\<rparr>
                     else n\<lparr>rn_lease_id := None, rn_status := NodeFailed,
                            rn_failure_reason := Some RetryExhausted, rn_version := inc_u64 (rn_version n)\<rparr>)
                     (rt_nodes t),
                   rt_active_leases := rt_active_leases t - {lease_id},
                   rt_version := inc_u64 (rt_version t)\<rparr>))"

section \<open>Operator control and rejections\<close>

definition pause :: "recursive_tree \<Rightarrow> recursive_tree" where
  "pause t = t\<lparr>rt_execution_state :=
       (if rt_execution_state t = Running then OperatorPaused else rt_execution_state t),
     rt_version := inc_u64 (rt_version t)\<rparr>"

definition resume :: "recursive_tree \<Rightarrow> recursive_tree" where
  "resume t = (if rt_execution_state t = OperatorPaused
     then t\<lparr>rt_execution_state := Running, rt_version := inc_u64 (rt_version t)\<rparr> else t)"

definition record_rejection_evidence :: "recursive_tree \<Rightarrow> string \<Rightarrow> recursive_decision_evidence \<Rightarrow> recursive_tree" where
  "record_rejection_evidence t proposal_id evidence =
     t\<lparr>rt_rejected_proposals := bt_put proposal_id evidence (rt_rejected_proposals t),
       rt_version := inc_u64 (rt_version t)\<rparr>"

definition record_rejection :: "recursive_tree \<Rightarrow> string \<Rightarrow> recursive_failure_reason \<Rightarrow> recursive_tree" where
  "record_rejection t proposal_id reason =
     record_rejection_evidence t proposal_id
       \<lparr>rde_reason_code = reason, rde_evidence_refs = [''agent_proposal/'' @ proposal_id]\<rparr>"

end
