(* ===== verification/Recursive_Lineage.thy ===== *)
theory Recursive_Lineage
  imports Recursive_Tree
begin

text \<open>
  The part of a recursive tree that only admission changes: which nodes there are, their place in
  the tree, their objectives and their authority. Every other operation keeps the \<open>skeleton\<close>, so the
  invariant \<open>lineage\<close> is proved once for admission and carried by one equation everywhere else.
\<close>

section \<open>The skeleton\<close>

definition node_static :: "recursive_node \<Rightarrow> recursive_node" where
  "node_static n = n\<lparr>rn_budget := zero_budget, rn_child_budget := zero_budget,
     rn_reservation := zero_budget, rn_actual_usage := zero_budget, rn_status := Ready,
     rn_retry_count := 0, rn_version := 0, rn_lease_id := None, rn_failure_reason := None\<rparr>"

definition nodes_static :: "(string, recursive_node) btree_map \<Rightarrow> (string, recursive_node) btree_map" where
  "nodes_static m = map (\<lambda>(k, n). (k, node_static n)) m"

definition skeleton :: "recursive_tree \<Rightarrow> recursive_tree" where
  "skeleton t = t\<lparr>rt_nodes := nodes_static (rt_nodes t), rt_root_budget := zero_budget,
     rt_spent_budget := zero_budget, rt_reserved_budget := zero_budget, rt_execution_state := Running,
     rt_version := 0, rt_active_leases := {}, rt_rejected_proposals := [], rt_usage_receipts := []\<rparr>"

lemma nodes_static_modify:
  assumes "\<And>n. node_static (g n) = node_static n"
  shows "nodes_static (bt_modify k g m) = nodes_static m"
  using assms by (induction m) (auto simp: nodes_static_def bt_modify_def)

lemma get_nodes_static: "bt_get (nodes_static m) k = map_option node_static (bt_get m k)"
  unfolding nodes_static_def by (induction m) auto

lemma skeleton_cong:
  assumes "nodes_static ns = nodes_static (rt_nodes t)"
  shows "skeleton (t\<lparr>rt_nodes := ns\<rparr>) = skeleton t"
  using assms by (simp add: skeleton_def)

lemma skeleton_update [simp]:
  "skeleton (t\<lparr>rt_root_budget := b\<rparr>) = skeleton t"
  "skeleton (t\<lparr>rt_spent_budget := b\<rparr>) = skeleton t"
  "skeleton (t\<lparr>rt_reserved_budget := b\<rparr>) = skeleton t"
  "skeleton (t\<lparr>rt_execution_state := s\<rparr>) = skeleton t"
  "skeleton (t\<lparr>rt_version := v\<rparr>) = skeleton t"
  "skeleton (t\<lparr>rt_active_leases := l\<rparr>) = skeleton t"
  "skeleton (t\<lparr>rt_rejected_proposals := r\<rparr>) = skeleton t"
  "skeleton (t\<lparr>rt_usage_receipts := u\<rparr>) = skeleton t"
  by (simp_all add: skeleton_def)

lemma skeleton_nodes [simp]:
  "m = rt_nodes t \<Longrightarrow> (\<And>n. node_static (g n) = node_static n) \<Longrightarrow>
     skeleton (t\<lparr>rt_nodes := bt_modify k g m\<rparr>) = skeleton t"
  by (simp add: skeleton_cong nodes_static_modify)

lemma release_skeleton [simp]: "skeleton (release_node_reservation_for_persistence t i) = skeleton t"
  by (auto simp: release_node_reservation_for_persistence_def Let_def skeleton_def nodes_static_modify
      node_static_def split: option.splits)

lemma fail_node_skeleton [simp]: "skeleton (fail_node reason t i) = skeleton t"
  by (auto simp: fail_node_def skeleton_def nodes_static_modify node_static_def split: option.splits)

lemma foldl_skeleton:
  "(\<And>t i. skeleton (f t i) = skeleton t) \<Longrightarrow> skeleton (foldl f t is) = skeleton t"
  by (induction "is" arbitrary: t) simp_all

lemma terminalize_skeleton [simp]: "skeleton (terminalize_remaining_nodes t e reason) = skeleton t"
  by (simp add: terminalize_remaining_nodes_def Let_def foldl_skeleton)

lemma finalize_skeleton [simp]: "skeleton (finalize_terminal_tree t i) = skeleton t"
  by (simp add: finalize_terminal_tree_def settle_tree_def cascade_failure_def Let_def foldl_skeleton
      split: option.splits)

lemma record_usage_skeleton:
  "record_usage_internal pf t r u c = Ok (b, t') \<Longrightarrow> skeleton t' = skeleton t"
  by (auto simp: record_usage_internal_def Let_def bind_result_Ok_iff skeleton_def
      split: option.splits if_splits)

lemma settle_node_static [simp]: "node_static (settle_node s w n) = node_static n"
  by (simp add: settle_node_def node_static_def)

lemma settle_root_static [simp]: "node_static (settle_root s w n) = node_static n"
  by (simp add: settle_root_def node_static_def)

lemma charge_static [simp]:
  "node_static (charge_node u n) = node_static n" "node_static (charge_root u n) = node_static n"
  by (simp_all add: charge_node_def charge_root_def node_static_def)

lemma complete_skeleton:
  "complete_node_with_usage_receipt pf t i l r s u = Ok t' \<Longrightarrow> skeleton t' = skeleton t"
  by (auto simp: complete_node_with_usage_receipt_def Let_def bind_result_Ok_iff record_usage_def
      split: option.splits if_splits dest!: record_usage_skeleton)

lemma complete_root_skeleton:
  "complete_root_with_usage_receipt pf t l r s u = Ok t' \<Longrightarrow> skeleton t' = skeleton t"
  by (auto simp: complete_root_with_usage_receipt_def root_replay_def Let_def bind_result_Ok_iff
      record_unreserved_usage_def split: option.splits if_splits dest!: record_usage_skeleton)

lemma late_overrun_skeleton [simp]: "skeleton (late_overrun t i r f) = skeleton t"
  by (simp add: late_overrun_def Let_def)

lemma version_static [simp]: "node_static (n\<lparr>rn_version := v\<rparr>) = node_static n"
  by (simp add: node_static_def)

lemma late_usage_skeleton:
  "record_late_usage pf t i r u = Ok (b, t') \<Longrightarrow> skeleton t' = skeleton t"
  by (auto simp: record_late_usage_def Let_def bind_result_Ok_iff record_usage_def
      split: option.splits if_splits dest!: record_usage_skeleton)

lemma root_late_usage_skeleton:
  "record_root_late_usage pf t r u = Ok (b, t') \<Longrightarrow> skeleton t' = skeleton t"
  by (auto simp: record_root_late_usage_def Let_def bind_result_Ok_iff record_unreserved_usage_def
      split: option.splits if_splits dest!: record_usage_skeleton)

lemma retry_skeleton: "retry_node t i = Ok t' \<Longrightarrow> skeleton t' = skeleton t"
  by (auto simp: retry_node_def node_static_def split: option.splits)

lemma stale_skeleton: "recover_stale_lease t i l b = Ok (s, t') \<Longrightarrow> skeleton t' = skeleton t"
  by (auto simp: recover_stale_lease_def Let_def node_static_def split: option.splits if_splits)

lemma lease_skeleton: "lease_node pf t i l = Ok t' \<Longrightarrow> skeleton t' = skeleton t"
  by (auto simp: lease_node_def bind_result_Ok_iff node_static_def split: option.splits if_splits)

lemma control_skeleton [simp]:
  "skeleton (pause t) = skeleton t" "skeleton (resume t) = skeleton t"
  "skeleton (record_rejection t i reason) = skeleton t"
  by (simp_all add: pause_def resume_def record_rejection_def record_rejection_evidence_def)

section \<open>Lineage\<close>

text \<open>The authority of a child derives from its parent.\<close>

definition derives_from :: "recursive_node \<Rightarrow> recursive_node \<Rightarrow> bool" where
  "derives_from p n \<longleftrightarrow>
     rn_depth n = rn_depth p + 1 \<and>
     rn_ancestor_fingerprints n = rn_ancestor_fingerprints p @ [rn_objective_fingerprint p] \<and>
     rn_capabilities n \<subseteq> rn_capabilities p \<and> is_subset_of (rn_scope n) (rn_scope p) \<and>
     rn_tenant_id n = rn_tenant_id p \<and> rn_workspace_id n = rn_workspace_id p"

definition child_count :: "recursive_tree \<Rightarrow> string \<Rightarrow> nat" where
  "child_count t i = bt_sum (\<lambda>n. if rn_parent_node_id n = Some i then 1 else 0) (rt_nodes t)"

definition tree_shape :: "recursive_tree \<Rightarrow> bool" where
  "tree_shape t \<longleftrightarrow>
     bt_wf (rt_nodes t) \<and>
     (\<forall>k n. bt_get (rt_nodes t) k = Some n \<longrightarrow> rn_node_id n = k) \<and>
     (\<exists>root. bt_get (rt_nodes t) (rt_root_node_id t) = Some root \<and> rn_parent_node_id root = None \<and>
        rn_depth root = 0 \<and> rn_ancestor_fingerprints root = []) \<and>
     (\<forall>k n. bt_get (rt_nodes t) k = Some n \<longrightarrow> k \<noteq> rt_root_node_id t \<longrightarrow>
        (\<exists>pk p. rn_parent_node_id n = Some pk \<and> bt_get (rt_nodes t) pk = Some p \<and> derives_from p n))"

definition tree_bounds :: "recursive_tree \<Rightarrow> bool" where
  "tree_bounds t \<longleftrightarrow>
     length (rt_nodes t) \<le> MAX_RECURSIVE_NODES_PER_ROOT \<and>
     (\<forall>k n. bt_get (rt_nodes t) k = Some n \<longrightarrow>
        rn_depth n \<le> MAX_RECURSIVE_DEPTH \<and> length (rn_ancestor_fingerprints n) = rn_depth n \<and>
        rn_accepted_children n = child_count t k \<and>
        rn_accepted_children n \<le> MAX_ACCEPTED_CHILDREN_PER_NODE \<and>
        scope_capabilities (rn_scope n) = rn_capabilities n \<and> rn_root_run_id n = rt_root_run_id t \<and>
        (k \<noteq> rt_root_node_id t \<longrightarrow> ''handoff'' \<notin> rn_capabilities n))"

definition tree_identity :: "platform \<Rightarrow> recursive_tree \<Rightarrow> bool" where
  "tree_identity pf t \<longleftrightarrow>
     (\<forall>k n k' n'. bt_get (rt_nodes t) k = Some n \<longrightarrow> bt_get (rt_nodes t) k' = Some n' \<longrightarrow>
        rn_objective_fingerprint n = rn_objective_fingerprint n' \<longrightarrow> k = k') \<and>
     (\<forall>k n. bt_get (rt_nodes t) k = Some n \<longrightarrow> (rn_proposal_id n = None \<longleftrightarrow> k = rt_root_node_id t)) \<and>
     (\<forall>k n pid. bt_get (rt_nodes t) k = Some n \<longrightarrow> rn_proposal_id n = Some pid \<longrightarrow>
        pid \<in> rt_accepted_proposals t \<and>
        k = derived_node_id pf (rt_root_run_id t) pid (rn_objective_fingerprint n)) \<and>
     (\<forall>k n k' n' pid. bt_get (rt_nodes t) k = Some n \<longrightarrow> bt_get (rt_nodes t) k' = Some n' \<longrightarrow>
        rn_proposal_id n = Some pid \<longrightarrow> rn_proposal_id n' = Some pid \<longrightarrow> k = k') \<and>
     (\<forall>pid \<in> rt_accepted_proposals t. \<exists>k n. bt_get (rt_nodes t) k = Some n \<and> rn_proposal_id n = Some pid) \<and>
     bt_wf (rt_receipts t) \<and> rt_accepted_proposals t = fst ` set (rt_receipts t)"

definition lineage :: "platform \<Rightarrow> recursive_tree \<Rightarrow> bool" where
  "lineage pf t \<longleftrightarrow> tree_shape t \<and> tree_bounds t \<and> tree_identity pf t"

lemma node_static_sel [simp]:
  "rn_node_id (node_static n) = rn_node_id n" "rn_parent_node_id (node_static n) = rn_parent_node_id n"
  "rn_depth (node_static n) = rn_depth n"
  "rn_ancestor_fingerprints (node_static n) = rn_ancestor_fingerprints n"
  "rn_objective_fingerprint (node_static n) = rn_objective_fingerprint n"
  "rn_capabilities (node_static n) = rn_capabilities n" "rn_scope (node_static n) = rn_scope n"
  "rn_tenant_id (node_static n) = rn_tenant_id n" "rn_workspace_id (node_static n) = rn_workspace_id n"
  "rn_accepted_children (node_static n) = rn_accepted_children n"
  "rn_root_run_id (node_static n) = rn_root_run_id n" "rn_proposal_id (node_static n) = rn_proposal_id n"
  by (simp_all add: node_static_def)

lemma skeleton_sel [simp]:
  "rt_nodes (skeleton t) = nodes_static (rt_nodes t)" "rt_root_node_id (skeleton t) = rt_root_node_id t"
  "rt_root_run_id (skeleton t) = rt_root_run_id t"
  "rt_accepted_proposals (skeleton t) = rt_accepted_proposals t" "rt_receipts (skeleton t) = rt_receipts t"
  by (simp_all add: skeleton_def)

lemma nodes_static_wf: "bt_wf (nodes_static m) = bt_wf m" "length (nodes_static m) = length m"
  by (simp_all add: nodes_static_def bt_wf_def comp_def case_prod_beta)

lemma bt_sum_static: "(\<And>n. f (node_static n) = f n) \<Longrightarrow> bt_sum f (nodes_static m) = bt_sum f m"
  by (induction m) (auto simp: bt_sum_def nodes_static_def)

lemma child_count_skeleton: "child_count (skeleton t) = child_count t"
  by (auto simp: child_count_def bt_sum_static)

lemma static_eqD:
  assumes "node_static n = node_static n'"
  shows "rn_node_id n = rn_node_id n'" "rn_parent_node_id n = rn_parent_node_id n'"
    "rn_depth n = rn_depth n'" "rn_ancestor_fingerprints n = rn_ancestor_fingerprints n'"
    "rn_objective_fingerprint n = rn_objective_fingerprint n'" "rn_capabilities n = rn_capabilities n'"
    "rn_scope n = rn_scope n'" "rn_tenant_id n = rn_tenant_id n'" "rn_workspace_id n = rn_workspace_id n'"
    "rn_accepted_children n = rn_accepted_children n'" "rn_root_run_id n = rn_root_run_id n'"
    "rn_proposal_id n = rn_proposal_id n'"
  using assms node_static_sel by metis+

lemma skeleton_eqD:
  assumes "skeleton t = skeleton t'"
  shows "rt_root_node_id t = rt_root_node_id t'" "rt_root_run_id t = rt_root_run_id t'"
    "rt_accepted_proposals t = rt_accepted_proposals t'" "rt_receipts t = rt_receipts t'"
    "nodes_static (rt_nodes t) = nodes_static (rt_nodes t')"
    "bt_wf (rt_nodes t) = bt_wf (rt_nodes t')" "length (rt_nodes t) = length (rt_nodes t')"
    "child_count t = child_count t'"
  using assms skeleton_sel nodes_static_wf child_count_skeleton by metis+

lemma skeleton_getE:
  assumes "skeleton t = skeleton t'" "bt_get (rt_nodes t') k = Some n'"
  obtains n where "bt_get (rt_nodes t) k = Some n" "node_static n = node_static n'"
proof -
  have "map_option node_static (bt_get (rt_nodes t) k) = map_option node_static (bt_get (rt_nodes t') k)"
    using skeleton_eqD(5) [OF assms(1)] get_nodes_static by metis
  with assms(2) that show ?thesis by auto
qed

lemma tree_shape_cong:
  assumes eq: "skeleton t = skeleton t'" and "tree_shape t"
  shows "tree_shape t'"
proof -
  note t = assms(2) [unfolded tree_shape_def]
  obtain root where root: "bt_get (rt_nodes t) (rt_root_node_id t) = Some root" "rn_parent_node_id root = None"
    "rn_depth root = 0" "rn_ancestor_fingerprints root = []"
    using t by blast
  have root': "\<exists>root. bt_get (rt_nodes t') (rt_root_node_id t') = Some root \<and> rn_parent_node_id root = None \<and>
      rn_depth root = 0 \<and> rn_ancestor_fingerprints root = []"
    using skeleton_getE [OF eq [symmetric] root(1)] root skeleton_eqD(1) [OF eq]
    by (metis static_eqD(2,3,4))
  have ids: "rn_node_id n' = k" if "bt_get (rt_nodes t') k = Some n'" for k n'
    using skeleton_getE [OF eq that] t static_eqD(1) by metis
  have parents: "\<exists>pk p. rn_parent_node_id n' = Some pk \<and> bt_get (rt_nodes t') pk = Some p \<and> derives_from p n'"
    if n': "bt_get (rt_nodes t') k = Some n'" "k \<noteq> rt_root_node_id t'" for k n'
  proof -
    obtain n where n: "bt_get (rt_nodes t) k = Some n" "node_static n = node_static n'"
      using skeleton_getE [OF eq n'(1)] .
    then obtain pk p where p: "rn_parent_node_id n = Some pk" "bt_get (rt_nodes t) pk = Some p" "derives_from p n"
      using t n'(2) skeleton_eqD(1) [OF eq] by metis
    obtain p' where p': "bt_get (rt_nodes t') pk = Some p'" "node_static p' = node_static p"
      using skeleton_getE [OF eq [symmetric] p(2)] .
    have "derives_from p' n'"
      using p(3) unfolding derives_from_def static_eqD [OF p'(2)] static_eqD [OF n(2)] .
    then show ?thesis using p(1) p'(1) static_eqD(2) [OF n(2)] by auto
  qed
  show ?thesis
    unfolding tree_shape_def using t root' ids parents skeleton_eqD(6) [OF eq] by blast
qed

lemma tree_bounds_cong:
  assumes eq: "skeleton t = skeleton t'" and "tree_bounds t"
  shows "tree_bounds t'"
  unfolding tree_bounds_def
proof (intro conjI allI impI)
  show "length (rt_nodes t') \<le> MAX_RECURSIVE_NODES_PER_ROOT"
    using assms(2) skeleton_eqD(7) [OF eq] by (simp add: tree_bounds_def)
  fix k n' assume n': "bt_get (rt_nodes t') k = Some n'"
  obtain n where n: "bt_get (rt_nodes t) k = Some n" "node_static n = node_static n'"
    using skeleton_getE [OF eq n'] .
  note static = static_eqD [OF n(2)] and tree = skeleton_eqD [OF eq]
  have b: "rn_depth n \<le> MAX_RECURSIVE_DEPTH \<and> length (rn_ancestor_fingerprints n) = rn_depth n \<and>
      rn_accepted_children n = child_count t k \<and>
      rn_accepted_children n \<le> MAX_ACCEPTED_CHILDREN_PER_NODE \<and>
      scope_capabilities (rn_scope n) = rn_capabilities n \<and> rn_root_run_id n = rt_root_run_id t \<and>
      (k \<noteq> rt_root_node_id t \<longrightarrow> ''handoff'' \<notin> rn_capabilities n)"
    using assms(2) n(1) unfolding tree_bounds_def by blast
  show "rn_depth n' \<le> MAX_RECURSIVE_DEPTH" "length (rn_ancestor_fingerprints n') = rn_depth n'"
    "rn_accepted_children n' = child_count t' k"
    "rn_accepted_children n' \<le> MAX_ACCEPTED_CHILDREN_PER_NODE"
    "scope_capabilities (rn_scope n') = rn_capabilities n'" "rn_root_run_id n' = rt_root_run_id t'"
    "k \<noteq> rt_root_node_id t' \<Longrightarrow> ''handoff'' \<notin> rn_capabilities n'"
    using b unfolding static tree by auto
qed

lemma tree_identity_cong:
  assumes eq: "skeleton t = skeleton t'" and "tree_identity pf t"
  shows "tree_identity pf t'"
proof -
  note t = assms(2) [unfolded tree_identity_def]
  note tree = skeleton_eqD [OF eq]
  have get: "\<exists>n. bt_get (rt_nodes t) k = Some n \<and> rn_objective_fingerprint n = rn_objective_fingerprint n' \<and>
      rn_proposal_id n = rn_proposal_id n'" if "bt_get (rt_nodes t') k = Some n'" for k n'
    using skeleton_getE [OF eq that] static_eqD(5,12) by metis
  have get': "\<exists>n'. bt_get (rt_nodes t') k = Some n' \<and> rn_proposal_id n' = rn_proposal_id n"
    if "bt_get (rt_nodes t) k = Some n" for k n
    using skeleton_getE [OF eq [symmetric] that] static_eqD(12) by metis
  show ?thesis
    unfolding tree_identity_def
  proof (intro conjI allI impI ballI)
    fix k n k' n'
    assume "bt_get (rt_nodes t') k = Some n" "bt_get (rt_nodes t') k' = Some n'"
      "rn_objective_fingerprint n = rn_objective_fingerprint n'"
    then show "k = k'" using get t by metis
  next
    fix k n assume "bt_get (rt_nodes t') k = Some n"
    then show "(rn_proposal_id n = None) = (k = rt_root_node_id t')" using get t tree(1) by metis
  next
    fix k n pid assume *: "bt_get (rt_nodes t') k = Some n" "rn_proposal_id n = Some pid"
    then show "pid \<in> rt_accepted_proposals t'" using get t tree(3) by metis
    from * show "k = derived_node_id pf (rt_root_run_id t') pid (rn_objective_fingerprint n)"
      using get t tree(2) by metis
  next
    fix k n k' n' pid
    assume "bt_get (rt_nodes t') k = Some n" "bt_get (rt_nodes t') k' = Some n'"
      "rn_proposal_id n = Some pid" "rn_proposal_id n' = Some pid"
    then show "k = k'" using get t by metis
  next
    fix pid assume "pid \<in> rt_accepted_proposals t'"
    then show "\<exists>k n. bt_get (rt_nodes t') k = Some n \<and> rn_proposal_id n = Some pid"
      using get' t tree(3) by metis
  qed (use t tree(3,4) in auto)
qed

lemma lineage_cong: "skeleton t' = skeleton t \<Longrightarrow> lineage pf t \<Longrightarrow> lineage pf t'"
  unfolding lineage_def by (metis tree_shape_cong tree_bounds_cong tree_identity_cong)

section \<open>Admission\<close>

text \<open>No node of the tree carries the identifier that the hash derives for the proposal.\<close>

definition fresh_child :: "platform \<Rightarrow> recursive_tree \<Rightarrow> recursive_proposal \<Rightarrow> bool" where
  "fresh_child pf t p \<longleftrightarrow> bt_get (rt_nodes t) (derived_node_id pf (rt_root_run_id t) (rp_proposal_id p)
     (objective_fingerprint pf (rp_objective p))) = None"

lemma admit_child_OkE:
  assumes "admit_child pf t p = Ok (a, t')"
  obtains parent where
    "bt_get (rt_nodes t) (rp_parent_node_id p) = Some parent" "rt_execution_state t = Running"
    "rn_depth parent < MAX_RECURSIVE_DEPTH"
    "rn_accepted_children parent < MAX_ACCEPTED_CHILDREN_PER_NODE"
    "length (rt_nodes t) < MAX_RECURSIVE_NODES_PER_ROOT"
    "rp_requested_capabilities p \<subseteq> rn_capabilities parent"
    "is_subset_of (rp_requested_scope p) (rn_scope parent)"
    "\<forall>n \<in> set (bt_values (rt_nodes t)). rn_objective_fingerprint n \<noteq> objective_fingerprint pf (rp_objective p)"
    "is_nonzero (effective_budget t parent p)" "\<not> over_limit t (effective_budget t parent p)"
    "rp_proposal_id p \<notin> rt_accepted_proposals t" "shape_is_valid p"
    "a = \<lparr>ra_node = child_node pf t parent p, ra_parent_version = inc_u64 (rn_version parent)\<rparr>"
    "t' = admitted_tree pf t parent p"
    "recursive_enabled pf" "\<not> kill_switch_active pf" "rn_version parent = rp_parent_version p"
    "bt_get (rt_rejected_proposals t) (rp_proposal_id p) = None"
proof -
  obtain u where guard: "activity_guard pf t = Ok u"
    using assms by (auto simp: admit_child_def bind_result_Ok_iff)
  then have state: "rt_execution_state t = Running" "recursive_enabled pf" "\<not> kill_switch_active pf"
    by (auto simp: activity_guard_def split: if_splits recursive_execution_state.splits)
  obtain parent where parent: "bt_get (rt_nodes t) (rp_parent_node_id p) = Some parent"
    using assms guard by (auto simp: admit_child_def split: if_splits option.splits)
  show ?thesis
    by (rule that [OF parent state(1)])
      (use assms guard parent state in \<open>auto simp: admit_child_def Let_def list_ex_iff
        split: if_splits option.splits\<close>)
qed

lemma child_node_sel [simp]:
  "rn_node_id (child_node pf t parent p) =
     derived_node_id pf (rt_root_run_id t) (rp_proposal_id p) (objective_fingerprint pf (rp_objective p))"
  "rn_parent_node_id (child_node pf t parent p) = Some (rn_node_id parent)"
  "rn_depth (child_node pf t parent p) = rn_depth parent + 1"
  "rn_objective_fingerprint (child_node pf t parent p) = objective_fingerprint pf (rp_objective p)"
  "rn_ancestor_fingerprints (child_node pf t parent p) =
     rn_ancestor_fingerprints parent @ [rn_objective_fingerprint parent]"
  "rn_capabilities (child_node pf t parent p) = heritable_recursive_capabilities (rp_requested_capabilities p)"
  "rn_scope (child_node pf t parent p) = (rp_requested_scope p)
     \<lparr>scope_capabilities := heritable_recursive_capabilities (rp_requested_capabilities p)\<rparr>"
  "rn_accepted_children (child_node pf t parent p) = 0"
  "rn_proposal_id (child_node pf t parent p) = Some (rp_proposal_id p)"
  "rn_root_run_id (child_node pf t parent p) = rt_root_run_id t"
  "rn_tenant_id (child_node pf t parent p) = rn_tenant_id parent"
  "rn_workspace_id (child_node pf t parent p) = rn_workspace_id parent"
  "rn_budget (child_node pf t parent p) = effective_budget t parent p"
  "rn_budget_limit (child_node pf t parent p) = effective_budget t parent p"
  "rn_child_budget (child_node pf t parent p) = effective_budget t parent p"
  "rn_child_budget_limit (child_node pf t parent p) = effective_budget t parent p"
  "rn_reservation (child_node pf t parent p) = effective_budget t parent p"
  "rn_actual_usage (child_node pf t parent p) = zero_budget"
  "rn_status (child_node pf t parent p) = Ready" "rn_lease_id (child_node pf t parent p) = None"
  "rn_retry_count (child_node pf t parent p) = 0"
  by (simp_all add: child_node_def Let_def)

lemma child_derives:
  assumes "rp_requested_capabilities p \<subseteq> rn_capabilities parent"
    "is_subset_of (rp_requested_scope p) (rn_scope parent)"
    "scope_capabilities (rn_scope parent) = rn_capabilities parent"
  shows "derives_from parent (child_node pf t parent p)"
  using assms
  by (auto simp: derives_from_def is_subset_of_def heritable_recursive_capabilities_def)

lemma admitted_nodes:
  "rt_nodes (admitted_tree pf t parent p) =
     bt_put (rn_node_id (child_node pf t parent p)) (child_node pf t parent p)
       (bt_modify (rn_node_id parent) (parent_update (effective_budget t parent p)) (rt_nodes t))"
  by (simp add: admitted_tree_def Let_def)

lemma admitted_get:
  assumes "bt_get (rt_nodes t) (rn_node_id parent) = Some parent"
  shows "bt_get (rt_nodes (admitted_tree pf t parent p)) k =
    (if k = rn_node_id (child_node pf t parent p) then Some (child_node pf t parent p)
     else if k = rn_node_id parent then Some (parent_update (effective_budget t parent p) parent)
     else bt_get (rt_nodes t) k)"
  using assms by (simp add: admitted_nodes map_laws)

lemma parent_update_sel [simp]:
  "rn_node_id (parent_update b n) = rn_node_id n" "rn_parent_node_id (parent_update b n) = rn_parent_node_id n"
  "rn_depth (parent_update b n) = rn_depth n"
  "rn_ancestor_fingerprints (parent_update b n) = rn_ancestor_fingerprints n"
  "rn_objective_fingerprint (parent_update b n) = rn_objective_fingerprint n"
  "rn_capabilities (parent_update b n) = rn_capabilities n" "rn_scope (parent_update b n) = rn_scope n"
  "rn_tenant_id (parent_update b n) = rn_tenant_id n" "rn_workspace_id (parent_update b n) = rn_workspace_id n"
  "rn_root_run_id (parent_update b n) = rn_root_run_id n" "rn_proposal_id (parent_update b n) = rn_proposal_id n"
  "rn_accepted_children (parent_update b n) = rn_accepted_children n + 1"
  "rn_reservation (parent_update b n) = rn_reservation n" "rn_budget (parent_update b n) = rn_budget n"
  "rn_budget_limit (parent_update b n) = rn_budget_limit n"
  "rn_actual_usage (parent_update b n) = rn_actual_usage n"
  "rn_child_budget (parent_update b n) = spend (rn_child_budget n) b"
  "rn_child_budget_limit (parent_update b n) = rn_child_budget_limit n"
  "rn_status (parent_update b n) = rn_status n" "rn_lease_id (parent_update b n) = rn_lease_id n"
  "rn_retry_count (parent_update b n) = rn_retry_count n"
  by (simp_all add: parent_update_def)

lemma admitted_sel [simp]:
  "rt_root_node_id (admitted_tree pf t parent p) = rt_root_node_id t"
  "rt_root_run_id (admitted_tree pf t parent p) = rt_root_run_id t"
  "rt_accepted_proposals (admitted_tree pf t parent p) = insert (rp_proposal_id p) (rt_accepted_proposals t)"
  "rt_receipts (admitted_tree pf t parent p) = bt_put (rp_proposal_id p) (rp_receipt_sha256 p) (rt_receipts t)"
  "rt_root_budget_limit (admitted_tree pf t parent p) = rt_root_budget_limit t"
  "rt_root_child_budget_limit (admitted_tree pf t parent p) = rt_root_child_budget_limit t"
  "rt_root_budget (admitted_tree pf t parent p) = spend (rt_root_budget t) (effective_budget t parent p)"
  "rt_reserved_budget (admitted_tree pf t parent p) = add_budget (rt_reserved_budget t) (effective_budget t parent p)"
  "rt_spent_budget (admitted_tree pf t parent p) = rt_spent_budget t"
  "rt_active_leases (admitted_tree pf t parent p) = rt_active_leases t"
  "rt_execution_state (admitted_tree pf t parent p) = rt_execution_state t"
  "rt_usage_receipts (admitted_tree pf t parent p) = rt_usage_receipts t"
  "rt_rejected_proposals (admitted_tree pf t parent p) = rt_rejected_proposals t"
  by (simp_all add: admitted_tree_def Let_def)

lemma child_count_admitted:
  assumes "bt_get (rt_nodes t) (rn_node_id (child_node pf t parent p)) = None"
    "bt_get (rt_nodes t) (rn_node_id parent) = Some parent"
  shows "child_count (admitted_tree pf t parent p) k =
    child_count t k + (if k = rn_node_id parent then 1 else 0)"
proof -
  let ?f = "\<lambda>n. if rn_parent_node_id n = Some k then 1 else 0 :: nat"
  let ?m = "bt_modify (rn_node_id parent) (parent_update (effective_budget t parent p)) (rt_nodes t)"
  have "rn_node_id (child_node pf t parent p) \<noteq> rn_node_id parent" using assms by auto
  then have "bt_get ?m (rn_node_id (child_node pf t parent p)) = None" using assms(1) by (simp add: map_laws)
  then show ?thesis
    unfolding child_count_def admitted_nodes
    by (simp add: bt_sum_put_fresh bt_sum_modify_same del: child_node_sel(1))
qed

lemma tree_shape_wf: "tree_shape t \<Longrightarrow> bt_wf (rt_nodes t)"
  by (simp add: tree_shape_def)

lemma tree_shape_id: "tree_shape t \<Longrightarrow> bt_get (rt_nodes t) k = Some n \<Longrightarrow> rn_node_id n = k"
  by (simp add: tree_shape_def)

lemma tree_shape_rootE:
  assumes "tree_shape t"
  obtains root where "bt_get (rt_nodes t) (rt_root_node_id t) = Some root" "rn_parent_node_id root = None"
    "rn_depth root = 0" "rn_ancestor_fingerprints root = []"
  using assms unfolding tree_shape_def by blast

lemma tree_shape_parentE:
  assumes "tree_shape t" "bt_get (rt_nodes t) k = Some n" "k \<noteq> rt_root_node_id t"
  obtains pk p where "rn_parent_node_id n = Some pk" "bt_get (rt_nodes t) pk = Some p" "derives_from p n"
  using assms unfolding tree_shape_def by blast

lemma tree_shape_valuesE:
  assumes "tree_shape t" "n \<in> set (bt_values (rt_nodes t))"
  obtains k where "bt_get (rt_nodes t) k = Some n"
  using bt_values_get [OF bt_wf_distinct [OF tree_shape_wf [OF assms(1)]]] assms(2) by blast

lemma tree_shape_no_orphan:
  assumes shape: "tree_shape t" and none: "bt_get (rt_nodes t) k = None"
    and n: "n \<in> set (bt_values (rt_nodes t))"
  shows "rn_parent_node_id n \<noteq> Some k"
proof -
  obtain j where j: "bt_get (rt_nodes t) j = Some n" using tree_shape_valuesE [OF shape n] .
  show ?thesis
  proof (cases "j = rt_root_node_id t")
    case True
    then show ?thesis using j tree_shape_rootE [OF shape] by (metis option.distinct(1) option.inject)
  next
    case False
    then show ?thesis using tree_shape_parentE [OF shape j] none by (metis option.distinct(1) option.inject)
  qed
qed

lemma child_count_zero:
  assumes "tree_shape t" "bt_get (rt_nodes t) k = None"
  shows "child_count t k = 0"
  using tree_shape_no_orphan [OF assms] by (auto simp: child_count_def bt_sum_def intro!: sum_list_0)

lemma admit_shape:
  assumes shape: "tree_shape t" and fresh: "bt_get (rt_nodes t) (rn_node_id (child_node pf t parent p)) = None"
    and parent: "bt_get (rt_nodes t) (rn_node_id parent) = Some parent"
    and der: "derives_from parent (child_node pf t parent p)"
  shows "tree_shape (admitted_tree pf t parent p)"
proof -
  let ?t = "admitted_tree pf t parent p"
  define c where "c = child_node pf t parent p"
  define q where "q = parent_update (effective_budget t parent p) parent"
  have get: "bt_get (rt_nodes ?t) k = (if k = rn_node_id c then Some c
      else if k = rn_node_id parent then Some q else bt_get (rt_nodes t) k)" for k
    unfolding c_def q_def by (rule admitted_get [OF parent])
  have c: "rn_parent_node_id c = Some (rn_node_id parent)" by (simp add: c_def)
  have q: "rn_node_id q = rn_node_id parent" "rn_parent_node_id q = rn_parent_node_id parent"
      "rn_depth q = rn_depth parent" "rn_ancestor_fingerprints q = rn_ancestor_fingerprints parent"
    by (simp_all add: q_def)
  have q_der: "derives_from q n \<longleftrightarrow> derives_from parent n" "derives_from n q \<longleftrightarrow> derives_from n parent" for n
    by (simp_all add: q_def derives_from_def)
  obtain root where root: "bt_get (rt_nodes t) (rt_root_node_id t) = Some root" "rn_parent_node_id root = None"
    "rn_depth root = 0" "rn_ancestor_fingerprints root = []"
    using tree_shape_rootE [OF shape] .
  have fresh': "bt_get (rt_nodes t) (rn_node_id c) = None" using fresh by (simp only: c_def)
  have ne: "rn_node_id c \<noteq> rn_node_id parent" "rn_node_id c \<noteq> rt_root_node_id t"
    using fresh' parent root(1) by auto
  have wf: "bt_wf (rt_nodes ?t)" using tree_shape_wf [OF shape] by (simp add: admitted_nodes bt_wf_put)
  have ids: "rn_node_id n = k" if "bt_get (rt_nodes ?t) k = Some n" for k n
    using that tree_shape_id [OF shape] q(1) by (auto simp: get split: if_splits)
  have root': "\<exists>r. bt_get (rt_nodes ?t) (rt_root_node_id ?t) = Some r \<and> rn_parent_node_id r = None \<and>
      rn_depth r = 0 \<and> rn_ancestor_fingerprints r = []"
  proof (cases "rt_root_node_id t = rn_node_id parent")
    case True
    then have "root = parent" using root(1) parent by simp
    then show ?thesis using True ne q root by (auto simp: get)
  next
    case False
    then show ?thesis using ne root by (auto simp: get)
  qed
  have keep: "\<exists>r'. bt_get (rt_nodes ?t) k = Some r' \<and> (derives_from r' n \<longleftrightarrow> derives_from r n)"
    if "bt_get (rt_nodes t) k = Some r" for k r n
  proof (cases "k = rn_node_id parent")
    case True
    then have "r = parent" using that parent by simp
    then show ?thesis using True ne(1) q_der(1) by (simp add: get)
  next
    case False
    then show ?thesis using that fresh' by (cases "k = rn_node_id c") (auto simp: get)
  qed
  have par: "\<exists>pk r. rn_parent_node_id n = Some pk \<and> bt_get (rt_nodes ?t) pk = Some r \<and> derives_from r n"
    if n: "bt_get (rt_nodes ?t) k = Some n" "k \<noteq> rt_root_node_id t" for k n
  proof (cases "k = rn_node_id c")
    case True
    then have "n = c" using n(1) by (simp add: get)
    then show ?thesis using keep [OF parent, of c] der c by (auto simp: c_def [symmetric])
  next
    case False
    define n0 where "n0 = (if k = rn_node_id parent then parent else n)"
    have "bt_get (rt_nodes t) k = Some n0" "rn_parent_node_id n0 = rn_parent_node_id n"
      "derives_from r n \<longleftrightarrow> derives_from r n0" for r
      using n(1) False parent q q_der by (auto simp: get n0_def split: if_splits)
    then show ?thesis using tree_shape_parentE [OF shape _ n(2)] keep by metis
  qed
  show ?thesis unfolding tree_shape_def using wf ids root' par by simp
qed

lemma admitted_cases:
  assumes "bt_get (rt_nodes t) (rn_node_id parent) = Some parent"
    "bt_get (rt_nodes (admitted_tree pf t parent p)) k = Some n"
  obtains (child) "k = rn_node_id (child_node pf t parent p)" "n = child_node pf t parent p"
  | (parent) "k = rn_node_id parent" "k \<noteq> rn_node_id (child_node pf t parent p)"
      "n = parent_update (effective_budget t parent p) parent"
  | (other) "k \<noteq> rn_node_id parent" "k \<noteq> rn_node_id (child_node pf t parent p)" "bt_get (rt_nodes t) k = Some n"
  using assms(2) unfolding admitted_get [OF assms(1)] by (metis option.inject)

lemma admit_bounds:
  assumes shape: "tree_shape t" and bounds: "tree_bounds t"
    and fresh: "bt_get (rt_nodes t) (rn_node_id (child_node pf t parent p)) = None"
    and parent: "bt_get (rt_nodes t) (rn_node_id parent) = Some parent"
    and guards: "rn_depth parent < MAX_RECURSIVE_DEPTH"
      "rn_accepted_children parent < MAX_ACCEPTED_CHILDREN_PER_NODE"
      "length (rt_nodes t) < MAX_RECURSIVE_NODES_PER_ROOT"
  shows "tree_bounds (admitted_tree pf t parent p)"
  unfolding tree_bounds_def
proof (intro conjI allI impI)
  let ?t = "admitted_tree pf t parent p"
  show "length (rt_nodes ?t) \<le> MAX_RECURSIVE_NODES_PER_ROOT"
    unfolding admitted_nodes using length_bt_put_le guards(3)
    by (metis Suc_leI length_bt_modify order_trans)
  fix k n assume n: "bt_get (rt_nodes ?t) k = Some n"
  note old = bounds [unfolded tree_bounds_def, THEN conjunct2, rule_format]
  have "rn_depth n \<le> MAX_RECURSIVE_DEPTH \<and> length (rn_ancestor_fingerprints n) = rn_depth n \<and>
      rn_accepted_children n = child_count ?t k \<and> rn_accepted_children n \<le> MAX_ACCEPTED_CHILDREN_PER_NODE \<and>
      scope_capabilities (rn_scope n) = rn_capabilities n \<and> rn_root_run_id n = rt_root_run_id t \<and>
      (k \<noteq> rt_root_node_id t \<longrightarrow> ''handoff'' \<notin> rn_capabilities n)"
    using parent n
  proof (cases rule: admitted_cases)
    case child
    have "rn_node_id (child_node pf t parent p) \<noteq> rn_node_id parent" using fresh parent by auto
    then have "child_count ?t k = 0"
      unfolding child child_count_admitted [OF fresh parent] using child_count_zero [OF shape fresh] by simp
    then show ?thesis
      using child(2) guards(1) old [OF parent]
      by (simp add: heritable_recursive_capabilities_def RECURSIVE_NON_HERITABLE_CAPABILITIES_def)
  next
    case parent
    then show ?thesis
      using guards(2) old [OF assms(4)] child_count_admitted [OF fresh assms(4), of k] by simp
  next
    case other
    then show ?thesis
      using old [OF other(3)] child_count_admitted [OF fresh parent, of k] by simp
  qed
  then show "rn_depth n \<le> MAX_RECURSIVE_DEPTH" "length (rn_ancestor_fingerprints n) = rn_depth n"
    "rn_accepted_children n = child_count ?t k" "rn_accepted_children n \<le> MAX_ACCEPTED_CHILDREN_PER_NODE"
    "scope_capabilities (rn_scope n) = rn_capabilities n" "rn_root_run_id n = rt_root_run_id ?t"
    "k \<noteq> rt_root_node_id ?t \<Longrightarrow> ''handoff'' \<notin> rn_capabilities n"
    by auto
qed

lemma admit_identity:
  assumes shape: "tree_shape t" and ident: "tree_identity pf t"
    and fresh: "bt_get (rt_nodes t) (rn_node_id (child_node pf t parent p)) = None"
    and parent: "bt_get (rt_nodes t) (rn_node_id parent) = Some parent"
    and guards: "rp_proposal_id p \<notin> rt_accepted_proposals t"
      "\<forall>n \<in> set (bt_values (rt_nodes t)). rn_objective_fingerprint n \<noteq> objective_fingerprint pf (rp_objective p)"
  shows "tree_identity pf (admitted_tree pf t parent p)"
proof -
  let ?t = "admitted_tree pf t parent p"
  define c where "c = child_node pf t parent p"
  note old = ident [unfolded tree_identity_def]
  have c: "rn_objective_fingerprint c = objective_fingerprint pf (rp_objective p)"
    "rn_proposal_id c = Some (rp_proposal_id p)"
    "rn_node_id c = derived_node_id pf (rt_root_run_id t) (rp_proposal_id p) (rn_objective_fingerprint c)"
    by (simp_all add: c_def)
  have new: "rn_node_id c \<noteq> rt_root_node_id t"
    using fresh tree_shape_rootE [OF shape] c_def by (metis option.distinct(1))
  have view: "(k = rn_node_id c \<and> n = c) \<or> (k \<noteq> rn_node_id c \<and> (\<exists>m. bt_get (rt_nodes t) k = Some m \<and>
      rn_objective_fingerprint n = rn_objective_fingerprint m \<and> rn_proposal_id n = rn_proposal_id m \<and>
      rn_objective_fingerprint m \<noteq> rn_objective_fingerprint c \<and> rn_proposal_id m \<noteq> rn_proposal_id c))"
    if n: "bt_get (rt_nodes ?t) k = Some n" for k n
  proof -
    have other: "rn_objective_fingerprint m \<noteq> rn_objective_fingerprint c \<and> rn_proposal_id m \<noteq> rn_proposal_id c"
      if m: "bt_get (rt_nodes t) j = Some m" for j m
    proof
      show "rn_objective_fingerprint m \<noteq> rn_objective_fingerprint c"
        using guards(2) m bt_values_get [OF bt_wf_distinct [OF tree_shape_wf [OF shape]]] unfolding c by blast
      show "rn_proposal_id m \<noteq> rn_proposal_id c"
        using old m guards(1) unfolding c by metis
    qed
    show ?thesis
      using parent n
      by (cases rule: admitted_cases) (use other other [OF parent] parent in \<open>auto simp: c_def [symmetric]\<close>)
  qed
  have keep: "\<exists>n. bt_get (rt_nodes ?t) k = Some n \<and> rn_proposal_id n = rn_proposal_id m"
    if m: "bt_get (rt_nodes t) k = Some m" for k m
  proof -
    have "k \<noteq> rn_node_id c" using m fresh c_def by auto
    then show ?thesis using m parent by (auto simp: admitted_get [OF parent] c_def [symmetric])
  qed
  show ?thesis
    unfolding tree_identity_def
  proof (intro conjI allI impI ballI)
    fix k n k' n'
    assume "bt_get (rt_nodes ?t) k = Some n" "bt_get (rt_nodes ?t) k' = Some n'"
      "rn_objective_fingerprint n = rn_objective_fingerprint n'"
    then show "k = k'" using view old by metis
  next
    fix k n assume "bt_get (rt_nodes ?t) k = Some n"
    then show "(rn_proposal_id n = None) = (k = rt_root_node_id ?t)"
      using view [of k n] old new c(2) by (metis admitted_sel(1) option.distinct(1))
  next
    fix k n pid assume *: "bt_get (rt_nodes ?t) k = Some n" "rn_proposal_id n = Some pid"
    then show "pid \<in> rt_accepted_proposals ?t" using view [of k n] old c(2) by auto
    from * show "k = derived_node_id pf (rt_root_run_id ?t) pid (rn_objective_fingerprint n)"
      using view [of k n] old c by (metis admitted_sel(2) option.inject)
  next
    fix k n k' n' pid
    assume "bt_get (rt_nodes ?t) k = Some n" "bt_get (rt_nodes ?t) k' = Some n'"
      "rn_proposal_id n = Some pid" "rn_proposal_id n' = Some pid"
    then show "k = k'" using view old by metis
  next
    fix pid assume "pid \<in> rt_accepted_proposals ?t"
    then consider "pid = rp_proposal_id p" | "pid \<in> rt_accepted_proposals t" by auto
    then show "\<exists>k n. bt_get (rt_nodes ?t) k = Some n \<and> rn_proposal_id n = Some pid"
    proof cases
      case 1
      have "bt_get (rt_nodes ?t) (rn_node_id c) = Some c" by (simp add: admitted_get [OF parent] c_def)
      with 1 c(2) show ?thesis by blast
    next
      case 2
      then show ?thesis using old keep by metis
    qed
  next
    show "bt_wf (rt_receipts ?t)" using old by (simp add: bt_wf_put)
    show "rt_accepted_proposals ?t = fst ` set (rt_receipts ?t)"
      using old bt_keys_put [of "rp_proposal_id p" "rp_receipt_sha256 p" "rt_receipts t"] by simp
  qed
qed

lemma fresh_child_node: "fresh_child pf t p \<longleftrightarrow> bt_get (rt_nodes t) (rn_node_id (child_node pf t parent p)) = None"
  by (simp add: fresh_child_def)

lemma lineage_admit:
  assumes lin: "lineage pf t" and fresh: "fresh_child pf t p" and adm: "admit_child pf t p = Ok (a, t')"
  shows "lineage pf t'"
proof -
  note inv = lin [unfolded lineage_def]
  obtain parent where p: "bt_get (rt_nodes t) (rp_parent_node_id p) = Some parent"
    "rn_depth parent < MAX_RECURSIVE_DEPTH" "rn_accepted_children parent < MAX_ACCEPTED_CHILDREN_PER_NODE"
    "length (rt_nodes t) < MAX_RECURSIVE_NODES_PER_ROOT"
    "rp_requested_capabilities p \<subseteq> rn_capabilities parent"
    "is_subset_of (rp_requested_scope p) (rn_scope parent)"
    "\<forall>n \<in> set (bt_values (rt_nodes t)). rn_objective_fingerprint n \<noteq> objective_fingerprint pf (rp_objective p)"
    "rp_proposal_id p \<notin> rt_accepted_proposals t" "t' = admitted_tree pf t parent p"
    using admit_child_OkE [OF adm] by metis
  have parent: "bt_get (rt_nodes t) (rn_node_id parent) = Some parent"
    using p(1) inv tree_shape_id by metis
  have "scope_capabilities (rn_scope parent) = rn_capabilities parent"
    using inv p(1) unfolding tree_bounds_def by blast
  from admit_shape [OF _ _ parent child_derives [OF p(5,6) this]]
    admit_bounds [OF _ _ _ parent p(2,3,4)] admit_identity [OF _ _ _ parent p(8,7)]
  show ?thesis
    using inv fresh [unfolded fresh_child_node [of pf t p parent]] unfolding lineage_def p(9) by blast
qed

lemma new_tree_lineage:
  "lineage pf (new_with_root_node_id pf run_id workflow_id node_id objective scope capabilities budget)"
  by (auto simp: lineage_def tree_shape_def tree_bounds_def tree_identity_def new_with_root_node_id_def
      root_node_def child_count_def bt_sum_def recursive_limits bt_wf_def split: if_splits)

end
