(* ===== verification/Recursive_Accounting.thy ===== *)
theory Recursive_Accounting
  imports Recursive_Lineage
begin

text \<open>
  The money of a recursive tree. \<open>accounting X t\<close> says that the tree's remaining, reserved and spent
  budgets add up to its limit in every dimension, that the reserved and spent totals are the sums over
  the nodes, that every node's own budget and the budget it may give to children balance, and that
  exactly the live children hold a reservation. One lemma per movement (a charge to a child, a charge
  to the root, a release, an admission), and every operation of the tree is a sequence of movements.
\<close>

section \<open>The books\<close>

definition limit_of :: "recursive_tree \<Rightarrow> dim \<Rightarrow> nat" where
  "limit_of t d = (case rt_root_budget_limit t of None \<Rightarrow> 0 | Some limit \<Rightarrow> bget limit d)"

text \<open>What the children of a node have used or still hold.\<close>

definition child_use :: "recursive_tree \<Rightarrow> string \<Rightarrow> dim \<Rightarrow> nat" where
  "child_use t k d = bt_sum (\<lambda>c. if rn_parent_node_id c = Some k
     then bget (rn_actual_usage c) d + bget (rn_reservation c) d else 0) (rt_nodes t)"

definition totals :: "recursive_tree \<Rightarrow> dim \<Rightarrow> bool" where
  "totals t d \<longleftrightarrow>
     bget (rt_root_budget t) d + bget (rt_reserved_budget t) d + bget (rt_spent_budget t) d = limit_of t d \<and>
     limit_of t d < u64_max \<and>
     bget (rt_reserved_budget t) d = bt_sum (\<lambda>n. bget (rn_reservation n) d) (rt_nodes t) \<and>
     bget (rt_spent_budget t) d = bt_sum (\<lambda>n. bget (rn_actual_usage n) d) (rt_nodes t)"

definition books :: "recursive_tree \<Rightarrow> string \<Rightarrow> recursive_node \<Rightarrow> dim \<Rightarrow> bool" where
  "books t k n d \<longleftrightarrow>
     bget (rn_budget n) d + bget (rn_actual_usage n) d = bget (rn_budget_limit n) d \<and>
     bget (rn_child_budget n) d + child_use t k d = bget (rn_child_budget_limit n) d \<and>
     bget (rn_budget_limit n) d \<le> u64_max \<and> bget (rn_child_budget_limit n) d \<le> u64_max"

text \<open>
  A child holds what is left of its budget while it is live, and nothing afterwards; the root holds
  nothing. \<open>X\<close> collects the nodes that are terminal and whose release is still to come.
\<close>

definition held :: "string set \<Rightarrow> recursive_tree \<Rightarrow> string \<Rightarrow> recursive_node \<Rightarrow> bool" where
  "held X t k n \<longleftrightarrow> rn_reservation n =
     (if k \<noteq> rt_root_node_id t \<and> (is_live n \<or> k \<in> X) then rn_budget n else zero_budget)"

definition root_limits :: "recursive_tree \<Rightarrow> bool" where
  "root_limits t \<longleftrightarrow> (\<exists>root. bt_get (rt_nodes t) (rt_root_node_id t) = Some root \<and>
     rt_root_budget_limit t = Some (rn_budget_limit root) \<and>
     rt_root_child_budget_limit t = Some (rn_child_budget_limit root))"

definition accounting :: "string set \<Rightarrow> recursive_tree \<Rightarrow> bool" where
  "accounting X t \<longleftrightarrow> (\<forall>d. totals t d) \<and>
     (\<forall>k n. bt_get (rt_nodes t) k = Some n \<longrightarrow> (\<forall>d. books t k n d) \<and> held X t k n) \<and> root_limits t"

lemma accounting_totals: "accounting X t \<Longrightarrow> totals t d"
  by (simp add: accounting_def)

lemma accounting_books: "accounting X t \<Longrightarrow> bt_get (rt_nodes t) k = Some n \<Longrightarrow> books t k n d"
  by (simp add: accounting_def)

lemma accounting_held: "accounting X t \<Longrightarrow> bt_get (rt_nodes t) k = Some n \<Longrightarrow> held X t k n"
  by (simp add: accounting_def)

lemma accounting_root: "accounting X t \<Longrightarrow> root_limits t"
  by (simp add: accounting_def)

text \<open>The fields the books are kept in.\<close>

definition same_money :: "recursive_node \<Rightarrow> recursive_node \<Rightarrow> bool" where
  "same_money n' n \<longleftrightarrow> rn_parent_node_id n' = rn_parent_node_id n \<and> rn_budget n' = rn_budget n \<and>
     rn_budget_limit n' = rn_budget_limit n \<and> rn_child_budget n' = rn_child_budget n \<and>
     rn_child_budget_limit n' = rn_child_budget_limit n \<and> rn_reservation n' = rn_reservation n \<and>
     rn_actual_usage n' = rn_actual_usage n"

definition same_totals :: "recursive_tree \<Rightarrow> recursive_tree \<Rightarrow> bool" where
  "same_totals t' t \<longleftrightarrow> rt_root_budget t' = rt_root_budget t \<and> rt_reserved_budget t' = rt_reserved_budget t \<and>
     rt_spent_budget t' = rt_spent_budget t \<and> rt_root_budget_limit t' = rt_root_budget_limit t \<and>
     rt_root_child_budget_limit t' = rt_root_child_budget_limit t \<and> rt_root_node_id t' = rt_root_node_id t"

lemma bt_modify_getE:
  assumes "bt_get (bt_modify k g m) j = Some n'"
  obtains n where "bt_get m j = Some n" "n' = (if j = k then g n else n)"
  using assms by (auto simp: bt_get_modify split: if_splits)

text \<open>A step that moves no money, and may only change the status of one node.\<close>

lemma accounting_neutral:
  assumes acc: "accounting X t" and nodes: "rt_nodes t' = bt_modify k g (rt_nodes t)"
    and totals: "same_totals t' t" and money: "\<And>n. same_money (g n) n"
    and live: "\<And>n. bt_get (rt_nodes t) k = Some n \<Longrightarrow> k \<noteq> rt_root_node_id t \<Longrightarrow>
      (is_live (g n) \<or> k \<in> X') = (is_live n \<or> k \<in> X)"
    and others: "\<And>j. j \<noteq> k \<Longrightarrow> j \<in> X' \<longleftrightarrow> j \<in> X"
  shows "accounting X' t'"
proof -
  note eqs = money [unfolded same_money_def] totals [unfolded same_totals_def]
  have sums: "bt_sum (\<lambda>n. bget (rn_reservation n) d) (rt_nodes t') = bt_sum (\<lambda>n. bget (rn_reservation n) d) (rt_nodes t)"
    "bt_sum (\<lambda>n. bget (rn_actual_usage n) d) (rt_nodes t') = bt_sum (\<lambda>n. bget (rn_actual_usage n) d) (rt_nodes t)"
    "child_use t' j d = child_use t j d" "limit_of t' d = limit_of t d" for d j
    using eqs by (simp_all add: nodes bt_sum_modify_same child_use_def limit_of_def)
  have "(\<forall>d. books t' j n' d) \<and> held X' t' j n'" if n': "bt_get (rt_nodes t') j = Some n'" for j n'
  proof -
    obtain n where n: "bt_get (rt_nodes t) j = Some n" "n' = (if j = k then g n else n)"
      using n' unfolding nodes by (rule bt_modify_getE)
    have "books t' j n' d" for d
      using accounting_books [OF acc n(1), of d] n(2) eqs by (cases "j = k") (simp_all add: books_def sums)
    moreover have "held X' t' j n'"
    proof (cases "j = k")
      case True
      then show ?thesis
        using accounting_held [OF acc n(1)] n live [of n] eqs
        by (cases "k = rt_root_node_id t") (auto simp: held_def)
    next
      case False
      then show ?thesis
        using accounting_held [OF acc n(1)] n others [OF False] eqs(2) by (simp add: held_def)
    qed
    ultimately show ?thesis by blast
  qed
  moreover have "totals t' d" for d
    using accounting_totals [OF acc, of d] eqs by (simp add: totals_def sums)
  moreover have "root_limits t'"
    using accounting_root [OF acc] eqs by (auto simp: root_limits_def nodes bt_get_modify)
  ultimately show ?thesis by (simp add: accounting_def)
qed

lemma accounting_same:
  assumes "accounting X t" "rt_nodes t' = rt_nodes t" "same_totals t' t"
  shows "accounting X t'"
proof (rule accounting_neutral [OF assms(1) _ assms(3)])
  show "rt_nodes t' = bt_modify [] (\<lambda>n. n) (rt_nodes t)"
    by (simp add: assms(2) bt_modify_def)
qed (simp_all add: same_money_def bt_get_modify)


section \<open>Moving money\<close>

lemma bt_sum_change:
  fixes m :: "(string, 'v) btree_map"
  assumes "bt_wf m" "bt_get m k = Some v"
  shows "bt_sum f (bt_modify k g m) + f v = bt_sum f m + f (g v)"
  using bt_sum_modify [OF bt_wf_distinct [OF assms(1)] assms(2)] .

text \<open>A child uses part of what it holds.\<close>

definition charged :: "recursive_tree \<Rightarrow> string \<Rightarrow> recursive_budget \<Rightarrow> recursive_tree" where
  "charged t k usage = t\<lparr>rt_spent_budget := add_budget (rt_spent_budget t) usage,
     rt_reserved_budget := spend (rt_reserved_budget t) usage,
     rt_nodes := bt_modify k (charge_node usage) (rt_nodes t)\<rparr>"

lemma charge_node_sel [simp]:
  "rn_parent_node_id (charge_node u n) = rn_parent_node_id n"
  "rn_budget (charge_node u n) = spend (rn_budget n) u" "rn_budget_limit (charge_node u n) = rn_budget_limit n"
  "rn_child_budget (charge_node u n) = rn_child_budget n"
  "rn_child_budget_limit (charge_node u n) = rn_child_budget_limit n"
  "rn_reservation (charge_node u n) = spend (rn_reservation n) u"
  "rn_actual_usage (charge_node u n) = add_budget (rn_actual_usage n) u"
  "is_live (charge_node u n) = is_live n" "rn_status (charge_node u n) = rn_status n"
  by (simp_all add: charge_node_def is_live_def)

lemma charged_sel [simp]:
  "rt_root_node_id (charged t k u) = rt_root_node_id t" "rt_root_budget (charged t k u) = rt_root_budget t"
  "rt_root_budget_limit (charged t k u) = rt_root_budget_limit t"
  "rt_root_child_budget_limit (charged t k u) = rt_root_child_budget_limit t"
  "rt_nodes (charged t k u) = bt_modify k (charge_node u) (rt_nodes t)"
  "rt_spent_budget (charged t k u) = add_budget (rt_spent_budget t) u"
  "rt_reserved_budget (charged t k u) = spend (rt_reserved_budget t) u"
  by (simp_all add: charged_def)

lemma charge_moves:
  assumes acc: "accounting X t" and wf: "bt_wf (rt_nodes t)" and n: "bt_get (rt_nodes t) k = Some n"
    and fits: "can_spend (rn_reservation n) u" "can_spend (rn_budget n) u"
  shows "bget (rn_actual_usage (charge_node u n)) d = bget (rn_actual_usage n) d + bget u d"
    and "totals (charged t k u) d" and "child_use (charged t k u) j d = child_use t j d"
proof -
  note tot = accounting_totals [OF acc, of d, unfolded totals_def]
  note bk = accounting_books [OF acc n, of d, unfolded books_def]
  have u: "bget u d \<le> bget (rn_reservation n) d" "bget u d \<le> bget (rn_budget n) d"
    using fits by (simp_all add: can_spend_iff)
  have res: "bget (rn_reservation n) d \<le> bget (rt_reserved_budget t) d"
    using tot bt_sum_ge [OF n, of "\<lambda>n. bget (rn_reservation n) d"] by simp
  show actual: "bget (rn_actual_usage (charge_node u n)) d = bget (rn_actual_usage n) d + bget u d"
    using bk u by (simp add: bget_add saturating_add_exact)
  have spent: "bget (rt_spent_budget (charged t k u)) d = bget (rt_spent_budget t) d + bget u d"
    using tot u res by (simp add: bget_add saturating_add_exact)
  show "child_use (charged t k u) j d = child_use t j d"
    using bt_sum_change [OF wf n, of "\<lambda>c. if rn_parent_node_id c = Some j
        then bget (rn_actual_usage c) d + bget (rn_reservation c) d else 0" "charge_node u"] u actual
    by (simp add: child_use_def bget_spend split: if_splits)
  show "totals (charged t k u) d"
    using tot u res spent
      bt_sum_change [OF wf n, of "\<lambda>n. bget (rn_reservation n) d" "charge_node u"]
      bt_sum_change [OF wf n, of "\<lambda>n. bget (rn_actual_usage n) d" "charge_node u"] actual
    by (simp add: totals_def limit_of_def bget_spend)
qed

lemma accounting_charge:
  assumes acc: "accounting X t" and wf: "bt_wf (rt_nodes t)" and n: "bt_get (rt_nodes t) k = Some n"
    and k: "k \<noteq> rt_root_node_id t" "is_live n \<or> k \<in> X" and fits: "can_spend (rn_budget n) u"
  shows "accounting X (charged t k u)"
proof -
  have res: "rn_reservation n = rn_budget n" using accounting_held [OF acc n] k by (simp add: held_def)
  note moves = charge_moves [OF acc wf n fits [folded res] fits]
  have "(\<forall>d. books (charged t k u) j m' d) \<and> held X (charged t k u) j m'"
    if m': "bt_get (rt_nodes (charged t k u)) j = Some m'" for j m'
  proof -
    obtain m where m: "bt_get (rt_nodes t) j = Some m" "m' = (if j = k then charge_node u m else m)"
      using m' unfolding charged_sel by (rule bt_modify_getE)
    show ?thesis
    proof (cases "j = k")
      case True
      then have "m = n" "m' = charge_node u n" using m n by simp_all
      then show ?thesis
        using True accounting_books [OF acc n] accounting_held [OF acc n] moves(1,3) fits k res
        by (auto simp: books_def held_def bget_spend can_spend_iff)
    next
      case False
      then show ?thesis
        using m accounting_books [OF acc m(1)] accounting_held [OF acc m(1)] moves(3)
        by (simp add: books_def held_def)
    qed
  qed
  moreover have "root_limits (charged t k u)"
    using accounting_root [OF acc] k(1) by (auto simp: root_limits_def bt_get_modify)
  ultimately show ?thesis using moves(2) by (simp add: accounting_def)
qed

text \<open>The root uses part of the unallocated budget.\<close>

definition root_charged :: "recursive_tree \<Rightarrow> recursive_budget \<Rightarrow> recursive_tree" where
  "root_charged t usage = t\<lparr>rt_spent_budget := add_budget (rt_spent_budget t) usage,
     rt_root_budget := spend (rt_root_budget t) usage,
     rt_nodes := bt_modify (rt_root_node_id t) (charge_root usage) (rt_nodes t)\<rparr>"

lemma charge_root_sel [simp]:
  "rn_parent_node_id (charge_root u n) = rn_parent_node_id n"
  "rn_budget (charge_root u n) = spend (rn_budget n) u" "rn_budget_limit (charge_root u n) = rn_budget_limit n"
  "rn_child_budget (charge_root u n) = rn_child_budget n"
  "rn_child_budget_limit (charge_root u n) = rn_child_budget_limit n"
  "rn_reservation (charge_root u n) = rn_reservation n"
  "rn_actual_usage (charge_root u n) = add_budget (rn_actual_usage n) u"
  "is_live (charge_root u n) = is_live n" "rn_status (charge_root u n) = rn_status n"
  by (simp_all add: charge_root_def is_live_def)

lemma root_charged_sel [simp]:
  "rt_root_node_id (root_charged t u) = rt_root_node_id t"
  "rt_reserved_budget (root_charged t u) = rt_reserved_budget t"
  "rt_root_budget_limit (root_charged t u) = rt_root_budget_limit t"
  "rt_root_child_budget_limit (root_charged t u) = rt_root_child_budget_limit t"
  "rt_nodes (root_charged t u) = bt_modify (rt_root_node_id t) (charge_root u) (rt_nodes t)"
  "rt_spent_budget (root_charged t u) = add_budget (rt_spent_budget t) u"
  "rt_root_budget (root_charged t u) = spend (rt_root_budget t) u"
  by (simp_all add: root_charged_def)

lemma accounting_root_charge:
  assumes acc: "accounting X t" and shape: "tree_shape t"
    and n: "bt_get (rt_nodes t) (rt_root_node_id t) = Some n"
    and fits: "can_spend (rn_budget n) u" "can_spend (rt_root_budget t) u"
  shows "accounting X (root_charged t u)"
proof -
  let ?t = "root_charged t u"
  have parent: "rn_parent_node_id n = None" using tree_shape_rootE [OF shape] n by (metis option.inject)
  have u: "bget u d \<le> bget (rn_budget n) d" "bget u d \<le> bget (rt_root_budget t) d" for d
    using fits by (simp_all add: can_spend_iff)
  have actual: "bget (rn_actual_usage (charge_root u n)) d = bget (rn_actual_usage n) d + bget u d" for d
    using accounting_books [OF acc n, of d] u(1) [of d] by (simp add: bget_add saturating_add_exact books_def)
  have use: "child_use ?t j d = child_use t j d" for j d
    using bt_sum_change [OF tree_shape_wf [OF shape] n, of "\<lambda>c. if rn_parent_node_id c = Some j
        then bget (rn_actual_usage c) d + bget (rn_reservation c) d else 0" "charge_root u"] parent
    by (simp add: child_use_def)
  have tot: "totals ?t d" for d
    using accounting_totals [OF acc, of d] u(2) [of d] actual [of d]
      bt_sum_change [OF tree_shape_wf [OF shape] n, of "\<lambda>n. bget (rn_reservation n) d" "charge_root u"]
      bt_sum_change [OF tree_shape_wf [OF shape] n, of "\<lambda>n. bget (rn_actual_usage n) d" "charge_root u"]
    by (simp add: totals_def limit_of_def bget_spend bget_add saturating_add_exact)
  have "(\<forall>d. books ?t j m' d) \<and> held X ?t j m'" if m': "bt_get (rt_nodes ?t) j = Some m'" for j m'
  proof -
    obtain m where m: "bt_get (rt_nodes t) j = Some m"
      "m' = (if j = rt_root_node_id t then charge_root u m else m)"
      using m' unfolding root_charged_sel by (rule bt_modify_getE)
    show ?thesis
    proof (cases "j = rt_root_node_id t")
      case True
      then have "m = n" "m' = charge_root u n" using m n by simp_all
      then show ?thesis
        using True accounting_books [OF acc n] accounting_held [OF acc n] actual u
        by (auto simp: books_def held_def bget_spend use)
    next
      case False
      then show ?thesis
        using m accounting_books [OF acc m(1)] accounting_held [OF acc m(1)]
        by (simp add: books_def held_def use)
    qed
  qed
  moreover have "root_limits ?t"
    using accounting_root [OF acc] by (auto simp: root_limits_def bt_get_modify)
  ultimately show ?thesis using tot by (simp add: accounting_def)
qed

text \<open>A terminal child gives back what it holds, to the tree and to its parent.\<close>

lemma release_sel [simp]:
  "rt_root_node_id (release_node_reservation_for_persistence t k) = rt_root_node_id t"
  "rt_root_budget_limit (release_node_reservation_for_persistence t k) = rt_root_budget_limit t"
  "rt_root_child_budget_limit (release_node_reservation_for_persistence t k) = rt_root_child_budget_limit t"
  "rt_spent_budget (release_node_reservation_for_persistence t k) = rt_spent_budget t"
  "rt_execution_state (release_node_reservation_for_persistence t k) = rt_execution_state t"
  "rt_active_leases (release_node_reservation_for_persistence t k) = rt_active_leases t"
  "rt_usage_receipts (release_node_reservation_for_persistence t k) = rt_usage_receipts t"
  "rt_rejected_proposals (release_node_reservation_for_persistence t k) = rt_rejected_proposals t"
  by (auto simp: release_node_reservation_for_persistence_def Let_def split: option.splits)

definition unreserve :: "recursive_node \<Rightarrow> recursive_node" where
  "unreserve n = n\<lparr>rn_reservation := zero_budget\<rparr>"

definition refund :: "recursive_budget \<Rightarrow> recursive_node \<Rightarrow> recursive_node" where
  "refund r n = n\<lparr>rn_child_budget := add_budget (rn_child_budget n) r, rn_version := inc_u64 (rn_version n)\<rparr>"

lemma unreserve_sel [simp]:
  "rn_parent_node_id (unreserve n) = rn_parent_node_id n" "rn_budget (unreserve n) = rn_budget n"
  "rn_budget_limit (unreserve n) = rn_budget_limit n" "rn_child_budget (unreserve n) = rn_child_budget n"
  "rn_child_budget_limit (unreserve n) = rn_child_budget_limit n" "rn_reservation (unreserve n) = zero_budget"
  "rn_actual_usage (unreserve n) = rn_actual_usage n" "rn_status (unreserve n) = rn_status n"
  "is_live (unreserve n) = is_live n" "rn_lease_id (unreserve n) = rn_lease_id n"
  "rn_node_id (unreserve n) = rn_node_id n"
  by (simp_all add: unreserve_def is_live_def)

lemma refund_sel [simp]:
  "rn_parent_node_id (refund r n) = rn_parent_node_id n" "rn_budget (refund r n) = rn_budget n"
  "rn_budget_limit (refund r n) = rn_budget_limit n"
  "rn_child_budget (refund r n) = add_budget (rn_child_budget n) r"
  "rn_child_budget_limit (refund r n) = rn_child_budget_limit n" "rn_reservation (refund r n) = rn_reservation n"
  "rn_actual_usage (refund r n) = rn_actual_usage n" "rn_status (refund r n) = rn_status n"
  "is_live (refund r n) = is_live n" "rn_lease_id (refund r n) = rn_lease_id n"
  "rn_node_id (refund r n) = rn_node_id n"
  by (simp_all add: refund_def is_live_def)

lemma release_child:
  assumes "bt_get (rt_nodes t) k = Some n" "rn_parent_node_id n = Some pk"
  shows "rt_nodes (release_node_reservation_for_persistence t k) =
      bt_modify pk (refund (rn_reservation n)) (bt_modify k unreserve (rt_nodes t))"
    "rt_reserved_budget (release_node_reservation_for_persistence t k) =
      spend (rt_reserved_budget t) (rn_reservation n)"
    "rt_root_budget (release_node_reservation_for_persistence t k) =
      add_budget (rt_root_budget t) (rn_reservation n)"
  using assms
  by (simp_all add: release_node_reservation_for_persistence_def Let_def unreserve_def [abs_def] refund_def [abs_def])

lemma accounting_release:
  assumes acc: "accounting X t" and shape: "tree_shape t" and n: "bt_get (rt_nodes t) k = Some n"
    and dead: "\<not> is_live n" and k: "k \<noteq> rt_root_node_id t"
  shows "accounting (X - {k}) (release_node_reservation_for_persistence t k)"
proof -
  let ?t = "release_node_reservation_for_persistence t k" and ?r = "rn_reservation n"
  obtain pk p where p: "rn_parent_node_id n = Some pk" "bt_get (rt_nodes t) pk = Some p" "derives_from p n"
    using tree_shape_parentE [OF shape n k] .
  have pk: "pk \<noteq> k" using p n by (auto simp: derives_from_def)
  note rel = release_child [OF n p(1)]
  note wf = tree_shape_wf [OF shape]
  have r: "bget ?r d \<le> bget (rt_reserved_budget t) d" for d
    using accounting_totals [OF acc, of d] bt_sum_ge [OF n, of "\<lambda>n. bget (rn_reservation n) d"]
    by (simp add: totals_def)
  have use: "child_use ?t j d + (if j = pk then bget ?r d else 0) = child_use t j d" for j d
    using bt_sum_change [OF wf n, of "\<lambda>c. if rn_parent_node_id c = Some j
        then bget (rn_actual_usage c) d + bget (rn_reservation c) d else 0" unreserve] p(1)
    by (auto simp: child_use_def rel bget_zero bt_sum_modify_same)
  have tot: "totals ?t d" for d
    using accounting_totals [OF acc, of d] r [of d]
      bt_sum_change [OF wf n, of "\<lambda>n. bget (rn_reservation n) d" unreserve]
      bt_sum_change [OF wf n, of "\<lambda>n. bget (rn_actual_usage n) d" unreserve]
    by (simp add: totals_def limit_of_def rel bt_sum_modify_same bget_spend bget_add saturating_add_exact bget_zero)
  have "(\<forall>d. books ?t j m' d) \<and> held (X - {k}) ?t j m'" if m': "bt_get (rt_nodes ?t) j = Some m'" for j m'
  proof -
    obtain m where m: "bt_get (rt_nodes t) j = Some m"
      "m' = (if j = pk then refund ?r m else if j = k then unreserve m else m)"
      using m' pk unfolding rel by (auto simp: bt_get_modify split: if_splits)
    note old = accounting_books [OF acc m(1)] accounting_held [OF acc m(1)]
    have ex: "bget (rn_child_budget m) d + bget ?r d \<le> u64_max" if "j = pk" for d
      using old(1) [of d] use [of j d] that by (auto simp: books_def)
    have "books ?t j m' d" for d
      using old(1) [of d] use [of j d] m(2) ex [of d] pk
      by (auto simp: books_def bget_add saturating_add_exact split: if_splits)
    moreover have "held (X - {k}) ?t j m'"
    proof (cases "j = k")
      case True
      then have "m = n" using m n by simp
      then show ?thesis using True m(2) dead pk by (simp add: held_def)
    next
      case False
      then show ?thesis using old(2) m(2) by (simp add: held_def)
    qed
    ultimately show ?thesis by blast
  qed
  moreover have "root_limits ?t"
    using accounting_root [OF acc] k by (auto simp: root_limits_def rel bt_get_modify split: if_splits)
  ultimately show ?thesis using tot by (simp add: accounting_def)
qed

text \<open>The root reserves nothing, so releasing it moves nothing.\<close>

lemma bt_modify_trivial:
  assumes "bt_wf m" "bt_get m k = Some n" "g n = n"
  shows "bt_modify k g m = m"
proof -
  have "(case e of (a, b) \<Rightarrow> (a, if a = k then g b else b)) = e" if "e \<in> set m" for e
    using that assms eq_key_imp_eq_value [OF bt_wf_distinct [OF assms(1)] _ map_of_SomeD [OF assms(2)]]
    by (auto split: prod.split)
  then show ?thesis unfolding bt_modify_def by (intro map_idI)
qed

lemma accounting_release_root:
  assumes acc: "accounting X t" and shape: "tree_shape t"
  shows "accounting (X - {rt_root_node_id t}) (release_node_reservation_for_persistence t (rt_root_node_id t))"
proof -
  obtain root where root: "bt_get (rt_nodes t) (rt_root_node_id t) = Some root" "rn_parent_node_id root = None"
    using tree_shape_rootE [OF shape] by metis
  have zero: "rn_reservation root = zero_budget" using accounting_held [OF acc root(1)] by (simp add: held_def)
  have "bget (rt_root_budget t) d \<le> u64_max" for d
    using accounting_totals [OF acc, of d] by (simp add: totals_def)
  then have "add_budget (rt_root_budget t) zero_budget = rt_root_budget t"
    "spend (rt_reserved_budget t) zero_budget = rt_reserved_budget t"
    by (auto intro!: budget_eqI simp: budget_simps saturating_add_exact)
  then have rel: "release_node_reservation_for_persistence t (rt_root_node_id t) = t\<lparr>rt_version := inc_u64 (rt_version t)\<rparr>"
    using root zero bt_modify_trivial [OF tree_shape_wf [OF shape] root(1), of "rn_reservation_update (\<lambda>_. zero_budget)"]
    by (simp add: release_node_reservation_for_persistence_def)
  have "held (X - {rt_root_node_id t}) t j n" if "bt_get (rt_nodes t) j = Some n" for j n
    using accounting_held [OF acc that] by (simp add: held_def)
  then have "accounting (X - {rt_root_node_id t}) t" using acc by (simp add: accounting_def)
  then show ?thesis by (rule accounting_same) (simp_all add: rel same_totals_def)
qed

text \<open>An admission turns unallocated budget into the reservation of the new child.\<close>

lemma effective_budget_le:
  "bget (effective_budget t parent p) d \<le> bget (rn_child_budget parent) d"
  "bget (effective_budget t parent p) d \<le> bget (rt_root_budget t) d"
  "bget (effective_budget t parent p) d \<le> bget (rp_budget p) d"
  by (simp_all add: effective_budget_def bget_bounded)

lemma child_use_zero:
  assumes "tree_shape t" "bt_get (rt_nodes t) k = None"
  shows "child_use t k d = 0"
proof -
  have "rn_parent_node_id n \<noteq> Some k" if n: "n \<in> set (bt_values (rt_nodes t))" for n
    using tree_shape_no_orphan [OF assms n] .
  then show ?thesis by (auto simp: child_use_def bt_sum_def intro!: sum_list_0)
qed

lemma admit_sum:
  assumes fresh: "bt_get (rt_nodes t) (rn_node_id (child_node pf t parent p)) = None"
    and parent: "bt_get (rt_nodes t) (rn_node_id parent) = Some parent"
    and same: "\<And>n. f (parent_update (effective_budget t parent p) n) = f n"
  shows "bt_sum f (rt_nodes (admitted_tree pf t parent p)) = f (child_node pf t parent p) + bt_sum f (rt_nodes t)"
proof -
  have "rn_node_id (child_node pf t parent p) \<noteq> rn_node_id parent" using fresh parent by auto
  with fresh have "bt_get (bt_modify (rn_node_id parent) (parent_update (effective_budget t parent p)) (rt_nodes t))
      (rn_node_id (child_node pf t parent p)) = None" by (simp add: bt_get_modify)
  then show ?thesis
    unfolding admitted_nodes by (simp add: bt_sum_put_fresh bt_sum_modify_same same del: child_node_sel(1))
qed

lemma accounting_admit:
  assumes acc: "accounting X t" and shape: "tree_shape t"
    and fresh: "bt_get (rt_nodes t) (rn_node_id (child_node pf t parent p)) = None"
    and parent: "bt_get (rt_nodes t) (rn_node_id parent) = Some parent"
  shows "accounting X (admitted_tree pf t parent p)"
proof -
  let ?t = "admitted_tree pf t parent p"
  define c where "c = child_node pf t parent p"
  define e where "e = effective_budget t parent p"
  define i where "i = rn_node_id c"
  have c: "rn_parent_node_id c = Some (rn_node_id parent)" "rn_budget c = e" "rn_budget_limit c = e"
    "rn_child_budget c = e" "rn_child_budget_limit c = e" "rn_reservation c = e"
    "rn_actual_usage c = zero_budget" "is_live c"
    by (simp_all add: c_def e_def is_live_def)
  have e: "bget e d \<le> bget (rn_child_budget parent) d" "bget e d \<le> bget (rt_root_budget t) d" for d
    unfolding e_def by (rule effective_budget_le)+
  have i: "i \<noteq> rn_node_id parent" "i \<noteq> rt_root_node_id t" "bt_get (rt_nodes t) i = None"
    using fresh parent tree_shape_rootE [OF shape] unfolding i_def c_def by (metis option.distinct(1))+
  note sums = admit_sum [OF fresh parent, folded c_def]
  have use: "child_use ?t j d = (if j = rn_node_id parent then bget e d else 0) + child_use t j d" for j d
    unfolding child_use_def by (subst sums) (auto simp: c bget_zero)
  have tot: "totals ?t d" for d
    using accounting_totals [OF acc, of d] e [of d]
    by (simp add: totals_def limit_of_def sums c bget_zero bget_spend bget_add e_def [symmetric] saturating_add_exact)
  have small: "bget e d \<le> u64_max" for d
    using e(2) [of d] accounting_totals [OF acc, of d] by (simp add: totals_def)
  have "(\<forall>d. books ?t j m' d) \<and> held X ?t j m'" if m': "bt_get (rt_nodes ?t) j = Some m'" for j m'
    using parent m'
  proof (cases rule: admitted_cases)
    case child
    then have "j = i" "m' = c" by (simp_all add: i_def c_def)
    then show ?thesis
      using child_use_zero [OF shape i(3)] i c small by (simp add: books_def held_def use bget_zero)
  next
    case parent
    then show ?thesis
      using accounting_books [OF acc assms(4)] accounting_held [OF acc assms(4)] e
      by (auto simp: books_def held_def use bget_spend e_def [symmetric] is_live_def)
  next
    case other
    then show ?thesis
      using accounting_books [OF acc other(3)] accounting_held [OF acc other(3)]
      by (simp add: books_def held_def use)
  qed
  moreover have "root_limits ?t"
    using accounting_root [OF acc] i(2) parent
    by (auto simp: root_limits_def admitted_get [OF parent] c_def [symmetric] i_def [symmetric])
  ultimately show ?thesis using tot by (simp add: accounting_def)
qed

section \<open>Failing and releasing groups of nodes\<close>

lemma fail_node_sel [simp]:
  "rt_root_node_id (fail_node r t k) = rt_root_node_id t" "rt_root_budget (fail_node r t k) = rt_root_budget t"
  "rt_root_budget_limit (fail_node r t k) = rt_root_budget_limit t"
  "rt_root_child_budget_limit (fail_node r t k) = rt_root_child_budget_limit t"
  "rt_spent_budget (fail_node r t k) = rt_spent_budget t"
  "rt_reserved_budget (fail_node r t k) = rt_reserved_budget t"
  "rt_execution_state (fail_node r t k) = rt_execution_state t"
  "rt_usage_receipts (fail_node r t k) = rt_usage_receipts t"
  "rt_rejected_proposals (fail_node r t k) = rt_rejected_proposals t"
  by (auto simp: fail_node_def split: option.splits)

definition failed :: "recursive_failure_reason \<Rightarrow> recursive_node \<Rightarrow> recursive_node" where
  "failed r n = n\<lparr>rn_lease_id := None, rn_status := NodeFailed, rn_failure_reason := Some r,
     rn_version := inc_u64 (rn_version n)\<rparr>"

lemma failed_sel [simp]:
  "rn_status (failed r n) = NodeFailed" "rn_lease_id (failed r n) = None" "\<not> is_live (failed r n)"
  "same_money (failed r n) n" "rn_retry_count (failed r n) = rn_retry_count n"
  by (simp_all add: failed_def is_live_def same_money_def)

lemma fail_node_nodes: "rt_nodes (fail_node r t k) = bt_modify k (failed r) (rt_nodes t)"
proof (cases "bt_get (rt_nodes t) k")
  case None
  then have "k \<notin> fst ` set (rt_nodes t)" by (simp add: map_of_eq_None_iff)
  then show ?thesis using None by (simp add: fail_node_def bt_modify_absent)
next
  case (Some n)
  then show ?thesis by (simp add: fail_node_def failed_def [abs_def])
qed

lemma accounting_fail:
  assumes "accounting X t" "\<And>n. bt_get (rt_nodes t) k = Some n \<Longrightarrow> is_live n \<or> k \<in> X"
  shows "accounting (insert k X) (fail_node r t k)"
  by (rule accounting_neutral [OF assms(1) fail_node_nodes]) (use assms(2) in \<open>auto simp: same_totals_def\<close>)

lemma accounting_fail_all:
  assumes "accounting X t" "\<And>k n. k \<in> set ks \<Longrightarrow> bt_get (rt_nodes t) k = Some n \<Longrightarrow> is_live n \<or> k \<in> X"
  shows "accounting (X \<union> set ks) (foldl (fail_node r) t ks)"
  using assms
proof (induction ks arbitrary: t X)
  case Nil
  then show ?case by simp
next
  case (Cons k ks)
  have "accounting (insert k X \<union> set ks) (foldl (fail_node r) (fail_node r t k) ks)"
  proof (rule Cons.IH)
    show "accounting (insert k X) (fail_node r t k)" using Cons.prems by (auto intro: accounting_fail)
    show "is_live n \<or> j \<in> insert k X" if "j \<in> set ks" "bt_get (rt_nodes (fail_node r t k)) j = Some n" for j n
      using that Cons.prems(2) [of j] by (auto simp: fail_node_nodes bt_get_modify split: if_splits)
  qed
  then show ?case by simp
qed

lemma fail_all_get:
  "bt_get (rt_nodes (foldl (fail_node r) t ks)) j = Some n \<Longrightarrow>
   \<exists>m. bt_get (rt_nodes t) j = Some m \<and> rn_retry_count n = rn_retry_count m \<and>
     (if j \<in> set ks then rn_status n = NodeFailed \<and> rn_lease_id n = None else n = m)"
proof (induction ks arbitrary: t)
  case Nil
  then show ?case by simp
next
  case (Cons k ks)
  obtain m where "bt_get (rt_nodes (fail_node r t k)) j = Some m"
    "rn_retry_count n = rn_retry_count m"
    "if j \<in> set ks then rn_status n = NodeFailed \<and> rn_lease_id n = None else n = m"
    using Cons.IH [of "fail_node r t k"] Cons.prems by auto
  then show ?case by (auto simp: fail_node_nodes bt_get_modify split: if_splits)
qed

lemma release_get:
  assumes "bt_get (rt_nodes (release_node_reservation_for_persistence t k)) j = Some n"
  shows "\<exists>m. bt_get (rt_nodes t) j = Some m \<and> rn_status n = rn_status m \<and> rn_lease_id n = rn_lease_id m \<and>
     rn_retry_count n = rn_retry_count m"
  using assms
  by (auto simp: release_node_reservation_for_persistence_def Let_def bt_get_modify
      split: option.splits if_splits)

lemma release_all_get:
  "bt_get (rt_nodes (foldl release_node_reservation_for_persistence t ks)) j = Some n \<Longrightarrow>
   \<exists>m. bt_get (rt_nodes t) j = Some m \<and> rn_status n = rn_status m \<and> rn_lease_id n = rn_lease_id m \<and>
     rn_retry_count n = rn_retry_count m"
proof (induction ks arbitrary: t)
  case Nil
  then show ?case by simp
next
  case (Cons k ks)
  obtain m where "bt_get (rt_nodes (release_node_reservation_for_persistence t k)) j = Some m"
    "rn_status n = rn_status m" "rn_lease_id n = rn_lease_id m" "rn_retry_count n = rn_retry_count m"
    using Cons.IH [of "release_node_reservation_for_persistence t k"] Cons.prems by auto
  with release_get [OF this(1)] show ?case by auto
qed

lemma release_all_sel [simp]:
  "rt_root_node_id (foldl release_node_reservation_for_persistence t ks) = rt_root_node_id t"
  "rt_execution_state (foldl release_node_reservation_for_persistence t ks) = rt_execution_state t"
  "rt_active_leases (foldl release_node_reservation_for_persistence t ks) = rt_active_leases t"
  "rt_usage_receipts (foldl release_node_reservation_for_persistence t ks) = rt_usage_receipts t"
  "rt_rejected_proposals (foldl release_node_reservation_for_persistence t ks) = rt_rejected_proposals t"
  by (induction ks arbitrary: t) simp_all

lemma fail_all_sel [simp]:
  "rt_root_node_id (foldl (fail_node r) t ks) = rt_root_node_id t"
  "rt_execution_state (foldl (fail_node r) t ks) = rt_execution_state t"
  "rt_usage_receipts (foldl (fail_node r) t ks) = rt_usage_receipts t"
  "rt_rejected_proposals (foldl (fail_node r) t ks) = rt_rejected_proposals t"
  by (induction ks arbitrary: t) simp_all

lemma accounting_irrelevant:
  assumes "accounting X t" "bt_get (rt_nodes t) k = None"
  shows "accounting (X - {k}) t"
proof -
  have "held (X - {k}) t j n" if n: "bt_get (rt_nodes t) j = Some n" for j n
    using accounting_held [OF assms(1) n] n assms(2) by (cases "j = k") (simp_all add: held_def)
  then show ?thesis using assms(1) by (simp add: accounting_def)
qed

lemma accounting_release_all:
  assumes "accounting X t" "tree_shape t"
    "\<And>k n. k \<in> set ks \<Longrightarrow> bt_get (rt_nodes t) k = Some n \<Longrightarrow> \<not> is_live n"
  shows "accounting (X - set ks) (foldl release_node_reservation_for_persistence t ks)"
  using assms
proof (induction ks arbitrary: t X)
  case Nil
  then show ?case by simp
next
  case (Cons k ks)
  let ?t = "release_node_reservation_for_persistence t k"
  have "accounting (X - {k}) ?t"
  proof (cases "bt_get (rt_nodes t) k")
    case None
    then show ?thesis
      using accounting_irrelevant [OF Cons.prems(1)] by (simp add: release_node_reservation_for_persistence_def)
  next
    case (Some n)
    then show ?thesis
      using accounting_release [OF Cons.prems(1,2) Some] Cons.prems(3) [OF _ Some]
        accounting_release_root [OF Cons.prems(1,2)] by (cases "k = rt_root_node_id t") simp_all
  qed
  moreover have "tree_shape ?t" by (rule tree_shape_cong [OF _ Cons.prems(2)]) simp
  moreover have "\<not> is_live n" if "j \<in> set ks" "bt_get (rt_nodes ?t) j = Some n" for j n
    using release_get [OF that(2)] Cons.prems(3) [of j] that(1) by (auto simp: is_live_def)
  ultimately have "accounting (X - {k} - set ks) (foldl release_node_reservation_for_persistence ?t ks)"
    by (rule Cons.IH)
  moreover have "X - {k} - set ks = X - set (k # ks)" by auto
  ultimately show ?case by simp
qed

text \<open>Failing live nodes and releasing them is one balanced movement.\<close>

lemma accounting_fail_release:
  assumes acc: "accounting X t" and shape: "tree_shape t"
    and ks: "\<And>k n. k \<in> set ks \<Longrightarrow> bt_get (rt_nodes t) k = Some n \<Longrightarrow> is_live n"
  shows "accounting (X - set ks)
    (foldl release_node_reservation_for_persistence (foldl (fail_node r) t ks) ks)"
proof -
  let ?t = "foldl (fail_node r) t ks"
  have "accounting (X \<union> set ks) ?t" by (rule accounting_fail_all [OF acc]) (use ks in blast)
  moreover have "tree_shape ?t" by (rule tree_shape_cong [OF _ shape]) (simp add: foldl_skeleton)
  ultimately have "accounting (X \<union> set ks - set ks) (foldl release_node_reservation_for_persistence ?t ks)"
  proof (rule accounting_release_all)
    fix k n assume "k \<in> set ks" "bt_get (rt_nodes ?t) k = Some n"
    with fail_all_get [of r t ks k n] ks show "\<not> is_live n"
      by (auto simp: is_live_def)
  qed
  then show ?thesis by (simp add: Un_Diff)
qed

lemma terminalized_live:
  assumes "tree_shape t" "k \<in> set (terminalized_ids t e)" "bt_get (rt_nodes t) k = Some n"
  shows "k \<noteq> rt_root_node_id t \<and> is_live n"
proof -
  obtain m where m: "m \<in> set (bt_values (rt_nodes t))" "k = rn_node_id m" "rn_parent_node_id m \<noteq> None" "is_live m"
    using assms(2) by (auto simp: terminalized_ids_def)
  obtain j where "bt_get (rt_nodes t) j = Some m" using tree_shape_valuesE [OF assms(1) m(1)] .
  then have "m = n" using tree_shape_id [OF assms(1)] m(2) assms(3) by (metis option.inject)
  then show ?thesis using m tree_shape_rootE [OF assms(1)] assms(3) by (metis option.inject)
qed

lemma accounting_terminalize:
  assumes "accounting X t" "tree_shape t" "X \<inter> set (terminalized_ids t e) = {}"
  shows "accounting X (terminalize_remaining_nodes t e r)"
proof -
  have "accounting (X - set (terminalized_ids t e)) (foldl release_node_reservation_for_persistence
      (foldl (fail_node r) t (terminalized_ids t e)) (terminalized_ids t e))"
    by (rule accounting_fail_release [OF assms(1,2)]) (use terminalized_live [OF assms(2)] in blast)
  then show ?thesis
    using assms(3) unfolding terminalize_remaining_nodes_def Let_def Diff_triv [OF assms(3)]
    by (auto intro: accounting_same simp: same_totals_def)
qed

lemma descendants_live:
  assumes "tree_shape t" "k \<in> set (live_descendants t i)" "bt_get (rt_nodes t) k = Some n"
  shows "k \<noteq> rt_root_node_id t \<and> is_live n"
proof -
  obtain m where m: "m \<in> set (bt_values (rt_nodes t))" "k = rn_node_id m" "is_live m"
    "ancestor_walk (length (rt_nodes t) + MAX_RECURSIVE_DEPTH) (rt_nodes t) i (rn_parent_node_id m) = Some True"
    using assms(2) by (auto simp: live_descendants_def)
  obtain j where "bt_get (rt_nodes t) j = Some m" using tree_shape_valuesE [OF assms(1) m(1)] .
  then have "m = n" using tree_shape_id [OF assms(1)] m(2) assms(3) by (metis option.inject)
  moreover have "rn_parent_node_id m \<noteq> None" using m(4) by (cases "rn_parent_node_id m") simp_all
  ultimately show ?thesis using m(3) tree_shape_rootE [OF assms(1)] assms(3) by (metis option.inject)
qed

lemma accounting_cascade:
  assumes "accounting {} t" "tree_shape t"
  shows "accounting {} (cascade_failure t i)"
proof (cases i)
  case None
  then show ?thesis using assms by (simp add: cascade_failure_def)
next
  case (Some j)
  have "accounting ({} - set (live_descendants t j)) (foldl release_node_reservation_for_persistence
      (foldl (fail_node ReasonTerminalFailed) t (live_descendants t j)) (live_descendants t j))"
    by (rule accounting_fail_release [OF assms]) (use descendants_live [OF assms(2)] in blast)
  then show ?thesis by (simp add: cascade_failure_def Some Let_def)
qed

lemma accounting_settle:
  assumes "accounting X t"
  shows "accounting X (settle_tree t)"
  by (rule accounting_same [OF assms]) (simp_all add: settle_tree_def same_totals_def)

lemma accounting_finalize:
  "accounting {} t \<Longrightarrow> tree_shape t \<Longrightarrow> accounting {} (finalize_terminal_tree t i)"
  by (simp add: finalize_terminal_tree_def accounting_settle accounting_cascade)

section \<open>Leases\<close>

text \<open>Status and lease of a node; the lease index depends on nothing else.\<close>

definition lease_view :: "recursive_tree \<Rightarrow> string \<Rightarrow> (recursive_node_status \<times> string option) option" where
  "lease_view t k = map_option (\<lambda>n. (rn_status n, rn_lease_id n)) (bt_get (rt_nodes t) k)"

definition leasing :: "recursive_tree \<Rightarrow> bool" where
  "leasing t \<longleftrightarrow> finite (rt_active_leases t) \<and> card (rt_active_leases t) \<le> MAX_RECURSIVE_LEASES \<and>
     (\<forall>l. l \<in> rt_active_leases t \<longleftrightarrow> (\<exists>k. lease_view t k = Some (Leased, Some l))) \<and>
     (\<forall>k s l. lease_view t k = Some (s, l) \<longrightarrow> (l = None \<longleftrightarrow> s \<noteq> Leased)) \<and>
     (\<forall>k k' s s' l. lease_view t k = Some (s, Some l) \<longrightarrow> lease_view t k' = Some (s', Some l) \<longrightarrow> k = k')"

lemma leasing_cong:
  assumes "leasing t" "\<And>k. lease_view t' k = lease_view t k" "rt_active_leases t' = rt_active_leases t"
  shows "leasing t'"
  using assms by (simp add: leasing_def)

text \<open>A node leaves the leased state and its lease leaves the index.\<close>

lemma leasing_clear:
  assumes lea: "leasing t" and k: "lease_view t k = Some (s, l)" and s': "s' \<noteq> Leased"
    and view: "\<And>j. lease_view t' j = (if j = k then Some (s', None) else lease_view t j)"
    and act: "rt_active_leases t' = (case l of None \<Rightarrow> rt_active_leases t | Some x \<Rightarrow> rt_active_leases t - {x})"
  shows "leasing t'"
proof -
  note old = lea [unfolded leasing_def]
  have sub: "rt_active_leases t' \<subseteq> rt_active_leases t" by (auto simp: act split: option.splits)
  have fin: "finite (rt_active_leases t')" "card (rt_active_leases t') \<le> MAX_RECURSIVE_LEASES"
    using sub old by (meson finite_subset card_mono le_trans)+
  have "x \<in> rt_active_leases t' \<longleftrightarrow> (\<exists>j. lease_view t' j = Some (Leased, Some x))" for x
  proof
    assume x: "x \<in> rt_active_leases t'"
    then obtain j where j: "lease_view t j = Some (Leased, Some x)" using sub old by blast
    moreover have "j \<noteq> k" using j k x act by auto
    ultimately show "\<exists>j. lease_view t' j = Some (Leased, Some x)" using view by metis
  next
    assume "\<exists>j. lease_view t' j = Some (Leased, Some x)"
    then obtain j where j: "j \<noteq> k" "lease_view t j = Some (Leased, Some x)" using view s' by (auto split: if_splits)
    then have "l \<noteq> Some x" using old k by blast
    then show "x \<in> rt_active_leases t'" using old j by (auto simp: act split: option.splits)
  qed
  moreover have "m = None \<longleftrightarrow> r \<noteq> Leased" if "lease_view t' j = Some (r, m)" for j r m
    using that old s' unfolding view by (auto split: if_splits)
  moreover have "j = j'" if "lease_view t' j = Some (r, Some x)" "lease_view t' j' = Some (r', Some x)" for j j' r r' x
    using that old unfolding view by (auto split: if_splits)
  ultimately show ?thesis using fin by (simp add: leasing_def)
qed

lemma leasing_take:
  assumes lea: "leasing t" and k: "lease_view t k = Some (Ready, None)" and fresh: "l \<notin> rt_active_leases t"
    and room: "card (rt_active_leases t) < MAX_RECURSIVE_LEASES"
    and view: "\<And>j. lease_view t' j = (if j = k then Some (Leased, Some l) else lease_view t j)"
    and act: "rt_active_leases t' = insert l (rt_active_leases t)"
  shows "leasing t'"
proof -
  note old = lea [unfolded leasing_def]
  have other: "lease_view t j \<noteq> Some (s, Some l)" for j s using old fresh by (metis option.distinct(1))
  have "x \<in> rt_active_leases t' \<longleftrightarrow> (\<exists>j. lease_view t' j = Some (Leased, Some x))" for x
  proof -
    have "(\<exists>j. lease_view t' j = Some (Leased, Some x)) \<longleftrightarrow>
        x = l \<or> (\<exists>j. lease_view t j = Some (Leased, Some x))"
      unfolding view using k by (metis option.distinct(1) option.inject prod.inject)
    then show ?thesis using old act by simp
  qed
  moreover have "m = None \<longleftrightarrow> r \<noteq> Leased" if "lease_view t' j = Some (r, m)" for j r m
    using that old unfolding view by (auto split: if_splits)
  moreover have "j = j'" if "lease_view t' j = Some (r, Some x)" "lease_view t' j' = Some (r', Some x)" for j j' r r' x
    using that old other unfolding view by (auto split: if_splits)
  ultimately show ?thesis using room old fresh by (simp add: leasing_def act)
qed

lemma lease_view_modify:
  assumes "rt_nodes t' = bt_modify k g (rt_nodes t)"
  shows "lease_view t' j = (if j = k then map_option (\<lambda>n. (rn_status (g n), rn_lease_id (g n))) (bt_get (rt_nodes t) k)
     else lease_view t j)"
  using assms by (simp add: lease_view_def bt_get_modify option.map_comp comp_def)

lemma lease_view_keep:
  assumes "rt_nodes t' = bt_modify k g (rt_nodes t)" "\<And>n. rn_status (g n) = rn_status n"
    "\<And>n. rn_lease_id (g n) = rn_lease_id n"
  shows "lease_view t' j = lease_view t j"
  using lease_view_modify [OF assms(1)] assms(2,3) by (simp add: lease_view_def)

lemma release_lease_view [simp]: "lease_view (release_node_reservation_for_persistence t k) j = lease_view t j"
  by (auto simp: release_node_reservation_for_persistence_def Let_def lease_view_def bt_get_modify
      option.map_comp comp_def split: option.splits)

lemma leasing_release: "leasing t \<Longrightarrow> leasing (release_node_reservation_for_persistence t k)"
  by (erule leasing_cong) simp_all

lemma leasing_release_all: "leasing t \<Longrightarrow> leasing (foldl release_node_reservation_for_persistence t ks)"
  by (induction ks arbitrary: t) (simp_all add: leasing_release)

lemma leasing_fail: 
  assumes lea: "leasing t"
  shows "leasing (fail_node r t k)"
proof (cases "bt_get (rt_nodes t) k")
  case None
  then show ?thesis using lea by (simp add: fail_node_def)
next
  case (Some n)
  show ?thesis
  proof (rule leasing_clear [OF lea, of k "rn_status n" "rn_lease_id n" NodeFailed])
    show "lease_view t k = Some (rn_status n, rn_lease_id n)" using Some by (simp add: lease_view_def)
    show "lease_view (fail_node r t k) j = (if j = k then Some (NodeFailed, None) else lease_view t j)" for j
      using lease_view_modify [OF fail_node_nodes, of r t k j] Some by simp
    show "rt_active_leases (fail_node r t k) =
        (case rn_lease_id n of None \<Rightarrow> rt_active_leases t | Some x \<Rightarrow> rt_active_leases t - {x})"
      using Some by (simp add: fail_node_def)
  qed simp
qed

lemma leasing_fail_all: "leasing t \<Longrightarrow> leasing (foldl (fail_node r) t ks)"
  by (induction ks arbitrary: t) (simp_all add: leasing_fail)

lemma leasing_update [simp]:
  "leasing (t\<lparr>rt_root_budget := b\<rparr>) = leasing t" "leasing (t\<lparr>rt_spent_budget := b\<rparr>) = leasing t"
  "leasing (t\<lparr>rt_reserved_budget := b\<rparr>) = leasing t" "leasing (t\<lparr>rt_execution_state := s\<rparr>) = leasing t"
  "leasing (t\<lparr>rt_version := v\<rparr>) = leasing t" "leasing (t\<lparr>rt_usage_receipts := u\<rparr>) = leasing t"
  "leasing (t\<lparr>rt_rejected_proposals := j\<rparr>) = leasing t"
  by (simp_all add: leasing_def lease_view_def)

lemma accounting_update [simp]:
  "accounting X (t\<lparr>rt_execution_state := s\<rparr>) = accounting X t" "accounting X (t\<lparr>rt_version := v\<rparr>) = accounting X t"
  "accounting X (t\<lparr>rt_active_leases := l\<rparr>) = accounting X t"
  "accounting X (t\<lparr>rt_usage_receipts := u\<rparr>) = accounting X t"
  "accounting X (t\<lparr>rt_rejected_proposals := j\<rparr>) = accounting X t"
  by (simp_all add: accounting_def totals_def books_def held_def root_limits_def child_use_def limit_of_def)

lemma leasing_terminalize:
  assumes "leasing t"
  shows "leasing (terminalize_remaining_nodes t e r)"
  using assms leasing_release_all [OF leasing_fail_all [OF assms]]
  by (simp add: terminalize_remaining_nodes_def Let_def)

lemma leasing_finalize:
  assumes "leasing t"
  shows "leasing (finalize_terminal_tree t i)"
proof -
  have "leasing (cascade_failure t i)"
    using assms by (simp add: cascade_failure_def Let_def leasing_release_all leasing_fail_all split: option.split)
  then have "leasing (settle_tree (cascade_failure t i))"
    by (simp add: settle_tree_def)
  then show ?thesis using assms by (simp add: finalize_terminal_tree_def)
qed

section \<open>Operations\<close>

lemma leasing_admit:
  assumes lea: "leasing t" and parent: "bt_get (rt_nodes t) (rn_node_id parent) = Some parent"
    and fresh: "bt_get (rt_nodes t) (rn_node_id (child_node pf t parent p)) = None"
  shows "leasing (admitted_tree pf t parent p)"
proof -
  note old = lea [unfolded leasing_def]
  define i where "i = rn_node_id (child_node pf t parent p)"
  have view: "lease_view (admitted_tree pf t parent p) j = (if j = i then Some (Ready, None) else lease_view t j)" for j
    using parent by (simp add: lease_view_def admitted_get i_def del: child_node_sel(1))
  have none: "lease_view t i = None" using fresh by (simp add: lease_view_def i_def)
  have "(\<exists>k. lease_view (admitted_tree pf t parent p) k = Some (Leased, Some l)) \<longleftrightarrow>
      (\<exists>k. lease_view t k = Some (Leased, Some l))" for l
    unfolding view using none by (metis option.distinct(1) option.inject prod.inject)
  then show ?thesis using old by (auto simp: leasing_def view split: if_splits)
qed

lemma accounting_lease:
  assumes "lease_node pf t k l = Ok t'" "accounting X t" "k \<notin> X"
  shows "accounting X t'"
proof -
  obtain n where n: "bt_get (rt_nodes t) k = Some n" "rn_status n = Ready"
    and nodes: "rt_nodes t' = bt_modify k (\<lambda>n. n\<lparr>rn_lease_id := Some l, rn_status := Leased,
             rn_version := inc_u64 (rn_version n)\<rparr>) (rt_nodes t)" and tot: "same_totals t' t"
    using assms(1) by (auto simp: lease_node_def bind_result_Ok_iff same_totals_def split: option.splits if_splits)
  show ?thesis
    by (rule accounting_neutral [OF assms(2) nodes tot]) (use n assms(3) in \<open>auto simp: same_money_def is_live_def\<close>)
qed

lemma leasing_lease:
  assumes "lease_node pf t k l = Ok t'" "leasing t" "l \<notin> rt_active_leases t"
  shows "leasing t'"
proof -
  obtain n where n: "bt_get (rt_nodes t) k = Some n" "rn_status n = Ready" "rn_lease_id n = None"
    and nodes: "rt_nodes t' = bt_modify k (\<lambda>n. n\<lparr>rn_lease_id := Some l, rn_status := Leased,
             rn_version := inc_u64 (rn_version n)\<rparr>) (rt_nodes t)"
    and act: "rt_active_leases t' = insert l (rt_active_leases t)"
    and room: "card (rt_active_leases t) < MAX_RECURSIVE_LEASES"
    using assms(1) by (auto simp: lease_node_def bind_result_Ok_iff split: option.splits if_splits)
  show ?thesis
    by (rule leasing_take [OF assms(2) _ assms(3) room _ act, of k])
      (use n lease_view_modify [OF nodes] in \<open>auto simp: lease_view_def\<close>)
qed

lemma bt_modify_comp: "bt_modify k f (bt_modify k g m) = bt_modify k (\<lambda>v. f (g v)) m"
  by (simp add: bt_modify_def comp_def case_prod_beta)

lemma record_usage_cases:
  assumes "record_usage_internal pf t r u c = Ok (b, t1)"
  obtains (replay) previous where "bt_get (rt_usage_receipts t) r = Some previous" "t1 = t"
  | (fresh) receipts st v where "bt_get (rt_usage_receipts t) r = None" "b = within_tree_budget t u c"
      "t1 = t\<lparr>rt_spent_budget := add_budget (rt_spent_budget t) u,
         rt_reserved_budget := (if c then spend (rt_reserved_budget t) u else rt_reserved_budget t),
         rt_usage_receipts := receipts, rt_execution_state := st, rt_version := v\<rparr>"
proof (cases "bt_get (rt_usage_receipts t) r")
  case (Some previous)
  then show ?thesis
    using assms replay by (auto simp: record_usage_internal_def bind_result_Ok_iff split: option.splits)
next
  case None
  let ?t1 = "\<lambda>rec s v. t\<lparr>rt_spent_budget := add_budget (rt_spent_budget t) u,
         rt_reserved_budget := (if c then spend (rt_reserved_budget t) u else rt_reserved_budget t),
         rt_usage_receipts := rec, rt_execution_state := s, rt_version := v\<rparr>"
  have "b = within_tree_budget t u c \<and> (\<exists>rec s v. t1 = ?t1 rec s v)"
  proof (cases "usage_json pf u")
    case None
    then show ?thesis using assms by (simp add: record_usage_internal_def)
  next
    case (Some fp)
    let ?rec = "bt_put r ((if within_tree_budget t u c then ''1:'' else ''0:'') @ fp) (rt_usage_receipts t)"
    have "t1 = ?t1 ?rec (rt_execution_state t1) (rt_version t1)" "b = within_tree_budget t u c"
      using assms None Some by (auto simp: record_usage_internal_def Let_def split: if_splits)
    then show ?thesis by blast
  qed
  then show ?thesis using fresh None by blast
qed

text \<open>A charge that a live child can afford is within the budget of the tree.\<close>

lemma within_tree_reserved:
  assumes acc: "accounting X t" and n: "bt_get (rt_nodes t) k = Some n"
    and fits: "can_spend (rn_reservation n) u"
  shows "within_tree_budget t u True"
proof -
  have "saturating_add (saturating_add (bget (rt_spent_budget t) d) (bget u d)) (bget (rt_reserved_budget t) d - bget u d)
      \<le> limit_of t d" for d
  proof -
    have "bget u d \<le> bget (rt_reserved_budget t) d"
      using fits accounting_totals [OF acc, of d] bt_sum_ge [OF n, of "\<lambda>n. bget (rn_reservation n) d"]
      by (simp add: totals_def can_spend_iff) (meson le_trans)
    then show ?thesis
      using accounting_totals [OF acc, of d] by (simp add: totals_def saturating_add_def)
  qed
  then show ?thesis
    by (cases "rt_root_budget_limit t")
      (simp_all add: within_tree_budget_def limit_of_def can_spend_iff bget_add bget_spend)
qed

lemma settle_node_sel [simp]:
  "same_money (settle_node s w n) n" "rn_lease_id (settle_node s w n) = None"
  "\<not> is_live (settle_node s w n)" "rn_status (settle_node s w n) \<noteq> Leased"
  "rn_retry_count (settle_node s w n) = rn_retry_count n"
  by (simp_all add: settle_node_def same_money_def is_live_def)

lemma settle_root_sel [simp]:
  "same_money (settle_root s w n) n" "rn_lease_id (settle_root s w n) = None"
  "\<not> is_live (settle_root s w n)" "rn_status (settle_root s w n) \<noteq> Leased"
  by (simp_all add: settle_root_def same_money_def is_live_def)

lemma charge_lease [simp]:
  "rn_lease_id (charge_node u n) = rn_lease_id n" "rn_lease_id (charge_root u n) = rn_lease_id n"
  by (simp_all add: charge_node_def charge_root_def)


lemma same_money_status:
  "same_money (n\<lparr>rn_version := v\<rparr>) n" "is_live (n\<lparr>rn_version := v\<rparr>) = is_live n"
  by (simp_all add: same_money_def is_live_def)

text \<open>What a completion leaves behind: the charged tree with one node settled and its lease gone.\<close>

definition node_base :: "recursive_tree \<Rightarrow> string \<Rightarrow> string \<Rightarrow> recursive_budget \<Rightarrow> recursive_tree" where
  "node_base t k r u = (if bt_get (rt_usage_receipts t) r = None then charged t k u else t)"

definition settles :: "recursive_tree \<Rightarrow> string \<Rightarrow> string \<Rightarrow> (recursive_node \<Rightarrow> recursive_node) \<Rightarrow>
    recursive_tree \<Rightarrow> bool" where
  "settles t k l g t' \<longleftrightarrow> rt_nodes t' = bt_modify k g (rt_nodes t) \<and> same_totals t' t \<and> skeleton t' = skeleton t \<and>
     rt_active_leases t' = rt_active_leases t - {l} \<and> (\<forall>n. same_money (g n) n \<and> rn_lease_id (g n) = None \<and>
       \<not> is_live (g n))"

lemma complete_nodeE:
  assumes "complete_node_with_usage_receipt pf t k l r s u = Ok t'"
  obtains n w t2 where "bt_get (rt_nodes t) k = Some n" "rn_lease_id n = Some l"
    "settles (node_base t k r u) k l (settle_node s w) t2"
    "t' = (if w then t2 else terminalize_remaining_nodes (t2\<lparr>rt_execution_state := BudgetExhausted\<rparr>)
       (Some k) TreeBudgetExhausted)\<lparr>rt_version := rt_version t'\<rparr>"
    "bt_get (rt_usage_receipts t) r = None \<Longrightarrow> w = (can_spend (rn_budget n) u \<and> within_tree_budget t u True)"
proof -
  obtain n where n: "bt_get (rt_nodes t) k = Some n" "rn_lease_id n = Some l"
    using assms by (auto simp: complete_node_with_usage_receipt_def Let_def bind_result_Ok_iff
        split: option.splits if_splits)
  let ?prev = "bt_get (rt_usage_receipts t) r \<noteq> None"
  let ?node = "if ?prev then True else can_spend (rn_budget n) u"
  obtain b t1 where usage: "record_usage_internal pf t r u True = Ok (b, t1)"
    using assms n by (auto simp: complete_node_with_usage_receipt_def Let_def bind_result_Ok_iff record_usage_def)
  define w where "w = (?node \<and> b)"
  define t2 where "t2 = t1\<lparr>rt_nodes := bt_modify k (\<lambda>n. settle_node s w (if ?prev then n else charge_node u n))
     (rt_nodes t1), rt_active_leases := rt_active_leases t1 - {l}\<rparr>"
  have t': "t' = (if w then t2 else terminalize_remaining_nodes (t2\<lparr>rt_execution_state := BudgetExhausted\<rparr>)
       (Some k) TreeBudgetExhausted)\<lparr>rt_version := rt_version t'\<rparr>"
    using assms n usage
    by (auto simp: complete_node_with_usage_receipt_def Let_def record_usage_def w_def t2_def)
  have settled: "settles (node_base t k r u) k l (settle_node s w) t2"
    using usage
  proof (cases rule: record_usage_cases)
    case (replay previous)
    then show ?thesis by (simp add: settles_def node_base_def t2_def same_totals_def)
  next
    case (fresh receipts st v)
    then show ?thesis
      by (simp add: settles_def node_base_def t2_def same_totals_def bt_modify_comp) (simp add: charged_def)
  qed
  have "w = (can_spend (rn_budget n) u \<and> within_tree_budget t u True)"
    if "bt_get (rt_usage_receipts t) r = None"
    using usage that by (cases rule: record_usage_cases) (simp_all add: w_def)
  from that [OF n settled t' this] show ?thesis .
qed

lemma accounting_settles:
  assumes "settles t k l g t'" "accounting X t" "\<And>n. bt_get (rt_nodes t) k = Some n \<Longrightarrow> is_live n \<or> k \<in> X"
  shows "accounting (insert k X) t'"
proof -
  note s = assms(1) [unfolded settles_def]
  show ?thesis
    by (rule accounting_neutral [OF assms(2), of t' k g]) (use s assms(3) in auto)
qed

lemma leasing_settles:
  assumes "settles t k l g t'" "leasing t" "bt_get (rt_nodes t) k = Some n" "rn_lease_id n = Some l"
  shows "leasing t'"
proof -
  note s = assms(1) [unfolded settles_def]
  show ?thesis
    by (rule leasing_clear [OF assms(2), of k "rn_status n" "Some l" "rn_status (g n)"])
      (use s assms(3,4) lease_view_modify [of t' k g t] in \<open>auto simp: lease_view_def is_live_def\<close>)
qed

lemma leased_live:
  assumes "leasing t" "bt_get (rt_nodes t) k = Some n" "rn_lease_id n = Some l"
  shows "rn_status n = Leased" "is_live n"
proof -
  have "lease_view t k = Some (rn_status n, Some l)" using assms(2,3) by (simp add: lease_view_def)
  then show "rn_status n = Leased" using assms(1) unfolding leasing_def by blast
  then show "is_live n" by (simp add: is_live_def)
qed

lemma not_terminalized: "k \<notin> set (terminalized_ids t (Some k))"
  by (auto simp: terminalized_ids_def)

lemma node_base_facts:
  assumes acc: "accounting {} t" and lea: "leasing t" and shape: "tree_shape t"
    and n: "bt_get (rt_nodes t) k = Some n" "is_live n" and k: "k \<noteq> rt_root_node_id t"
    and fits: "bt_get (rt_usage_receipts t) r = None \<Longrightarrow> can_spend (rn_budget n) u"
  shows "accounting {} (node_base t k r u)" "leasing (node_base t k r u)" "tree_shape (node_base t k r u)"
proof -
  show "accounting {} (node_base t k r u)"
    using accounting_charge [OF acc tree_shape_wf [OF shape] n(1) k] n(2) fits acc by (simp add: node_base_def)
  have "leasing (charged t k u)"
    by (rule leasing_cong [OF lea]) (use lease_view_keep [of "charged t k u" k "charge_node u" t] in \<open>simp_all add: charged_def\<close>)
  then show "leasing (node_base t k r u)" using lea by (simp add: node_base_def)
  have "skeleton (charged t k u) = skeleton t" by (simp add: charged_def)
  then have "tree_shape (charged t k u)" by (rule tree_shape_cong [OF sym shape])
  then show "tree_shape (node_base t k r u)" using shape by (simp add: node_base_def)
qed

lemma complete_node_sound:
  assumes comp: "complete_node_with_usage_receipt pf t k l r s u = Ok t'"
    and acc: "accounting {} t" and lea: "leasing t" and shape: "tree_shape t" and k: "k \<noteq> rt_root_node_id t"
    and fits: "\<And>n. bt_get (rt_usage_receipts t) r = None \<Longrightarrow> bt_get (rt_nodes t) k = Some n \<Longrightarrow>
      can_spend (rn_budget n) u"
  shows "accounting {k} t' \<and> leasing t'"
proof -
  obtain n w t2 where n: "bt_get (rt_nodes t) k = Some n" "rn_lease_id n = Some l"
    and t2: "settles (node_base t k r u) k l (settle_node s w) t2"
    and t': "t' = (if w then t2 else terminalize_remaining_nodes (t2\<lparr>rt_execution_state := BudgetExhausted\<rparr>)
       (Some k) TreeBudgetExhausted)\<lparr>rt_version := rt_version t'\<rparr>"
    using complete_nodeE [OF comp] by metis
  note base = node_base_facts [OF acc lea shape n(1) leased_live(2) [OF lea n] k fits [OF _ n(1)]]
  obtain m where m: "bt_get (rt_nodes (node_base t k r u)) k = Some m" "rn_lease_id m = Some l"
    using n by (cases "bt_get (rt_usage_receipts t) r") (auto simp: node_base_def bt_get_modify)
  have acc2: "accounting {k} t2"
    by (rule accounting_settles [OF t2 base(1)]) (use m(1) leased_live(2) [OF base(2) m] in auto)
  have lea2: "leasing t2" by (rule leasing_settles [OF t2 base(2) m])
  have shape2: "tree_shape (t2\<lparr>rt_execution_state := BudgetExhausted\<rparr>)"
    by (rule tree_shape_cong [OF _ base(3)]) (use t2 in \<open>simp add: settles_def\<close>)
  show ?thesis
  proof (cases w)
    case True
    then have "t' = t2\<lparr>rt_version := rt_version t'\<rparr>" using t' by simp
    then show ?thesis using acc2 lea2 by (metis accounting_update(2) leasing_update(5))
  next
    case False
    let ?t3 = "terminalize_remaining_nodes (t2\<lparr>rt_execution_state := BudgetExhausted\<rparr>) (Some k) TreeBudgetExhausted"
    have "accounting {k} ?t3"
      by (rule accounting_terminalize [OF _ shape2]) (use acc2 not_terminalized in simp_all)
    moreover have "leasing ?t3" by (rule leasing_terminalize) (use lea2 in simp)
    moreover have "t' = ?t3\<lparr>rt_version := rt_version t'\<rparr>" using t' False by simp
    ultimately show ?thesis by (metis accounting_update(2) leasing_update(5))
  qed
qed

lemma terminalize_sel [simp]:
  "rt_root_node_id (terminalize_remaining_nodes t e r) = rt_root_node_id t"
  "rt_execution_state (terminalize_remaining_nodes t e r) = rt_execution_state t"
  "rt_usage_receipts (terminalize_remaining_nodes t e r) = rt_usage_receipts t"
  "rt_rejected_proposals (terminalize_remaining_nodes t e r) = rt_rejected_proposals t"
  by (simp_all add: terminalize_remaining_nodes_def Let_def)

lemma terminalize_get:
  assumes "bt_get (rt_nodes (terminalize_remaining_nodes t e r)) j = Some n"
  shows "\<exists>m. bt_get (rt_nodes t) j = Some m \<and> rn_retry_count n = rn_retry_count m \<and>
    (if j \<in> set (terminalized_ids t e) then rn_status n = NodeFailed \<and> rn_lease_id n = None
     else rn_status n = rn_status m \<and> rn_lease_id n = rn_lease_id m)"
proof -
  let ?ks = "terminalized_ids t e"
  have "bt_get (rt_nodes (foldl release_node_reservation_for_persistence (foldl (fail_node r) t ?ks) ?ks)) j = Some n"
    using assms by (simp add: terminalize_remaining_nodes_def Let_def split: if_splits)
  then obtain m where m: "bt_get (rt_nodes (foldl (fail_node r) t ?ks)) j = Some m"
    "rn_status n = rn_status m" "rn_lease_id n = rn_lease_id m" "rn_retry_count n = rn_retry_count m"
    using release_all_get by blast
  then show ?thesis using fail_all_get [OF m(1)] by (auto split: if_splits)
qed

lemma version_eqD:
  assumes "t' = t\<lparr>rt_version := v\<rparr>"
  shows "rt_nodes t' = rt_nodes t" "rt_root_node_id t' = rt_root_node_id t"
    "rt_execution_state t' = rt_execution_state t"
  using assms by simp_all

text \<open>The completed node is terminal, without lease, and its retries are not touched.\<close>

lemma complete_node_result:
  assumes comp: "complete_node_with_usage_receipt pf t k l r s u = Ok t'"
    and n: "bt_get (rt_nodes t) k = Some n"
  obtains n' where "bt_get (rt_nodes t') k = Some n'" "\<not> is_live n'" "rn_lease_id n' = None"
    "rn_retry_count n' = rn_retry_count n" "rt_root_node_id t' = rt_root_node_id t"
proof -
  obtain n0 w t2 where n0: "bt_get (rt_nodes t) k = Some n0" "rn_lease_id n0 = Some l"
    and t2: "settles (node_base t k r u) k l (settle_node s w) t2"
    and t': "t' = (if w then t2 else terminalize_remaining_nodes (t2\<lparr>rt_execution_state := BudgetExhausted\<rparr>)
       (Some k) TreeBudgetExhausted)\<lparr>rt_version := rt_version t'\<rparr>"
    using complete_nodeE [OF comp] by metis
  have root2: "rt_root_node_id t2 = rt_root_node_id t"
    using t2 by (simp add: settles_def same_totals_def node_base_def)
  obtain m where m: "bt_get (rt_nodes t2) k = Some m" "\<not> is_live m" "rn_lease_id m = None"
    "rn_retry_count m = rn_retry_count n"
    using t2 n by (cases "bt_get (rt_usage_receipts t) r")
      (auto simp: settles_def node_base_def bt_get_modify charge_node_def)
  show ?thesis
  proof (cases w)
    case True
    then have "t' = t2\<lparr>rt_version := rt_version t'\<rparr>" using t' by simp
    from version_eqD [OF this] show ?thesis using that m root2 by simp
  next
    case False
    let ?t3 = "terminalize_remaining_nodes (t2\<lparr>rt_execution_state := BudgetExhausted\<rparr>) (Some k) TreeBudgetExhausted"
    have eq: "t' = ?t3\<lparr>rt_version := rt_version t'\<rparr>" using t' False by simp
    note nodes = version_eqD [OF eq]
    obtain n' where n': "bt_get (rt_nodes ?t3) k = Some n'"
      using skeleton_getE [of ?t3 t2 k m] m(1) by auto
    from terminalize_get [OF this] not_terminalized [of k] m
    have "\<not> is_live n' \<and> rn_lease_id n' = None \<and> rn_retry_count n' = rn_retry_count n"
      by (auto simp: is_live_def)
    then show ?thesis using that n' nodes root2 by simp
  qed
qed

text \<open>Completion of the root.\<close>

definition root_base :: "recursive_tree \<Rightarrow> string \<Rightarrow> recursive_budget \<Rightarrow> recursive_tree" where
  "root_base t r u = (if bt_get (rt_usage_receipts t) r = None then root_charged t u else t)"

lemma complete_rootE:
  assumes "complete_root_with_usage_receipt pf t l r s u = Ok t'"
  obtains (replay) "t' = t"
  | (settled) n w t2 t3 v where "bt_get (rt_nodes t) (rt_root_node_id t) = Some n" "rn_lease_id n = Some l"
      "settles (root_base t r u) (rt_root_node_id t) l (settle_root s w) t2"
      "t3 = (if \<not> w then terminalize_remaining_nodes (t2\<lparr>rt_execution_state := BudgetExhausted\<rparr>)
                 (Some (rt_root_node_id t)) TreeBudgetExhausted
             else if \<not> s then terminalize_remaining_nodes (t2\<lparr>rt_execution_state := TerminalFailed\<rparr>)
                 (Some (rt_root_node_id t)) ReasonTerminalFailed
             else t2)\<lparr>rt_version := v\<rparr>"
      "t' = (if s \<and> w then finalize_terminal_tree t3 None else t3)"
proof -
  let ?k = "rt_root_node_id t"
  obtain n where n: "bt_get (rt_nodes t) ?k = Some n"
    using assms by (auto simp: complete_root_with_usage_receipt_def Let_def split: option.splits)
  show ?thesis
  proof (cases "rn_status n = NodeCompleted \<or> rn_status n = NodeFailed")
    case True
    then show ?thesis
      using assms n replay by (auto simp: complete_root_with_usage_receipt_def Let_def root_replay_def
          split: option.splits if_splits)
  next
    case False
    then have l: "rn_lease_id n = Some l"
      using assms n by (auto simp: complete_root_with_usage_receipt_def Let_def split: if_splits)
    let ?prev = "bt_get (rt_usage_receipts t) r \<noteq> None"
    obtain b t1 where usage: "record_usage_internal pf t r u False = Ok (b, t1)"
      using assms n False by (auto simp: complete_root_with_usage_receipt_def Let_def bind_result_Ok_iff
          record_unreserved_usage_def split: if_splits)
    define w where "w = ((?prev \<or> can_spend (rn_budget n) u) \<and> b)"
    define t2 where "t2 = t1\<lparr>rt_root_budget := (if ?prev then rt_root_budget t1 else spend (rt_root_budget t1) u),
       rt_nodes := bt_modify ?k (\<lambda>n. settle_root s w (if ?prev then n else charge_root u n)) (rt_nodes t1),
       rt_active_leases := rt_active_leases t1 - {l}\<rparr>"
    define t3 where "t3 = (if \<not> w then terminalize_remaining_nodes (t2\<lparr>rt_execution_state := BudgetExhausted\<rparr>)
                 (Some ?k) TreeBudgetExhausted
             else if \<not> s then terminalize_remaining_nodes (t2\<lparr>rt_execution_state := TerminalFailed\<rparr>)
                 (Some ?k) ReasonTerminalFailed
             else t2)"
    have t': "t' = (if s \<and> w then finalize_terminal_tree (t3\<lparr>rt_version := inc_u64 (rt_version t3)\<rparr>) None
        else t3\<lparr>rt_version := inc_u64 (rt_version t3)\<rparr>)"
      using assms n False usage
      by (auto simp: complete_root_with_usage_receipt_def Let_def record_unreserved_usage_def w_def t2_def t3_def
          split: if_splits)
    have "settles (root_base t r u) ?k l (settle_root s w) t2"
      using usage
    proof (cases rule: record_usage_cases)
      case (replay previous)
      then show ?thesis by (simp add: settles_def root_base_def t2_def same_totals_def)
    next
      case (fresh receipts st v)
      then show ?thesis
        by (simp add: settles_def root_base_def t2_def same_totals_def bt_modify_comp) (simp add: root_charged_def)
    qed
    from settled [OF n l this _ t'] show ?thesis by (simp add: t3_def)
  qed
qed

lemma accounting_settles_root:
  assumes "settles t (rt_root_node_id t) l g t'" "accounting X t"
  shows "accounting X t'"
proof -
  note s = assms(1) [unfolded settles_def]
  show ?thesis
    by (rule accounting_neutral [OF assms(2), of t' "rt_root_node_id t" g]) (use s in auto)
qed

lemma root_budget_le:
  assumes acc: "accounting X t" and n: "bt_get (rt_nodes t) (rt_root_node_id t) = Some n"
    and fits: "can_spend (rt_root_budget t) u"
  shows "can_spend (rn_budget n) u"
  unfolding can_spend_iff
proof
  fix d
  have "bget (rn_actual_usage n) d \<le> bget (rt_spent_budget t) d"
    using accounting_totals [OF acc, of d] bt_sum_ge [OF n, of "\<lambda>n. bget (rn_actual_usage n) d"]
    by (simp add: totals_def)
  moreover have "limit_of t d = bget (rn_budget_limit n) d"
    using accounting_root [OF acc] n by (auto simp: root_limits_def limit_of_def)
  ultimately have "bget (rt_root_budget t) d \<le> bget (rn_budget n) d"
    using accounting_totals [OF acc, of d] accounting_books [OF acc n, of d] by (simp add: totals_def books_def)
  then show "bget u d \<le> bget (rn_budget n) d" using fits by (meson can_spend_iff le_trans)
qed

lemma root_base_facts:
  assumes acc: "accounting {} t" and lea: "leasing t" and shape: "tree_shape t"
    and n: "bt_get (rt_nodes t) (rt_root_node_id t) = Some n"
    and fits: "bt_get (rt_usage_receipts t) r = None \<Longrightarrow> can_spend (rt_root_budget t) u"
  shows "accounting {} (root_base t r u)" "leasing (root_base t r u)" "tree_shape (root_base t r u)"
proof -
  show "accounting {} (root_base t r u)"
    using accounting_root_charge [OF acc shape n root_budget_le [OF acc n]] fits acc by (simp add: root_base_def)
  have "leasing (root_charged t u)"
    by (rule leasing_cong [OF lea])
      (use lease_view_keep [of "root_charged t u" "rt_root_node_id t" "charge_root u" t] in \<open>simp_all add: root_charged_def\<close>)
  then show "leasing (root_base t r u)" using lea by (simp add: root_base_def)
  have "skeleton (root_charged t u) = skeleton t" by (simp add: root_charged_def)
  then have "tree_shape (root_charged t u)" by (rule tree_shape_cong [OF sym shape])
  then show "tree_shape (root_base t r u)" using shape by (simp add: root_base_def)
qed

lemma complete_root_sound:
  assumes comp: "complete_root_with_usage_receipt pf t l r s u = Ok t'"
    and acc: "accounting {} t" and lea: "leasing t" and shape: "tree_shape t"
    and fits: "bt_get (rt_usage_receipts t) r = None \<Longrightarrow> can_spend (rt_root_budget t) u"
  shows "accounting {} t' \<and> leasing t'"
  using comp
proof (cases rule: complete_rootE)
  case replay
  then show ?thesis using acc lea by simp
next
  case (settled n w t2 t3 v)
  note base = root_base_facts [OF acc lea shape settled(1) fits]
  obtain m where m: "bt_get (rt_nodes (root_base t r u)) (rt_root_node_id t) = Some m" "rn_lease_id m = Some l"
    using settled(1,2) by (cases "bt_get (rt_usage_receipts t) r") (auto simp: root_base_def bt_get_modify)
  have root: "rt_root_node_id (root_base t r u) = rt_root_node_id t" by (simp add: root_base_def)
  have acc2: "accounting {} t2" using accounting_settles_root [of _ l _ t2, OF _ base(1)] settled(3) root by metis
  have lea2: "leasing t2" by (rule leasing_settles [OF settled(3) base(2) m])
  have shape2: "tree_shape (t2\<lparr>rt_execution_state := st\<rparr>)" for st
    by (rule tree_shape_cong [OF _ base(3)]) (use settled(3) in \<open>simp add: settles_def\<close>)
  have shape2': "tree_shape t2" by (rule tree_shape_cong [OF _ base(3)]) (use settled(3) in \<open>simp add: settles_def\<close>)
  have "accounting {} (terminalize_remaining_nodes (t2\<lparr>rt_execution_state := st\<rparr>) e reason)" for st e reason
    by (rule accounting_terminalize [OF _ shape2]) (simp_all add: acc2)
  moreover have "leasing (terminalize_remaining_nodes (t2\<lparr>rt_execution_state := st\<rparr>) e reason)" for st e reason
    by (rule leasing_terminalize) (simp add: lea2)
  ultimately have three: "accounting {} t3" "leasing t3"
    unfolding settled(4) using acc2 lea2 by simp_all
  have "tree_shape t3" by (rule tree_shape_cong [OF _ shape2']) (simp add: settled(4))
  then show ?thesis
    unfolding settled(5) using three accounting_finalize leasing_finalize by simp
qed

lemma within_tree_unreserved:
  assumes acc: "accounting X t" and fits: "can_spend (rt_root_budget t) u"
  shows "within_tree_budget t u False"
proof -
  have "saturating_add (saturating_add (bget (rt_spent_budget t) d) (bget u d)) (bget (rt_reserved_budget t) d)
      \<le> limit_of t d" for d
  proof -
    have "bget u d \<le> bget (rt_root_budget t) d" using fits by (simp add: can_spend_iff)
    then show ?thesis
      using accounting_totals [OF acc, of d] by (simp add: totals_def saturating_add_def)
  qed
  then show ?thesis
    by (cases "rt_root_budget_limit t") (simp_all add: within_tree_budget_def limit_of_def can_spend_iff bget_add)
qed

text \<open>Late usage.\<close>

lemma late_usage_sound:
  assumes late: "record_late_usage pf t k r u = Ok (b, t')"
    and acc: "accounting {} t" and lea: "leasing t" and shape: "tree_shape t" and k: "k \<noteq> rt_root_node_id t"
    and live: "\<And>n. bt_get (rt_usage_receipts t) r = None \<Longrightarrow> bt_get (rt_nodes t) k = Some n \<Longrightarrow>
      is_live n \<and> can_spend (rn_budget n) u"
  shows "accounting {} t' \<and> leasing t' \<and> (bt_get (rt_usage_receipts t) r = None \<longrightarrow> b)"
proof (cases "bt_get (rt_usage_receipts t) r")
  case (Some previous)
  then have "t' = t"
    using late by (auto simp: record_late_usage_def bind_result_Ok_iff split: option.splits)
  then show ?thesis using acc lea Some by simp
next
  case None
  obtain n where n: "bt_get (rt_nodes t) k = Some n"
    using late None by (auto simp: record_late_usage_def split: option.splits)
  note fits = live [OF None n]
  obtain b1 t1 where usage: "record_usage_internal pf t r u True = Ok (b1, t1)"
    using late None n by (auto simp: record_late_usage_def Let_def bind_result_Ok_iff record_usage_def
        split: option.splits)
  have res: "rn_reservation n = rn_budget n"
    using accounting_held [OF acc n] fits k by (simp add: held_def)
  have b1: "b1" using usage None within_tree_reserved [OF acc n] fits res
    by (cases rule: record_usage_cases) simp_all
  let ?g = "\<lambda>n. (charge_node u n)\<lparr>rn_version := inc_u64 (rn_version n)\<rparr>"
  let ?t2 = "t1\<lparr>rt_nodes := bt_modify k ?g (rt_nodes t1)\<rparr>"
  have t': "t' = ?t2\<lparr>rt_version := inc_u64 (rt_version t1)\<rparr>" "b"
    using late None n usage b1 fits
    by (auto simp: record_late_usage_def Let_def bind_result_Ok_iff record_usage_def split: option.splits)
  have nodes: "rt_nodes ?t2 = bt_modify k (\<lambda>n. n\<lparr>rn_version := inc_u64 (rn_version n)\<rparr>) (rt_nodes (charged t k u))"
    "same_totals ?t2 (charged t k u)" "rt_active_leases ?t2 = rt_active_leases t"
    using usage None
    by (cases rule: record_usage_cases; simp add: bt_modify_comp same_totals_def charge_node_def)+
  have "accounting {} (charged t k u)"
    by (rule accounting_charge [OF acc tree_shape_wf [OF shape] n k]) (use fits in simp_all)
  then have "accounting {} ?t2"
    by (rule accounting_neutral [OF _ nodes(1,2)]) (simp_all add: same_money_status)
  moreover have "leasing ?t2"
    by (rule leasing_cong [OF lea]) (use nodes(1,3) in \<open>auto simp: lease_view_def bt_get_modify option.map_comp comp_def\<close>)
  ultimately show ?thesis using t' by simp
qed

lemma root_late_usage_sound:
  assumes late: "record_root_late_usage pf t r u = Ok (b, t')"
    and acc: "accounting {} t" and lea: "leasing t" and shape: "tree_shape t"
    and fits: "bt_get (rt_usage_receipts t) r = None \<Longrightarrow> can_spend (rt_root_budget t) u"
  shows "accounting {} t' \<and> leasing t' \<and> (bt_get (rt_usage_receipts t) r = None \<longrightarrow> b)"
proof (cases "bt_get (rt_usage_receipts t) r")
  case (Some previous)
  then have "t' = t"
    using late by (auto simp: record_root_late_usage_def split: option.splits if_splits)
  then show ?thesis using acc lea Some by simp
next
  case None
  let ?k = "rt_root_node_id t"
  obtain n where n: "bt_get (rt_nodes t) ?k = Some n" using tree_shape_rootE [OF shape] .
  note root_fits = root_budget_le [OF acc n fits [OF None]]
  obtain b1 t1 where usage: "record_usage_internal pf t r u False = Ok (b1, t1)"
    using late None n by (auto simp: record_root_late_usage_def Let_def bind_result_Ok_iff record_unreserved_usage_def
        split: option.splits)
  have b1: "b1"
    using usage None within_tree_unreserved [OF acc fits [OF None]] by (cases rule: record_usage_cases) simp_all
  let ?g = "\<lambda>n. (charge_root u n)\<lparr>rn_version := inc_u64 (rn_version n)\<rparr>"
  let ?t2 = "t1\<lparr>rt_root_budget := spend (rt_root_budget t1) u, rt_nodes := bt_modify ?k ?g (rt_nodes t1)\<rparr>"
  have t': "t' = ?t2\<lparr>rt_version := inc_u64 (rt_version t1)\<rparr>" "b"
    using late None n usage b1 root_fits
    by (auto simp: record_root_late_usage_def Let_def bind_result_Ok_iff record_unreserved_usage_def
        split: option.splits)
  have nodes: "rt_nodes ?t2 = bt_modify ?k (\<lambda>n. n\<lparr>rn_version := inc_u64 (rn_version n)\<rparr>) (rt_nodes (root_charged t u))"
    "same_totals ?t2 (root_charged t u)" "rt_active_leases ?t2 = rt_active_leases t"
    using usage None
    by (cases rule: record_usage_cases; simp add: bt_modify_comp same_totals_def charge_root_def)+
  have "accounting {} (root_charged t u)"
    by (rule accounting_root_charge [OF acc shape n root_fits fits [OF None]])
  then have "accounting {} ?t2"
    by (rule accounting_neutral [OF _ nodes(1,2)]) (simp_all add: same_money_status)
  moreover have "leasing ?t2"
    by (rule leasing_cong [OF lea]) (use nodes(1,3) in \<open>auto simp: lease_view_def bt_get_modify option.map_comp comp_def\<close>)
  ultimately show ?thesis using t' by simp
qed

text \<open>Retries and stale leases.\<close>

lemma retry_sound:
  assumes retry: "retry_node t k = Ok t'" and acc: "accounting {k} t" and lea: "leasing t"
    and n: "bt_get (rt_nodes t) k = Some n" "rn_lease_id n = None" "rn_retry_count n < MAX_RECURSIVE_RETRIES"
  shows "accounting {} t' \<and> leasing t'"
proof -
  let ?g = "\<lambda>n. n\<lparr>rn_retry_count := rn_retry_count n + 1, rn_status := Ready, rn_failure_reason := None,
                     rn_version := inc_u64 (rn_version n)\<rparr>"
  have nodes: "rt_nodes t' = bt_modify k ?g (rt_nodes t)" "same_totals t' t" "rt_active_leases t' = rt_active_leases t"
    using retry n by (auto simp: retry_node_def same_totals_def not_le)
  have "accounting {} t'"
    by (rule accounting_neutral [OF acc nodes(1,2)]) (simp_all add: same_money_def is_live_def)
  moreover have "leasing t'"
    by (rule leasing_clear [OF lea, of k "rn_status n" None Ready])
      (use n lease_view_modify [OF nodes(1)] nodes(3) in \<open>simp_all add: lease_view_def\<close>)
  ultimately show ?thesis by blast
qed

lemma stale_sound:
  assumes rec: "recover_stale_lease t k l retry = Ok (st, t')" and acc: "accounting {} t" and lea: "leasing t"
    and n: "bt_get (rt_nodes t) k = Some n"
  shows "leasing t'"
    and "retry \<Longrightarrow> rn_retry_count n < MAX_RECURSIVE_RETRIES \<Longrightarrow> accounting {} t'"
    and "\<not> retry \<Longrightarrow> accounting {k} t' \<and> (\<exists>m. bt_get (rt_nodes t') k = Some m \<and> \<not> is_live m)"
proof -
  have l: "rn_lease_id n = Some l" using rec n by (auto simp: recover_stale_lease_def split: if_splits)
  note live = leased_live [OF lea n l]
  let ?again = "retry \<and> rn_retry_count n < MAX_RECURSIVE_RETRIES"
  define g :: "recursive_node \<Rightarrow> recursive_node" where "g = (\<lambda>n. if ?again
                     then n\<lparr>rn_lease_id := None, rn_retry_count := rn_retry_count n + 1, rn_status := Ready,
                            rn_failure_reason := None, rn_version := inc_u64 (rn_version n)\<rparr>
                     else n\<lparr>rn_lease_id := None, rn_status := NodeFailed,
                            rn_failure_reason := Some RetryExhausted, rn_version := inc_u64 (rn_version n)\<rparr>)"
  have nodes: "rt_nodes t' = bt_modify k g (rt_nodes t)" "same_totals t' t"
    "rt_active_leases t' = rt_active_leases t - {l}"
    using rec n l unfolding g_def by (auto simp: recover_stale_lease_def Let_def same_totals_def)
  have money: "same_money (g m) m" for m by (simp add: g_def same_money_def)
  have g: "rn_status (g n) = (if ?again then Ready else NodeFailed)" "rn_lease_id (g n) = None" by (simp_all add: g_def)
  show "leasing t'"
    by (rule leasing_clear [OF lea, of k "rn_status n" "Some l" "if ?again then Ready else NodeFailed"])
      (use n l g lease_view_modify [OF nodes(1)] nodes(3) in \<open>simp_all add: lease_view_def\<close>)
  show "accounting {} t'" if "retry" "rn_retry_count n < MAX_RECURSIVE_RETRIES"
    by (rule accounting_neutral [OF acc nodes(1,2) money]) (use n live that g in \<open>auto simp: is_live_def\<close>)
  show "accounting {k} t' \<and> (\<exists>m. bt_get (rt_nodes t') k = Some m \<and> \<not> is_live m)" if "\<not> retry"
  proof
    show "accounting {k} t'"
      by (rule accounting_neutral [OF acc nodes(1,2) money]) (use n live in auto)
    show "\<exists>m. bt_get (rt_nodes t') k = Some m \<and> \<not> is_live m"
      using n g that by (simp add: nodes(1) bt_get_modify is_live_def)
  qed
qed

end
