(* ===== verification/Recursive_Validation.thy ===== *)
theory Recursive_Validation
  imports Recursive_Accounting
begin

text \<open>
  \<^verbatim>\<open>validate_tree_for_persistence\<close> of src/engine/src/storage/local\_product\_store/recursive\_execution.rs:
  the checks every tree passes when it is stored and when it is loaded, in the order of the source and
  with its messages. The loop over the nodes carries a \<open>validation_scan\<close>, the local variables of the
  source. The JSON text of a tree is serde's; \<open>tree_json\<close> is an argument.
\<close>

definition MAX_RECURSIVE_TREE_BYTES :: nat where "MAX_RECURSIVE_TREE_BYTES = 131072"
definition MAX_SCOPE_VALUE_BYTES :: nat where "MAX_SCOPE_VALUE_BYTES = 1024"
definition MAX_SCOPE_ITEMS :: nat where "MAX_SCOPE_ITEMS = 64"
definition MAX_RECURSIVE_DECISION_EVIDENCE_REFS :: nat where "MAX_RECURSIVE_DECISION_EVIDENCE_REFS = 8"
definition MAX_RECURSIVE_EVIDENCE_REF_BYTES :: nat where "MAX_RECURSIVE_EVIDENCE_REF_BYTES = 256"

lemma snapshot_caps_code [code_unfold]:
  "MAX_RECURSIVE_TREE_BYTES < n \<longleftrightarrow> 131072 < int n" "MAX_SCOPE_VALUE_BYTES < n \<longleftrightarrow> 1024 < int n"
  "MAX_RECURSIVE_EVIDENCE_REF_BYTES < n \<longleftrightarrow> 256 < int n"
  by (simp_all add: MAX_RECURSIVE_TREE_BYTES_def MAX_SCOPE_VALUE_BYTES_def MAX_RECURSIVE_EVIDENCE_REF_BYTES_def)

text \<open>An early return with an error message.\<close>

definition reject_if :: "bool \<Rightarrow> 'e \<Rightarrow> ('e, 'a) result \<Rightarrow> ('e, 'a) result" where
  "reject_if c e r = (if c then Err e else r)"

lemma reject_if_Ok [simp]: "reject_if c e r = Ok x \<longleftrightarrow> \<not> c \<and> r = Ok x"
  by (simp add: reject_if_def)

section \<open>Scopes and evidence\<close>

definition validate_scope :: "recursive_scope \<Rightarrow> (string, unit) result" where
  "validate_scope scope =
     reject_if (card (allowed_paths scope) > MAX_SCOPE_ITEMS \<or> card (scope_capabilities scope) > MAX_SCOPE_ITEMS)
       ''recursive scope exceeds bounded item cap''
     (reject_if (\<exists>value \<in> set_option (repository scope) \<union> allowed_paths scope \<union> scope_capabilities scope.
         utf8_len value > MAX_SCOPE_VALUE_BYTES) ''recursive scope value exceeds byte cap''
     (Ok ()))"

definition evidence_too_large :: "string list \<Rightarrow> bool" where
  "evidence_too_large refs \<longleftrightarrow> length refs > MAX_RECURSIVE_DECISION_EVIDENCE_REFS \<or>
     list_ex (\<lambda>reference. utf8_len reference > MAX_RECURSIVE_EVIDENCE_REF_BYTES) refs"

section \<open>The tree as a whole\<close>

definition recorded_overrun :: "recursive_tree \<Rightarrow> bool" where
  "recorded_overrun t = list_ex (\<lambda>receipt. starts_with receipt ''0:'') (bt_values (rt_usage_receipts t))"

definition aggregate_check :: "recursive_tree \<Rightarrow> (string, unit) result" where
  "aggregate_check t = (case rt_root_budget_limit t of
     None \<Rightarrow> Ok ()
   | Some limit \<Rightarrow>
       let total = add_budget (rt_spent_budget t) (rt_reserved_budget t)
       in reject_if (\<not> can_spend limit (rt_root_budget t) \<or> (\<not> can_spend limit total \<and> \<not> recorded_overrun t))
            ''recursive tree aggregate budget is inconsistent''
          (reject_if (\<not> recorded_overrun t \<and> add_budget (rt_root_budget t) total \<noteq> limit)
            ''recursive tree aggregate budget is not conserved''
          (Ok ())))"

definition root_identity_bad :: "recursive_tree \<Rightarrow> recursive_node \<Rightarrow> bool" where
  "root_identity_bad t root \<longleftrightarrow>
     rn_root_run_id root \<noteq> rt_root_run_id t \<or> rn_parent_node_id root \<noteq> None \<or> rn_depth root \<noteq> 0 \<or>
     rn_scope root \<noteq> rt_root_scope t \<or> rn_capabilities root \<noteq> rt_root_capabilities t \<or>
     rn_tenant_id root \<noteq> rt_root_tenant_id t \<or> rn_workspace_id root \<noteq> rt_root_workspace_id t"

section \<open>The loop over the nodes\<close>

record validation_scan =
  vs_child_counts :: "(string, nat) btree_map"
  vs_child_authority :: "(string, recursive_budget) btree_map"
  vs_total_actual_usage :: recursive_budget
  vs_total_reservations :: recursive_budget
  vs_fingerprints :: "string set"
  vs_proposal_ids :: "string set"

definition empty_scan :: validation_scan where
  "empty_scan = \<lparr>vs_child_counts = [], vs_child_authority = [], vs_total_actual_usage = zero_budget,
     vs_total_reservations = zero_budget, vs_fingerprints = {}, vs_proposal_ids = {}\<rparr>"

definition node_shape_bad :: "recursive_node \<Rightarrow> bool" where
  "node_shape_bad node \<longleftrightarrow>
     rn_depth node > MAX_RECURSIVE_DEPTH \<or> rn_accepted_children node > MAX_ACCEPTED_CHILDREN_PER_NODE \<or>
     utf8_len (rn_objective_fingerprint node) \<noteq> 64 \<or>
     length (rn_ancestor_fingerprints node) > MAX_RECURSIVE_DEPTH"

definition node_identity_bad :: "recursive_tree \<Rightarrow> recursive_node \<Rightarrow> bool" where
  "node_identity_bad t node \<longleftrightarrow>
     rn_root_run_id node \<noteq> rt_root_run_id t \<or> rn_node_id node = [] \<or>
     (rn_node_id node \<noteq> rt_root_node_id t \<and> rn_parent_node_id node = None) \<or>
     scope_capabilities (rn_scope node) \<noteq> rn_capabilities node"

definition node_budget_bad :: "recursive_tree \<Rightarrow> recursive_node \<Rightarrow> bool" where
  "node_budget_bad t node =
     (let execution_accounted = add_budget (rn_budget node) (rn_actual_usage node);
          execution_is_recorded_overrun = recorded_overrun t \<and> execution_accounted \<noteq> rn_budget_limit node \<and>
            can_spend execution_accounted (rn_budget_limit node)
      in \<not> can_spend (rn_budget_limit node) (rn_budget node) \<or>
         \<not> can_spend (rn_child_budget_limit node) (rn_child_budget node) \<or>
         (execution_accounted \<noteq> rn_budget_limit node \<and> \<not> execution_is_recorded_overrun))"

definition node_reservation_check :: "recursive_tree \<Rightarrow> recursive_node \<Rightarrow> (string, unit) result" where
  "node_reservation_check t node =
     (let terminal = rn_status node = NodeCompleted \<or> rn_status node = NodeFailed
      in if rn_node_id node = rt_root_node_id t
         then reject_if (rn_reservation node \<noteq> zero_budget \<or>
                rt_root_budget_limit t \<noteq> Some (rn_budget_limit node) \<or>
                rt_root_child_budget_limit t \<noteq> Some (rn_child_budget_limit node))
                ''recursive root node budget authority is inconsistent'' (Ok ())
         else reject_if ((terminal \<and> rn_reservation node \<noteq> zero_budget) \<or>
                (\<not> terminal \<and> rn_reservation node \<noteq> rn_budget node))
                ''recursive node reservation is inconsistent'' (Ok ()))"

definition lineage_bad :: "recursive_node \<Rightarrow> recursive_node \<Rightarrow> bool" where
  "lineage_bad parent node \<longleftrightarrow>
     rn_depth node \<noteq> min (rn_depth parent + 1) 255 \<or>
     rn_ancestor_fingerprints node \<noteq> rn_ancestor_fingerprints parent @ [rn_objective_fingerprint parent] \<or>
     \<not> rn_capabilities node \<subseteq> rn_capabilities parent \<or> \<not> is_subset_of (rn_scope node) (rn_scope parent) \<or>
     rn_tenant_id node \<noteq> rn_tenant_id parent \<or> rn_workspace_id node \<noteq> rn_workspace_id parent"

definition count_child :: "string \<Rightarrow> recursive_node \<Rightarrow> validation_scan \<Rightarrow> validation_scan" where
  "count_child parent_node_id node scan =
     scan\<lparr>vs_child_counts := bt_put parent_node_id
            (unwrap_or (bt_get (vs_child_counts scan) parent_node_id) 0 + 1) (vs_child_counts scan),
          vs_child_authority := bt_put parent_node_id
            (add_budget (add_budget (unwrap_or (bt_get (vs_child_authority scan) parent_node_id) zero_budget)
               (rn_actual_usage node)) (rn_reservation node)) (vs_child_authority scan)\<rparr>"

definition parent_check :: "recursive_tree \<Rightarrow> recursive_node \<Rightarrow> validation_scan \<Rightarrow>
    (string, validation_scan) result" where
  "parent_check t node scan = (case rn_parent_node_id node of
     None \<Rightarrow> Ok scan
   | Some parent_node_id \<Rightarrow>
       (case bt_get (rt_nodes t) parent_node_id of
          None \<Rightarrow> Err ''recursive node parent is missing''
        | Some parent \<Rightarrow>
            reject_if (lineage_bad parent node) ''recursive node lineage or authority is inconsistent''
              (Ok (count_child parent_node_id node scan))))"

definition proposal_check :: "platform \<Rightarrow> recursive_tree \<Rightarrow> recursive_node \<Rightarrow> validation_scan \<Rightarrow>
    (string, validation_scan) result" where
  "proposal_check pf t node scan = (case rn_proposal_id node of
     Some proposal_id \<Rightarrow>
       reject_if (rn_node_id node \<noteq> derived_node_id pf (rt_root_run_id t) proposal_id (rn_objective_fingerprint node))
         ''recursive child node identity is not deterministic''
       (reject_if (proposal_id \<in> vs_proposal_ids scan \<or> proposal_id \<notin> rt_accepted_proposals t \<or>
           bt_get (rt_receipts t) proposal_id = None)
         ''recursive proposal identity is inconsistent''
       (Ok (scan\<lparr>vs_proposal_ids := insert proposal_id (vs_proposal_ids scan)\<rparr>)))
   | None \<Rightarrow>
       reject_if (rn_node_id node \<noteq> rt_root_node_id t) ''recursive child proposal identity is missing''
         (Ok scan))"

fun lease_check :: "recursive_tree \<Rightarrow> recursive_node_status \<Rightarrow> string option \<Rightarrow> (string, unit) result" where
  "lease_check t Leased (Some lease_id) =
     (if lease_id \<in> rt_active_leases t then Ok () else Err ''recursive lease identity is inconsistent'')"
| "lease_check t Leased None = Err ''recursive lease identity is inconsistent''"
| "lease_check t _ (Some _) = Err ''non-leased recursive node has a lease''"
| "lease_check t _ None = Ok ()"

definition node_check :: "platform \<Rightarrow> recursive_tree \<Rightarrow> recursive_node \<Rightarrow> validation_scan \<Rightarrow>
    (string, validation_scan) result" where
  "node_check pf t node scan =
     reject_if (node_shape_bad node) ''recursive node exceeds bounded shape''
    (reject_if (node_identity_bad t node) ''recursive node identity is inconsistent''
    (reject_if (node_budget_bad t node) ''recursive node budget authority is inconsistent''
    (bind_result (node_reservation_check t node) (\<lambda>_.
     let scan1 = scan\<lparr>vs_total_actual_usage := add_budget (vs_total_actual_usage scan) (rn_actual_usage node),
                      vs_total_reservations := add_budget (vs_total_reservations scan) (rn_reservation node)\<rparr>
     in reject_if (rn_objective_fingerprint node \<in> vs_fingerprints scan1)
          ''recursive objective fingerprint is duplicated''
       (let scan2 = scan1\<lparr>vs_fingerprints := insert (rn_objective_fingerprint node) (vs_fingerprints scan1)\<rparr>
        in reject_if (rn_node_id node = rt_root_node_id t \<and> rn_ancestor_fingerprints node \<noteq> [])
             ''recursive root lineage is not empty''
          (bind_result (parent_check t node scan2) (\<lambda>scan3.
           bind_result (proposal_check pf t node scan3) (\<lambda>scan4.
           bind_result (lease_check t (rn_status node) (rn_lease_id node)) (\<lambda>_.
           bind_result (validate_scope (rn_scope node)) (\<lambda>_.
           reject_if (evidence_too_large (rn_evidence_refs node))
             ''recursive node evidence exceeds bounded shape'' (Ok scan4)))))))))))"

fun scan_nodes :: "platform \<Rightarrow> recursive_tree \<Rightarrow> recursive_node list \<Rightarrow> validation_scan \<Rightarrow>
    (string, validation_scan) result" where
  "scan_nodes pf t [] scan = Ok scan"
| "scan_nodes pf t (node # nodes) scan = bind_result (node_check pf t node scan) (scan_nodes pf t nodes)"

section \<open>The closing checks\<close>

definition child_count_bad :: "recursive_tree \<Rightarrow> validation_scan \<Rightarrow> bool" where
  "child_count_bad t scan = list_ex (\<lambda>node.
     rn_accepted_children node \<noteq> unwrap_or (bt_get (vs_child_counts scan) (rn_node_id node)) 0)
     (bt_values (rt_nodes t))"

definition node_accounting_bad :: "recursive_tree \<Rightarrow> validation_scan \<Rightarrow> bool" where
  "node_accounting_bad t scan \<longleftrightarrow>
     list_ex (\<lambda>node.
       let accounted = (case bt_get (vs_child_authority scan) (rn_node_id node) of
             None \<Rightarrow> rn_child_budget node
           | Some children \<Rightarrow> add_budget (rn_child_budget node) children)
       in accounted \<noteq> rn_child_budget_limit node \<and>
          \<not> (recorded_overrun t \<and> can_spend accounted (rn_child_budget_limit node))) (bt_values (rt_nodes t)) \<or>
     vs_total_actual_usage scan \<noteq> rt_spent_budget t \<or> vs_total_reservations scan \<noteq> rt_reserved_budget t"

definition lease_index_bad :: "recursive_tree \<Rightarrow> bool" where
  "lease_index_bad t \<longleftrightarrow> (\<exists>lease_id \<in> rt_active_leases t.
     \<not> list_ex (\<lambda>node. rn_lease_id node = Some lease_id) (bt_values (rt_nodes t)))"

definition receipt_set_bad :: "recursive_tree \<Rightarrow> validation_scan \<Rightarrow> bool" where
  "receipt_set_bad t scan \<longleftrightarrow>
     card (rt_accepted_proposals t) \<noteq> length (rt_receipts t) \<or>
     (\<exists>proposal_id \<in> rt_accepted_proposals t. proposal_id \<notin> vs_proposal_ids scan \<or>
        (case bt_get (rt_receipts t) proposal_id of None \<Rightarrow> True | Some receipt \<Rightarrow> receipt = [])) \<or>
     (\<exists>proposal_id \<in> rt_accepted_proposals t. bt_get (rt_rejected_proposals t) proposal_id \<noteq> None)"

definition usage_receipts_bad :: "recursive_tree \<Rightarrow> bool" where
  "usage_receipts_bad t \<longleftrightarrow> length (rt_usage_receipts t) > MAX_RECURSIVE_NODES_PER_ROOT * 2 \<or>
     list_ex (\<lambda>(receipt_id, _). receipt_id = []) (rt_usage_receipts t)"

definition decisions_bad :: "recursive_tree \<Rightarrow> bool" where
  "decisions_bad t \<longleftrightarrow> length (rt_rejected_proposals t) > MAX_RECURSIVE_NODES_PER_ROOT \<or>
     list_ex (\<lambda>decision. evidence_too_large (rde_evidence_refs decision) \<or>
       utf8_len (reason_str (rde_reason_code decision)) > 128) (bt_values (rt_rejected_proposals t))"

definition closing_checks :: "(recursive_tree \<Rightarrow> (string, string) result) \<Rightarrow> recursive_tree \<Rightarrow> validation_scan \<Rightarrow>
    (string, string) result" where
  "closing_checks tree_json t scan =
     reject_if (child_count_bad t scan) ''recursive child count is inconsistent''
    (reject_if (node_accounting_bad t scan) ''recursive node accounting is inconsistent''
    (reject_if (lease_index_bad t) ''recursive active lease index is inconsistent''
    (reject_if (receipt_set_bad t scan) ''recursive accepted proposal receipt set is inconsistent''
    (reject_if (usage_receipts_bad t) ''recursive usage receipt set exceeds bounded shape''
    (reject_if (decisions_bad t) ''recursive decision evidence exceeds bounded shape''
    (bind_result (tree_json t) (\<lambda>json.
      reject_if (utf8_len json > MAX_RECURSIVE_TREE_BYTES) ''recursive tree exceeds persistence byte cap''
        (Ok json))))))))"

definition validate_tree_for_persistence :: "platform \<Rightarrow> (recursive_tree \<Rightarrow> (string, string) result) \<Rightarrow>
    recursive_tree \<Rightarrow> (string, string) result" where
  "validate_tree_for_persistence pf tree_json t =
     reject_if (rt_schema_version t \<noteq> RECURSIVE_SCHEMA_VERSION) ''recursive tree schema version mismatch''
    (reject_if (length (rt_nodes t) > MAX_RECURSIVE_NODES_PER_ROOT \<or>
        card (rt_active_leases t) > MAX_RECURSIVE_LEASES)
       ''recursive tree exceeds bounded node or lease limit''
    (bind_result (validate_scope (rt_root_scope t)) (\<lambda>_.
     reject_if (rt_root_run_id t = [] \<or> rt_workflow_id t = [] \<or> rt_root_node_id t = [])
       ''recursive tree identity is empty''
    (reject_if (rt_root_agent_id t = [] \<or> rt_root_recursive_marker t \<noteq> rt_root_node_id t \<or>
        rt_root_creation_receipt_sha256 t = [])
       ''recursive root creation identity is incomplete''
    (reject_if (rt_root_child_budget_limit t = None) ''recursive root child budget authority is missing''
    (bind_result (aggregate_check t) (\<lambda>_.
     case bt_get (rt_nodes t) (rt_root_node_id t) of
       None \<Rightarrow> Err ''recursive tree root node is missing''
     | Some root \<Rightarrow>
         reject_if (root_identity_bad t root) ''recursive tree root identity is inconsistent''
         (bind_result (scan_nodes pf t (bt_values (rt_nodes t)) empty_scan) (closing_checks tree_json t)))))))))"

section \<open>Consistent trees are accepted\<close>

text \<open>The fixed identity of a tree, and what every node carries from its creation.\<close>

definition node_bound :: "recursive_node \<Rightarrow> bool" where
  "node_bound n \<longleftrightarrow> utf8_len (rn_objective_fingerprint n) = 64 \<and> rn_node_id n \<noteq> [] \<and>
     finite (allowed_paths (rn_scope n)) \<and> finite (scope_capabilities (rn_scope n)) \<and>
     validate_scope (rn_scope n) = Ok () \<and> \<not> evidence_too_large (rn_evidence_refs n)"

definition tree_bound :: "recursive_tree \<Rightarrow> bool" where
  "tree_bound t \<longleftrightarrow>
     rt_schema_version t = RECURSIVE_SCHEMA_VERSION \<and> rt_root_run_id t \<noteq> [] \<and> rt_workflow_id t \<noteq> [] \<and>
     rt_root_node_id t \<noteq> [] \<and> rt_root_agent_id t \<noteq> [] \<and> rt_root_recursive_marker t = rt_root_node_id t \<and>
     rt_root_creation_receipt_sha256 t \<noteq> [] \<and> validate_scope (rt_root_scope t) = Ok () \<and>
     (\<forall>root. bt_get (rt_nodes t) (rt_root_node_id t) = Some root \<longrightarrow>
        rn_scope root = rt_root_scope t \<and> rn_capabilities root = rt_root_capabilities t \<and>
        rn_tenant_id root = rt_root_tenant_id t \<and> rn_workspace_id root = rt_root_workspace_id t) \<and>
     (\<forall>k n. bt_get (rt_nodes t) k = Some n \<longrightarrow> node_bound n) \<and>
     (\<forall>pid r. bt_get (rt_receipts t) pid = Some r \<longrightarrow> r \<noteq> [])"

definition decisions_apart :: "recursive_tree \<Rightarrow> bool" where
  "decisions_apart t \<longleftrightarrow> (\<forall>pid \<in> rt_accepted_proposals t. bt_get (rt_rejected_proposals t) pid = None)"

definition consistent :: "platform \<Rightarrow> recursive_tree \<Rightarrow> bool" where
  "consistent pf t \<longleftrightarrow> lineage pf t \<and> accounting {} t \<and> leasing t \<and> tree_bound t \<and> decisions_apart t"

definition within_caps :: "(recursive_tree \<Rightarrow> (string, string) result) \<Rightarrow> recursive_tree \<Rightarrow> bool" where
  "within_caps tree_json t \<longleftrightarrow> \<not> usage_receipts_bad t \<and> \<not> decisions_bad t \<and>
     (\<exists>json. tree_json t = Ok json \<and> utf8_len json \<le> MAX_RECURSIVE_TREE_BYTES)"

lemma consistentD:
  assumes "consistent pf t"
  shows "lineage pf t" "accounting {} t" "leasing t" "tree_bound t" "decisions_apart t"
    "tree_shape t" "tree_bounds t" "tree_identity pf t"
  using assms by (simp_all add: consistent_def lineage_def)

text \<open>What the scan has collected after some of the nodes.\<close>

definition use_of :: "string \<Rightarrow> dim \<Rightarrow> recursive_node \<Rightarrow> nat" where
  "use_of j d n = (if rn_parent_node_id n = Some j
     then bget (rn_actual_usage n) d + bget (rn_reservation n) d else 0)"

definition scanned :: "recursive_node list \<Rightarrow> validation_scan \<Rightarrow> bool" where
  "scanned ns s \<longleftrightarrow>
     (\<forall>j. unwrap_or (bt_get (vs_child_counts s) j) 0 =
        sum_list (map (\<lambda>n. if rn_parent_node_id n = Some j then 1 else 0) ns)) \<and>
     (\<forall>j d. bget (unwrap_or (bt_get (vs_child_authority s) j) zero_budget) d = sum_list (map (use_of j d) ns)) \<and>
     (\<forall>d. bget (vs_total_actual_usage s) d = sum_list (map (\<lambda>n. bget (rn_actual_usage n) d) ns)) \<and>
     (\<forall>d. bget (vs_total_reservations s) d = sum_list (map (\<lambda>n. bget (rn_reservation n) d) ns)) \<and>
     vs_fingerprints s = rn_objective_fingerprint ` set ns \<and>
     vs_proposal_ids s = {pid. \<exists>n \<in> set ns. rn_proposal_id n = Some pid}"

lemma scanned_empty: "scanned [] empty_scan"
  by (simp add: scanned_def empty_scan_def bget_zero)

definition record_node :: "recursive_node \<Rightarrow> validation_scan \<Rightarrow> validation_scan" where
  "record_node n s =
     (let s2 = s\<lparr>vs_total_actual_usage := add_budget (vs_total_actual_usage s) (rn_actual_usage n),
          vs_total_reservations := add_budget (vs_total_reservations s) (rn_reservation n),
          vs_fingerprints := insert (rn_objective_fingerprint n) (vs_fingerprints s)\<rparr>;
          s3 = (case rn_parent_node_id n of None \<Rightarrow> s2 | Some pk \<Rightarrow> count_child pk n s2)
      in case rn_proposal_id n of None \<Rightarrow> s3
         | Some pid \<Rightarrow> s3\<lparr>vs_proposal_ids := insert pid (vs_proposal_ids s3)\<rparr>)"

text \<open>The checks on one node, apart from duplicates.\<close>

definition node_fine :: "platform \<Rightarrow> recursive_tree \<Rightarrow> recursive_node \<Rightarrow> bool" where
  "node_fine pf t n \<longleftrightarrow> \<not> node_shape_bad n \<and> \<not> node_identity_bad t n \<and> \<not> node_budget_bad t n \<and>
     node_reservation_check t n = Ok () \<and>
     (rn_node_id n = rt_root_node_id t \<longrightarrow> rn_ancestor_fingerprints n = []) \<and>
     (\<forall>pk. rn_parent_node_id n = Some pk \<longrightarrow> (\<exists>p. bt_get (rt_nodes t) pk = Some p \<and> \<not> lineage_bad p n)) \<and>
     (\<forall>pid. rn_proposal_id n = Some pid \<longrightarrow>
        rn_node_id n = derived_node_id pf (rt_root_run_id t) pid (rn_objective_fingerprint n) \<and>
        pid \<in> rt_accepted_proposals t \<and> bt_get (rt_receipts t) pid \<noteq> None) \<and>
     (rn_proposal_id n = None \<longrightarrow> rn_node_id n = rt_root_node_id t) \<and>
     lease_check t (rn_status n) (rn_lease_id n) = Ok () \<and> validate_scope (rn_scope n) = Ok () \<and>
     \<not> evidence_too_large (rn_evidence_refs n)"

lemma node_check_Ok_iff:
  "node_check pf t n s = Ok s' \<longleftrightarrow> node_fine pf t n \<and> rn_objective_fingerprint n \<notin> vs_fingerprints s \<and>
     (\<forall>pid. rn_proposal_id n = Some pid \<longrightarrow> pid \<notin> vs_proposal_ids s) \<and> s' = record_node n s"
  by (cases "rn_parent_node_id n"; cases "rn_proposal_id n")
    (auto simp: node_check_def node_fine_def parent_check_def proposal_check_def record_node_def Let_def
      bind_result_Ok_iff count_child_def split: option.splits)


lemma record_node_sel [simp]:
  "vs_fingerprints (record_node n s) = insert (rn_objective_fingerprint n) (vs_fingerprints s)"
  "vs_proposal_ids (record_node n s) = set_option (rn_proposal_id n) \<union> vs_proposal_ids s"
  "vs_total_actual_usage (record_node n s) = add_budget (vs_total_actual_usage s) (rn_actual_usage n)"
  "vs_total_reservations (record_node n s) = add_budget (vs_total_reservations s) (rn_reservation n)"
  "vs_child_counts (record_node n s) = (case rn_parent_node_id n of None \<Rightarrow> vs_child_counts s
     | Some pk \<Rightarrow> bt_put pk (unwrap_or (bt_get (vs_child_counts s) pk) 0 + 1) (vs_child_counts s))"
  "vs_child_authority (record_node n s) = (case rn_parent_node_id n of None \<Rightarrow> vs_child_authority s
     | Some pk \<Rightarrow> bt_put pk (add_budget (add_budget (unwrap_or (bt_get (vs_child_authority s) pk) zero_budget)
           (rn_actual_usage n)) (rn_reservation n)) (vs_child_authority s))"
  by (auto simp: record_node_def count_child_def Let_def split: option.splits)

lemma scan_nodes_Ok_iff:
  "scan_nodes pf t ns s = Ok s' \<longleftrightarrow>
     (\<forall>n \<in> set ns. node_fine pf t n) \<and> distinct (map rn_objective_fingerprint ns) \<and>
     (\<forall>n \<in> set ns. rn_objective_fingerprint n \<notin> vs_fingerprints s) \<and>
     distinct (List.map_filter rn_proposal_id ns) \<and>
     (\<forall>pid \<in> set (List.map_filter rn_proposal_id ns). pid \<notin> vs_proposal_ids s) \<and>
     s' = fold record_node ns s"
proof (induction ns arbitrary: s)
  case Nil
  then show ?case by (auto simp: List.map_filter_def)
next
  case (Cons n ns)
  have mf: "List.map_filter rn_proposal_id (n # ns) =
      (case rn_proposal_id n of None \<Rightarrow> List.map_filter rn_proposal_id ns
       | Some pid \<Rightarrow> pid # List.map_filter rn_proposal_id ns)"
    by (simp add: List.map_filter_def split: option.split)
  have "scan_nodes pf t (n # ns) s = Ok s' \<longleftrightarrow> node_fine pf t n \<and> rn_objective_fingerprint n \<notin> vs_fingerprints s \<and>
     (\<forall>pid. rn_proposal_id n = Some pid \<longrightarrow> pid \<notin> vs_proposal_ids s) \<and>
     scan_nodes pf t ns (record_node n s) = Ok s'"
    by (simp add: bind_result_Ok_iff node_check_Ok_iff)
  then show ?case
    unfolding Cons.IH mf by (cases "rn_proposal_id n") (auto intro: rev_image_eqI)
qed

text \<open>Prefix sums that stay within \<^verbatim>\<open>u64\<close> are exact.\<close>

lemma scanned_record:
  assumes sc: "scanned ns s"
    and actual: "\<And>d. sum_list (map (\<lambda>n. bget (rn_actual_usage n) d) (ns @ [n])) \<le> u64_max"
    and reservation: "\<And>d. sum_list (map (\<lambda>n. bget (rn_reservation n) d) (ns @ [n])) \<le> u64_max"
    and "use": "\<And>j d. sum_list (map (use_of j d) (ns @ [n])) \<le> u64_max"
  shows "scanned (ns @ [n]) (record_node n s)"
proof -
  note old = sc [unfolded scanned_def]
  have "bget (unwrap_or (bt_get (vs_child_authority (record_node n s)) j) zero_budget) d =
      sum_list (map (use_of j d) (ns @ [n]))" for j d
  proof (cases "rn_parent_node_id n = Some j")
    case True
    then show ?thesis
      using old "use" [of j d] by (simp add: map_laws bget_add saturating_add_exact use_of_def)
  next
    case False
    then show ?thesis using old by (cases "rn_parent_node_id n") (simp_all add: map_laws use_of_def)
  qed
  moreover have "unwrap_or (bt_get (vs_child_counts (record_node n s)) j) 0 =
      sum_list (map (\<lambda>n. if rn_parent_node_id n = Some j then 1 else 0) (ns @ [n]))" for j
    using old by (cases "rn_parent_node_id n") (simp_all add: map_laws)
  ultimately show ?thesis
    using old actual reservation
    by (auto simp: scanned_def bget_add saturating_add_exact elem_set)
qed

lemma scanned_fold:
  assumes "scanned pre s"
    and "\<And>d. sum_list (map (\<lambda>n. bget (rn_actual_usage n) d) (pre @ ns)) \<le> u64_max"
    and "\<And>d. sum_list (map (\<lambda>n. bget (rn_reservation n) d) (pre @ ns)) \<le> u64_max"
    and "\<And>j d. sum_list (map (use_of j d) (pre @ ns)) \<le> u64_max"
  shows "scanned (pre @ ns) (fold record_node ns s)"
  using assms
proof (induction ns arbitrary: pre s)
  case Nil
  then show ?case by simp
next
  case (Cons n ns)
  have "scanned (pre @ [n]) (record_node n s)"
  proof (rule scanned_record [OF Cons.prems(1)])
    show "sum_list (map (\<lambda>n. bget (rn_actual_usage n) d) (pre @ [n])) \<le> u64_max" for d
      using Cons.prems(2) [of d] by simp
    show "sum_list (map (\<lambda>n. bget (rn_reservation n) d) (pre @ [n])) \<le> u64_max" for d
      using Cons.prems(3) [of d] by simp
    show "sum_list (map (use_of j d) (pre @ [n])) \<le> u64_max" for j d
      using Cons.prems(4) [of j d] by simp
  qed
  then have "scanned ((pre @ [n]) @ ns) (fold record_node ns (record_node n s))"
    by (rule Cons.IH) (use Cons.prems(2-4) in simp_all)
  then show ?case by simp
qed


lemma scan_consistent:
  assumes con: "consistent pf t" and s: "s = fold record_node (bt_values (rt_nodes t)) empty_scan"
  shows "scanned (bt_values (rt_nodes t)) s"
proof -
  note c = consistentD [OF con]
  have tot: "sum_list (map (\<lambda>n. bget (rn_actual_usage n) d) (bt_values (rt_nodes t))) \<le> u64_max"
    "sum_list (map (\<lambda>n. bget (rn_reservation n) d) (bt_values (rt_nodes t))) \<le> u64_max" for d
    using accounting_totals [OF c(2), of d] by (simp_all add: totals_def bt_sum_def)
  have "use": "sum_list (map (use_of j d) (bt_values (rt_nodes t))) \<le> u64_max" for j d
  proof -
    have eq: "sum_list (map (use_of j d) (bt_values (rt_nodes t))) = child_use t j d"
      by (simp add: child_use_def bt_sum_def use_of_def [abs_def] comp_def)
    show ?thesis
    proof (cases "bt_get (rt_nodes t) j")
      case None
      then show ?thesis unfolding eq using child_use_zero [OF c(6) None, of d] by simp
    next
      case (Some n)
      then show ?thesis unfolding eq using accounting_books [OF c(2) Some, of d] by (simp add: books_def)
    qed
  qed
  show ?thesis
    using scanned_fold [OF scanned_empty, of "bt_values (rt_nodes t)"] tot "use" s by simp
qed

lemma distinct_values:
  assumes wf: "bt_wf m" and inj: "\<And>k n k' n'. bt_get m k = Some n \<Longrightarrow> bt_get m k' = Some n' \<Longrightarrow> f n = f n' \<Longrightarrow> k = k'"
  shows "distinct (map f (bt_values m))"
proof -
  have keys: "distinct (map fst m)" using wf by (rule bt_wf_distinct)
  have "inj_on (f \<circ> snd) (set m)"
  proof (rule inj_onI)
    fix x y assume xy: "x \<in> set m" "y \<in> set m" "(f \<circ> snd) x = (f \<circ> snd) y"
    then have get: "bt_get m (fst x) = Some (snd x)" "bt_get m (fst y) = Some (snd y)"
      using keys by simp_all
    then have "fst x = fst y" using inj xy(3) by simp
    with get show "x = y" by (simp add: prod_eq_iff)
  qed
  then show ?thesis using keys by (simp add: distinct_map)
qed

lemma min_depth: "d \<le> MAX_RECURSIVE_DEPTH \<Longrightarrow> min (d + 1) 255 = d + 1"
  by (simp add: MAX_RECURSIVE_DEPTH_def)

lemma tree_boundsD:
  assumes "tree_bounds t" "bt_get (rt_nodes t) k = Some n"
  shows "rn_depth n \<le> MAX_RECURSIVE_DEPTH" "length (rn_ancestor_fingerprints n) = rn_depth n"
    "rn_accepted_children n = child_count t k" "rn_accepted_children n \<le> MAX_ACCEPTED_CHILDREN_PER_NODE"
    "scope_capabilities (rn_scope n) = rn_capabilities n" "rn_root_run_id n = rt_root_run_id t"
  using assms(1) [unfolded tree_bounds_def, THEN conjunct2, rule_format, OF assms(2)] by simp_all

lemma tree_identityD:
  assumes "tree_identity pf t" "bt_get (rt_nodes t) k = Some n"
  shows "rn_proposal_id n = None \<longleftrightarrow> k = rt_root_node_id t"
    "rn_proposal_id n = Some pid \<Longrightarrow> pid \<in> rt_accepted_proposals t \<and>
       k = derived_node_id pf (rt_root_run_id t) pid (rn_objective_fingerprint n)"
proof -
  note ident = assms(1) [unfolded tree_identity_def, THEN conjunct2]
  show "rn_proposal_id n = None \<longleftrightarrow> k = rt_root_node_id t"
    by (rule ident [THEN conjunct1, rule_format, OF assms(2)])
  show "pid \<in> rt_accepted_proposals t \<and> k = derived_node_id pf (rt_root_run_id t) pid (rn_objective_fingerprint n)"
    if "rn_proposal_id n = Some pid"
    by (intro conjI ident [THEN conjunct2, THEN conjunct1, rule_format, OF assms(2) that])
qed

lemma accepted_receipt:
  assumes "tree_identity pf t"
  shows "pid \<in> rt_accepted_proposals t \<longleftrightarrow> bt_get (rt_receipts t) pid \<noteq> None"
proof -
  have "rt_accepted_proposals t = fst ` set (rt_receipts t)" using assms by (simp add: tree_identity_def)
  then show ?thesis by (simp add: map_of_eq_None_iff)
qed

lemma node_books_fine:
  assumes "books t k n Calls" "books t k n Tokens" "books t k n Cost" "books t k n Time"
  shows "\<not> node_budget_bad t n"
proof -
  have all: "books t k n d" for d using assms by (cases d) simp_all
  have "add_budget (rn_budget n) (rn_actual_usage n) = rn_budget_limit n"
    using all by (intro budget_eqI) (simp add: books_def bget_add saturating_add_exact)
  moreover have "can_spend (rn_budget_limit n) (rn_budget n)" "can_spend (rn_child_budget_limit n) (rn_child_budget n)"
    using all unfolding can_spend_iff books_def by (metis le_add1)+
  ultimately show ?thesis by (simp add: node_budget_bad_def Let_def)
qed

lemma node_reservation_fine:
  assumes "held {} t k n" "root_limits t" "bt_get (rt_nodes t) k = Some n" "rn_node_id n = k"
  shows "node_reservation_check t n = Ok ()"
  using assms
  by (cases "rn_status n") (auto simp: node_reservation_check_def Let_def held_def root_limits_def is_live_def)

lemma lease_fine:
  assumes "leasing t" "bt_get (rt_nodes t) k = Some n"
  shows "lease_check t (rn_status n) (rn_lease_id n) = Ok ()"
proof -
  have view: "lease_view t k = Some (rn_status n, rn_lease_id n)" using assms(2) by (simp add: lease_view_def)
  then have iff: "rn_lease_id n = None \<longleftrightarrow> rn_status n \<noteq> Leased" using assms(1) unfolding leasing_def by blast
  show ?thesis
  proof (cases "rn_lease_id n")
    case None
    then show ?thesis using iff by (cases "rn_status n") simp_all
  next
    case (Some l)
    then have "lease_view t k = Some (Leased, Some l)" using view iff by simp
    then have "l \<in> rt_active_leases t" using assms(1) unfolding leasing_def by blast
    then show ?thesis using Some iff by simp
  qed
qed

lemma consistent_node_fine:
  assumes con: "consistent pf t" and n: "bt_get (rt_nodes t) k = Some n"
  shows "node_fine pf t n"
proof -
  note c = consistentD [OF con]
  note bounds = tree_boundsD [OF c(7) n] and ident = tree_identityD [OF c(8) n]
  have id: "rn_node_id n = k" using tree_shape_id [OF c(6) n] .
  have bound: "node_bound n" using c(4) n by (auto simp: tree_bound_def)
  have parent: "\<exists>p. bt_get (rt_nodes t) pk = Some p \<and> \<not> lineage_bad p n" if pk: "rn_parent_node_id n = Some pk" for pk
  proof -
    have "k \<noteq> rt_root_node_id t" using tree_shape_rootE [OF c(6)] n pk by (metis option.distinct(1) option.inject)
    then obtain p where p: "bt_get (rt_nodes t) pk = Some p" "derives_from p n"
      using tree_shape_parentE [OF c(6) n] pk by (metis option.inject)
    then show ?thesis
      using min_depth [OF tree_boundsD(1) [OF c(7) p(1)]] by (auto simp: derives_from_def lineage_bad_def)
  qed
  have root: "rn_parent_node_id n \<noteq> None" if "k \<noteq> rt_root_node_id t"
    using tree_shape_parentE [OF c(6) n that] by (metis option.distinct(1))
  have anc: "rn_ancestor_fingerprints n = []" if "k = rt_root_node_id t"
    using tree_shape_rootE [OF c(6)] n that by (metis option.inject)
  have receipts: "bt_get (rt_receipts t) pid \<noteq> None" if "rn_proposal_id n = Some pid" for pid
    using accepted_receipt [OF c(8)] ident(2) that by blast
  show ?thesis
    unfolding node_fine_def
  proof (intro conjI allI impI)
    show "\<not> node_shape_bad n" using bounds bound by (simp add: node_shape_bad_def node_bound_def)
    show "\<not> node_identity_bad t n" using bounds bound id root by (auto simp: node_identity_bad_def node_bound_def)
    show "\<not> node_budget_bad t n" using accounting_books [OF c(2) n] by (intro node_books_fine)
    show "node_reservation_check t n = Ok ()"
      by (rule node_reservation_fine [OF accounting_held [OF c(2) n] accounting_root [OF c(2)] n id])
    show "rn_ancestor_fingerprints n = []" if "rn_node_id n = rt_root_node_id t" using anc id that by simp
    show "\<exists>p. bt_get (rt_nodes t) pk = Some p \<and> \<not> lineage_bad p n" if "rn_parent_node_id n = Some pk" for pk
      using parent that .
    show "rn_node_id n = derived_node_id pf (rt_root_run_id t) pid (rn_objective_fingerprint n)"
      "pid \<in> rt_accepted_proposals t" "bt_get (rt_receipts t) pid \<noteq> None" if "rn_proposal_id n = Some pid" for pid
      using ident(2) [OF that] receipts [OF that] id by simp_all
    show "rn_node_id n = rt_root_node_id t" if "rn_proposal_id n = None" using ident(1) that id by simp
    show "lease_check t (rn_status n) (rn_lease_id n) = Ok ()" by (rule lease_fine [OF c(3) n])
    show "validate_scope (rn_scope n) = Ok ()" "\<not> evidence_too_large (rn_evidence_refs n)"
      using bound by (simp_all add: node_bound_def)
  qed
qed

lemma values_get:
  assumes "tree_shape t" "n \<in> set (bt_values (rt_nodes t))"
  shows "bt_get (rt_nodes t) (rn_node_id n) = Some n"
proof -
  obtain k where k: "bt_get (rt_nodes t) k = Some n" using tree_shape_valuesE [OF assms] .
  then show ?thesis using tree_shape_id [OF assms(1) k] by simp
qed

lemma distinct_map_filter:
  "distinct (map f xs) \<Longrightarrow> distinct (List.map_filter f xs)"
proof (induction xs)
  case Nil
  then show ?case by (simp add: List.map_filter_def)
next
  case (Cons x xs)
  have "a \<in> set (List.map_filter f xs) \<Longrightarrow> Some a \<in> f ` set xs" for a
    by (auto simp: List.map_filter_def intro: rev_image_eqI)
  with Cons show ?case
    by (cases "f x") (auto simp: List.map_filter_def)
qed

lemma consistent_scan:
  assumes con: "consistent pf t"
  shows "scan_nodes pf t (bt_values (rt_nodes t)) empty_scan =
    Ok (fold record_node (bt_values (rt_nodes t)) empty_scan)"
  unfolding scan_nodes_Ok_iff
proof (intro conjI ballI)
  note c = consistentD [OF con]
  note wf = tree_shape_wf [OF c(6)] and ident = c(8) [unfolded tree_identity_def]
  show "node_fine pf t n" if "n \<in> set (bt_values (rt_nodes t))" for n
    using consistent_node_fine [OF con values_get [OF c(6) that]] .
  show "distinct (map rn_objective_fingerprint (bt_values (rt_nodes t)))"
    by (rule distinct_values [OF wf]) (rule ident [THEN conjunct1, rule_format])
  have inj: "k = k'" if "bt_get (rt_nodes t) k = Some n" "bt_get (rt_nodes t) k' = Some n'"
    "rn_proposal_id n = rn_proposal_id n'" for k n k' n'
  proof (cases "rn_proposal_id n")
    case None
    then show ?thesis using tree_identityD(1) [OF c(8)] that by metis
  next
    case (Some pid)
    have "\<forall>k n k' n' pid. bt_get (rt_nodes t) k = Some n \<longrightarrow> bt_get (rt_nodes t) k' = Some n' \<longrightarrow>
        rn_proposal_id n = Some pid \<longrightarrow> rn_proposal_id n' = Some pid \<longrightarrow> k = k'"
      using ident by (elim conjE) assumption
    then show ?thesis using Some that by metis
  qed
  have "distinct (map rn_proposal_id (bt_values (rt_nodes t)))" by (rule distinct_values [OF wf inj])
  then show "distinct (List.map_filter rn_proposal_id (bt_values (rt_nodes t)))"
    by (rule distinct_map_filter)
qed (simp_all add: empty_scan_def)

lemma consistent_aggregate:
  assumes acc: "accounting {} t"
  shows "aggregate_check t = Ok ()"
proof (cases "rt_root_budget_limit t")
  case None
  then show ?thesis by (simp add: aggregate_check_def)
next
  case (Some limit)
  have eq: "bget (rt_root_budget t) d + bget (rt_reserved_budget t) d + bget (rt_spent_budget t) d = bget limit d"
    "bget limit d < u64_max" for d
    using accounting_totals [OF acc, of d] Some by (simp_all add: totals_def limit_of_def)
  have total: "bget (add_budget (rt_spent_budget t) (rt_reserved_budget t)) d =
      bget (rt_spent_budget t) d + bget (rt_reserved_budget t) d" for d
    using eq [of d] by (simp add: bget_add saturating_add_exact)
  have "can_spend limit (rt_root_budget t)" "can_spend limit (add_budget (rt_spent_budget t) (rt_reserved_budget t))"
    unfolding can_spend_iff total using eq(1) by (metis add.assoc add.commute le_add1)+
  moreover have "add_budget (rt_root_budget t) (add_budget (rt_spent_budget t) (rt_reserved_budget t)) = limit"
  proof (rule budget_eqI)
    fix d show "bget (add_budget (rt_root_budget t) (add_budget (rt_spent_budget t) (rt_reserved_budget t))) d = bget limit d"
      unfolding bget_add [of "rt_root_budget t"] total using eq [of d] by (simp add: saturating_add_exact)
  qed
  ultimately show ?thesis using Some by (simp add: aggregate_check_def Let_def)
qed

lemma consistent_children:
  assumes con: "consistent pf t" and sc: "scanned (bt_values (rt_nodes t)) s"
  shows "\<not> child_count_bad t s" "\<not> node_accounting_bad t s"
proof -
  note c = consistentD [OF con] and old = sc [unfolded scanned_def]
  show "\<not> child_count_bad t s"
  proof -
    have "rn_accepted_children n = unwrap_or (bt_get (vs_child_counts s) (rn_node_id n)) 0"
      if n: "n \<in> set (bt_values (rt_nodes t))" for n
      using tree_boundsD(3) [OF c(7) values_get [OF c(6) n]] old by (simp add: child_count_def bt_sum_def)
    then show ?thesis unfolding child_count_bad_def list_ex_iff by blast
  qed
  have "(case bt_get (vs_child_authority s) (rn_node_id n) of None \<Rightarrow> rn_child_budget n
      | Some children \<Rightarrow> add_budget (rn_child_budget n) children) = rn_child_budget_limit n"
    if n: "n \<in> set (bt_values (rt_nodes t))" for n
  proof (rule budget_eqI)
    fix d
    have "use": "child_use t (rn_node_id n) d = bget (unwrap_or (bt_get (vs_child_authority s) (rn_node_id n)) zero_budget) d"
      using old by (simp add: child_use_def bt_sum_def use_of_def [abs_def])
    show "bget (case bt_get (vs_child_authority s) (rn_node_id n) of None \<Rightarrow> rn_child_budget n
      | Some children \<Rightarrow> add_budget (rn_child_budget n) children) d = bget (rn_child_budget_limit n) d"
      using accounting_books [OF c(2) values_get [OF c(6) n], of d] unfolding books_def "use"
      by (cases "bt_get (vs_child_authority s) (rn_node_id n)") (auto simp: bget_zero bget_add saturating_add_exact)
  qed
  moreover have "vs_total_actual_usage s = rt_spent_budget t" "vs_total_reservations s = rt_reserved_budget t"
    using old accounting_totals [OF c(2)] by (auto intro!: budget_eqI simp: totals_def bt_sum_def)
  ultimately show "\<not> node_accounting_bad t s"
    unfolding node_accounting_bad_def list_ex_iff Let_def by blast
qed

lemma consistent_lease_index:
  assumes "leasing t"
  shows "\<not> lease_index_bad t"
proof -
  have "list_ex (\<lambda>node. rn_lease_id node = Some l) (bt_values (rt_nodes t))" if l: "l \<in> rt_active_leases t" for l
  proof -
    obtain k where "lease_view t k = Some (Leased, Some l)" using assms l unfolding leasing_def by blast
    then obtain n where "bt_get (rt_nodes t) k = Some n" "rn_lease_id n = Some l" by (auto simp: lease_view_def)
    then show ?thesis unfolding list_ex_iff by (auto dest!: map_of_SomeD intro!: rev_bexI)
  qed
  then show ?thesis unfolding lease_index_bad_def by blast
qed

lemma consistent_receipts:
  assumes con: "consistent pf t" and sc: "scanned (bt_values (rt_nodes t)) s"
  shows "\<not> receipt_set_bad t s"
proof -
  note c = consistentD [OF con]
  have keys: "rt_accepted_proposals t = fst ` set (rt_receipts t)" "bt_wf (rt_receipts t)"
    using c(8) by (simp_all add: tree_identity_def)
  have card: "card (rt_accepted_proposals t) = length (rt_receipts t)"
    using distinct_card [OF bt_wf_distinct [OF keys(2)]] keys(1) by simp
  have "pid \<in> vs_proposal_ids s" if pid: "pid \<in> rt_accepted_proposals t" for pid
  proof -
    have "\<forall>pid \<in> rt_accepted_proposals t. \<exists>k n. bt_get (rt_nodes t) k = Some n \<and> rn_proposal_id n = Some pid"
      using c(8) unfolding tree_identity_def by (elim conjE) assumption
    then obtain k n where n: "bt_get (rt_nodes t) k = Some n" "rn_proposal_id n = Some pid" using pid by blast
    then have "n \<in> set (bt_values (rt_nodes t))" by (auto dest!: map_of_SomeD intro!: rev_image_eqI)
    then show ?thesis using n(2) sc unfolding scanned_def by blast
  qed
  moreover have "\<not> (case bt_get (rt_receipts t) pid of None \<Rightarrow> True | Some r \<Rightarrow> r = [])"
    if pid: "pid \<in> rt_accepted_proposals t" for pid
    using accepted_receipt [OF c(8)] pid c(4) by (auto simp: tree_bound_def)
  moreover have "bt_get (rt_rejected_proposals t) pid = None" if "pid \<in> rt_accepted_proposals t" for pid
    using c(5) that by (simp add: decisions_apart_def)
  ultimately show ?thesis using card unfolding receipt_set_bad_def by auto
qed

lemma consistent_accepted:
  assumes con: "consistent pf t" and caps: "within_caps tree_json t"
  shows "validate_tree_for_persistence pf tree_json t = tree_json t"
proof -
  note c = consistentD [OF con]
  let ?s = "fold record_node (bt_values (rt_nodes t)) empty_scan"
  have sc: "scanned (bt_values (rt_nodes t)) ?s" by (rule scan_consistent [OF con refl])
  obtain json where json: "tree_json t = Ok json" "utf8_len json \<le> MAX_RECURSIVE_TREE_BYTES"
    using caps by (auto simp: within_caps_def)
  have closing: "closing_checks tree_json t ?s = Ok json"
    using caps json consistent_children [OF con sc] consistent_lease_index [OF c(3)] consistent_receipts [OF con sc]
    by (simp add: closing_checks_def within_caps_def)
  obtain root where root: "bt_get (rt_nodes t) (rt_root_node_id t) = Some root" "rn_parent_node_id root = None"
    "rn_depth root = 0" using tree_shape_rootE [OF c(6)] by metis
  have ident: "\<not> root_identity_bad t root"
    using root c(4) tree_boundsD(6) [OF c(7) root(1)] by (simp add: root_identity_bad_def tree_bound_def)
  have "rt_root_child_budget_limit t \<noteq> None" using accounting_root [OF c(2)] by (auto simp: root_limits_def)
  moreover have "length (rt_nodes t) \<le> MAX_RECURSIVE_NODES_PER_ROOT" using c(7) by (simp add: tree_bounds_def)
  moreover have "card (rt_active_leases t) \<le> MAX_RECURSIVE_LEASES" using c(3) by (simp add: leasing_def)
  ultimately have "validate_tree_for_persistence pf tree_json t = Ok json"
    using c(4) consistent_aggregate [OF c(2)] root(1) ident consistent_scan [OF con] closing
    by (simp add: validate_tree_for_persistence_def tree_bound_def bind_result_Ok_iff)
  then show ?thesis using json by simp
qed

section \<open>What an operation has to keep\<close>

lemma node_bound_static: "node_bound (node_static n) = node_bound n"
  by (simp add: node_bound_def node_static_def)

lemma skeleton_fields:
  "rt_schema_version (skeleton t) = rt_schema_version t" "rt_workflow_id (skeleton t) = rt_workflow_id t"
  "rt_root_agent_id (skeleton t) = rt_root_agent_id t"
  "rt_root_recursive_marker (skeleton t) = rt_root_recursive_marker t"
  "rt_root_creation_receipt_sha256 (skeleton t) = rt_root_creation_receipt_sha256 t"
  "rt_root_scope (skeleton t) = rt_root_scope t" "rt_root_capabilities (skeleton t) = rt_root_capabilities t"
  "rt_root_tenant_id (skeleton t) = rt_root_tenant_id t" "rt_root_workspace_id (skeleton t) = rt_root_workspace_id t"
  by (simp_all add: skeleton_def)

lemma all_map_option: "(\<forall>y. map_option f x = Some y \<longrightarrow> P y) \<longleftrightarrow> (\<forall>z. x = Some z \<longrightarrow> P (f z))"
  by (cases x) auto

lemma tree_bound_skeleton: "tree_bound (skeleton t) = tree_bound t"
proof -
  have "(\<forall>k n. bt_get (rt_nodes (skeleton t)) k = Some n \<longrightarrow> node_bound n) \<longleftrightarrow>
      (\<forall>k n. bt_get (rt_nodes t) k = Some n \<longrightarrow> node_bound n)"
    unfolding skeleton_sel get_nodes_static all_map_option node_bound_static ..
  moreover have "(\<forall>root. bt_get (rt_nodes (skeleton t)) (rt_root_node_id t) = Some root \<longrightarrow>
        rn_scope root = rt_root_scope t \<and> rn_capabilities root = rt_root_capabilities t \<and>
        rn_tenant_id root = rt_root_tenant_id t \<and> rn_workspace_id root = rt_root_workspace_id t) \<longleftrightarrow>
      (\<forall>root. bt_get (rt_nodes t) (rt_root_node_id t) = Some root \<longrightarrow>
        rn_scope root = rt_root_scope t \<and> rn_capabilities root = rt_root_capabilities t \<and>
        rn_tenant_id root = rt_root_tenant_id t \<and> rn_workspace_id root = rt_root_workspace_id t)"
    unfolding skeleton_sel get_nodes_static all_map_option node_static_sel ..
  ultimately show ?thesis
    unfolding tree_bound_def skeleton_fields skeleton_sel(2-5) by (simp only:)
qed

lemma tree_bound_cong: "skeleton t' = skeleton t \<Longrightarrow> tree_bound t \<Longrightarrow> tree_bound t'"
  by (metis tree_bound_skeleton)

lemma consistent_step:
  assumes "consistent pf t" "skeleton t' = skeleton t" "rt_rejected_proposals t' = rt_rejected_proposals t"
    "accounting {} t'" "leasing t'"
  shows "consistent pf t'"
proof -
  note c = consistentD [OF assms(1)]
  have "decisions_apart t'"
    using c(5) assms(3) skeleton_eqD(3) [OF assms(2)] by (simp add: decisions_apart_def)
  then show ?thesis
    using assms lineage_cong [OF assms(2) c(1)] tree_bound_cong [OF assms(2) c(4)] by (simp add: consistent_def)
qed

text \<open>What the digest is relied on for: 64 characters, whatever the text.\<close>

definition hex_digest :: "platform \<Rightarrow> bool" where
  "hex_digest pf \<longleftrightarrow> (\<forall>text. utf8_len (sha256_hex pf text) = 64)"

text \<open>A scope that narrows an accepted one is accepted.\<close>

lemma narrower_scope:
  assumes "is_subset_of s p" "validate_scope p = Ok ()" "finite (allowed_paths p)" "finite (scope_capabilities p)"
  shows "validate_scope s = Ok ()" "finite (allowed_paths s)" "finite (scope_capabilities s)"
proof -
  have sub: "allowed_paths s \<subseteq> allowed_paths p" "scope_capabilities s \<subseteq> scope_capabilities p"
    "repository s = repository p" using assms(1) by (auto simp: is_subset_of_def)
  then show "finite (allowed_paths s)" "finite (scope_capabilities s)"
    using assms(3,4) by (auto intro: finite_subset)
  have "card (allowed_paths s) \<le> card (allowed_paths p)" "card (scope_capabilities s) \<le> card (scope_capabilities p)"
    using sub assms(3,4) by (auto intro: card_mono)
  then show "validate_scope s = Ok ()"
    using assms(2) sub by (auto simp: validate_scope_def not_less dest: le_trans)
qed

lemma utf8_len_append: "utf8_len (a @ b) = utf8_len a + utf8_len b"
  by (simp add: utf8_len_def)

lemma child_bound:
  assumes parent: "node_bound parent" and hex: "hex_digest pf" and der: "derives_from parent (child_node pf t parent p)"
    and pid: "utf8_len (rp_proposal_id p) \<le> 241"
  shows "node_bound (child_node pf t parent p)"
proof -
  let ?c = "child_node pf t parent p"
  have sub: "is_subset_of (rn_scope ?c) (rn_scope parent)" using der by (simp add: derives_from_def)
  have "utf8_len ''agent_proposal/'' = 15" by code_simp
  then have "utf8_len (''agent_proposal/'' @ rp_proposal_id p) \<le> MAX_RECURSIVE_EVIDENCE_REF_BYTES"
    using pid by (simp only: utf8_len_append MAX_RECURSIVE_EVIDENCE_REF_BYTES_def)
  moreover have "rn_evidence_refs ?c = [''agent_proposal/'' @ rp_proposal_id p]"
    by (simp add: child_node_def Let_def)
  ultimately have "\<not> evidence_too_large (rn_evidence_refs ?c)"
    by (simp add: evidence_too_large_def MAX_RECURSIVE_DECISION_EVIDENCE_REFS_def)
  then show ?thesis
    using narrower_scope [OF sub] parent hex
    by (simp add: node_bound_def hex_digest_def objective_fingerprint_def derived_node_id_def)
qed

lemma consistent_admit:
  assumes con: "consistent pf t" and adm: "admit_child pf t p = Ok (a, t')"
    and fresh: "fresh_child pf t p" and hex: "hex_digest pf" and pid: "utf8_len (rp_proposal_id p) \<le> 241"
  shows "consistent pf t'"
proof -
  note c = consistentD [OF con]
  obtain parent where p: "bt_get (rt_nodes t) (rp_parent_node_id p) = Some parent"
    "rp_requested_capabilities p \<subseteq> rn_capabilities parent"
    "is_subset_of (rp_requested_scope p) (rn_scope parent)" "shape_is_valid p"
    "bt_get (rt_rejected_proposals t) (rp_proposal_id p) = None" "t' = admitted_tree pf t parent p"
    using admit_child_OkE [OF adm] by metis
  have parent: "bt_get (rt_nodes t) (rn_node_id parent) = Some parent"
    using p(1) tree_shape_id [OF c(6)] by metis
  have fresh': "bt_get (rt_nodes t) (rn_node_id (child_node pf t parent p)) = None"
    using fresh fresh_child_node by metis
  have der: "derives_from parent (child_node pf t parent p)"
    by (rule child_derives [OF p(2,3) tree_boundsD(5) [OF c(7) p(1)]])
  have bound: "node_bound n" if "bt_get (rt_nodes t) k = Some n" for k n
    using c(4) that by (simp add: tree_bound_def)
  have root: "rn_node_id (child_node pf t parent p) \<noteq> rt_root_node_id t"
    using fresh' tree_shape_rootE [OF c(6)] by (metis option.distinct(1))
  have nodes: "node_bound n" if n: "bt_get (rt_nodes t') k = Some n" for k n
    using parent n unfolding p(6)
  proof (cases rule: admitted_cases)
    case child
    then show ?thesis using child_bound [OF bound [OF parent] hex der pid] by simp
  next
    case parent
    then show ?thesis using bound [OF p(1)] by (simp add: node_bound_def parent_update_def)
  next
    case other
    then show ?thesis using bound by blast
  qed
  have rootnode: "rn_scope r = rt_root_scope t \<and> rn_capabilities r = rt_root_capabilities t \<and>
      rn_tenant_id r = rt_root_tenant_id t \<and> rn_workspace_id r = rt_root_workspace_id t"
    if "bt_get (rt_nodes t') (rt_root_node_id t) = Some r" for r
    using that c(4) root parent unfolding p(6) admitted_get [OF parent]
    by (auto simp: tree_bound_def split: if_splits)
  have receipts: "r \<noteq> []" if "bt_get (rt_receipts t') pid = Some r" for pid r
    using that c(4) p(4) unfolding p(6) by (auto simp: map_laws tree_bound_def shape_is_valid_def split: if_splits)
  have fields: "rt_schema_version t' = rt_schema_version t" "rt_workflow_id t' = rt_workflow_id t"
    "rt_root_agent_id t' = rt_root_agent_id t" "rt_root_recursive_marker t' = rt_root_recursive_marker t"
    "rt_root_creation_receipt_sha256 t' = rt_root_creation_receipt_sha256 t"
    "rt_root_scope t' = rt_root_scope t" "rt_root_capabilities t' = rt_root_capabilities t"
    "rt_root_tenant_id t' = rt_root_tenant_id t" "rt_root_workspace_id t' = rt_root_workspace_id t"
    "rt_root_run_id t' = rt_root_run_id t" "rt_root_node_id t' = rt_root_node_id t"
    by (simp_all add: p(6) admitted_tree_def Let_def)
  have "tree_bound t'"
    unfolding tree_bound_def fields using c(4) [unfolded tree_bound_def] nodes rootnode receipts
    by (intro conjI allI impI) (simp_all only: simp_thms)
  moreover have "decisions_apart t'" using c(5) p(5,6) by (simp add: decisions_apart_def)
  ultimately show ?thesis
    using lineage_admit [OF c(1) fresh adm] accounting_admit [OF c(2,6) fresh' parent]
      leasing_admit [OF c(3) parent fresh'] p(6) by (simp add: consistent_def)
qed

end
