(* ===== verification/Recursive_Store.thy ===== *)
theory Recursive_Store
  imports Recursive_Validation Json_Value
begin

text \<open>
  The store of recursive trees, src/engine/src/storage/local\_product\_store/recursive\_execution.rs on
  SQLite: the rows it reads and writes and the functions the scheduler calls for a lease, a completion,
  a late result, a stale lease, a terminal failure and an operator control. A table is a map from its
  primary key to a row. Every function runs inside a transaction of its caller; an error is returned
  without a database, since the caller rolls back. JSON texts are read and written by serde, whose
  functions are the fields of \<open>serde\<close>, as is the message of a query that finds no row.
\<close>

section \<open>Rows\<close>

record tree_row =
  tw_workflow_id :: string
  tw_root_node_id :: string
  tw_tree_schema_version :: string
  tw_tree_json :: string
  tw_version :: int
  tw_created_at :: string
  tw_updated_at :: string

record index_row =
  ix_parent_node_id :: "string option"
  ix_proposal_id :: "string option"
  ix_depth :: int
  ix_objective_fingerprint :: string
  ix_status :: string
  ix_version :: int
  ix_created_at :: string
  ix_updated_at :: string

record run_row =
  ru_workflow_id :: string
  ru_boundaries_json :: string

record run_node_row =
  rr_task_type :: string
  rr_status :: string
  rr_node_json :: string
  rr_completed_at :: "string option"
  rr_leased_at :: "string option"
  rr_blocked_reason :: "string option"

record product_db =
  recursive_execution_trees :: "(string, tree_row) hash_map"
  recursive_execution_nodes :: "(string \<times> string, index_row) hash_map"
  workflow_runs :: "(string, run_row) hash_map"
  workflow_run_nodes :: "(string \<times> string, run_node_row) hash_map"

record recursive_root_authority =
  rra_schema_version :: string
  rra_scope :: recursive_scope
  rra_capabilities :: "string set"
  rra_tree_budget :: recursive_budget
  rra_child_budget :: recursive_budget
  rra_usage_contract :: recursive_usage_contract

definition RECURSIVE_ROOT_AUTHORITY_VERSION :: string where
  "RECURSIVE_ROOT_AUTHORITY_VERSION = ''recursive_root_authority.v1''"

record serde =
  tree_to_json :: "recursive_tree \<Rightarrow> (string, string) result"
  tree_from_json :: "string \<Rightarrow> (string, recursive_tree) result"
  value_from_json :: "string \<Rightarrow> (string, json) result"
  value_to_json :: "json \<Rightarrow> string"
  authority_from_value :: "json \<Rightarrow> (string, recursive_root_authority) result"
  no_rows_error :: string

definition map_err :: "('e \<Rightarrow> 'f) \<Rightarrow> ('e, 'a) result \<Rightarrow> ('f, 'a) result" where
  "map_err f r = (case r of Inl e \<Rightarrow> Inl (f e) | Inr x \<Rightarrow> Inr x)"

lemma map_err_Ok_iff [simp]: "map_err f r = Ok x \<longleftrightarrow> r = Ok x"
  by (simp add: map_err_def split: sum.splits)

text \<open>\<^verbatim>\<open>as i64\<close> on a \<^verbatim>\<open>u64\<close>.\<close>

definition u64_as_i64 :: "nat \<Rightarrow> int" where
  "u64_as_i64 v = (if v < 2 ^ 63 then int v else int v - 2 ^ 64)"

lemma u64_as_i64_code [code]:
  "u64_as_i64 v = (let i = int v in if i < 9223372036854775808 then i else i - 18446744073709551616)"
  by (simp add: u64_as_i64_def Let_def)

section \<open>The binding of a tree to its workflow run\<close>

definition recursive_root_creation_receipt_sha256 :: "platform \<Rightarrow> serde \<Rightarrow> string \<Rightarrow> string \<Rightarrow> string \<Rightarrow>
    string \<Rightarrow> string \<Rightarrow> string" where
  "recursive_root_creation_receipt_sha256 pf sd plan_creation_receipt_sha256 root_run_id workflow_id
     root_node_id agent_id =
     sha256_hex pf (value_to_json sd (JObject
       [(''agent_id'', JString agent_id), (''kind'', JString ''recursive_root_creation.v1''),
        (''plan_creation_receipt_sha256'', JString plan_creation_receipt_sha256),
        (''root_node_id'', JString root_node_id), (''root_run_id'', JString root_run_id),
        (''workflow_id'', JString workflow_id)]))"

definition json_str :: "json \<Rightarrow> string \<Rightarrow> string option" where
  "json_str j k = Option.bind (json_get j k) as_str"

definition nonempty :: "string option \<Rightarrow> string option" where
  "nonempty v = (case v of Some s \<Rightarrow> if s = [] then None else Some s | None \<Rightarrow> None)"

definition parse_authority :: "serde \<Rightarrow> json \<Rightarrow> (string, recursive_root_authority) result" where
  "parse_authority sd metadata =
     bind_result (ok_or (json_get metadata ''recursive_root_authority'')
       ''recursive root authority binding is missing'')
     (\<lambda>v. map_err (\<lambda>_. ''recursive root authority binding is malformed'') (authority_from_value sd v))"

definition plan_receipt :: "json \<Rightarrow> (string, string) result" where
  "plan_receipt metadata = ok_or (nonempty (json_str metadata ''creation_receipt_sha256''))
     ''recursive root plan creation receipt is missing''"

definition validate_root_authority_binding :: "platform \<Rightarrow> serde \<Rightarrow> json \<Rightarrow> recursive_tree \<Rightarrow> (string, unit) result" where
  "validate_root_authority_binding pf sd metadata t =
     bind_result (ok_or (rt_root_child_budget_limit t) ''recursive root child budget authority is missing'')
     (\<lambda>expected_child_budget. bind_result (parse_authority sd metadata) (\<lambda>authority.
       reject_if (rra_schema_version authority \<noteq> RECURSIVE_ROOT_AUTHORITY_VERSION \<or>
           rra_scope authority \<noteq> rt_root_scope t \<or> rra_capabilities authority \<noteq> rt_root_capabilities t \<or>
           rt_root_budget_limit t \<noteq> Some (rra_tree_budget authority) \<or>
           expected_child_budget \<noteq> rra_child_budget authority)
         ''recursive root authority is not bound to workflow run''
       (bind_result (plan_receipt metadata) (\<lambda>receipt.
         reject_if (rt_root_creation_receipt_sha256 t \<noteq> recursive_root_creation_receipt_sha256 pf sd receipt
             (rt_root_run_id t) (rt_workflow_id t) (rt_root_node_id t) (rt_root_agent_id t))
           ''recursive root creation receipt is not run-bound'' (Ok ())))))"

definition recursive_root_tree_from_metadata :: "platform \<Rightarrow> serde \<Rightarrow> string \<Rightarrow> string \<Rightarrow> string \<Rightarrow> json \<Rightarrow> json \<Rightarrow>
    (string, recursive_tree) result" where
  "recursive_root_tree_from_metadata pf sd root_run_id workflow_id node_id metadata boundaries =
     reject_if (json_str metadata ''recursive_root_node_id'' \<noteq> Some node_id \<or>
         json_str metadata ''task_type'' \<noteq> Some ''agent_step'') ''recursive_node_identity_malformed''
    (bind_result (ok_or (nonempty (json_str metadata ''agent_id'')) ''recursive root agent identity is missing'')
    (\<lambda>agent_id. bind_result (ok_or (nonempty (json_str metadata ''agent_objective''))
       ''recursive root objective is missing'')
    (\<lambda>objective. bind_result (plan_receipt metadata)
    (\<lambda>receipt. bind_result (parse_authority sd metadata)
    (\<lambda>authority.
      reject_if (rra_schema_version authority \<noteq> RECURSIVE_ROOT_AUTHORITY_VERSION \<or>
          rra_capabilities authority = {} \<or>
          scope_capabilities (rra_scope authority) \<noteq> rra_capabilities authority \<or>
          \<not> can_spend (rra_tree_budget authority) (rra_child_budget authority) \<or>
          \<not> is_nonzero (rra_tree_budget authority) \<or> \<not> is_nonzero (rra_child_budget authority))
        ''recursive root authority binding is inconsistent''
      (let t0 = new_with_root_node_id pf root_run_id workflow_id node_id objective (rra_scope authority)
             (rra_capabilities authority) (rra_tree_budget authority);
           t1 = t0\<lparr>rt_root_child_budget_limit := Some (rra_child_budget authority),
             rt_nodes := bt_modify node_id (\<lambda>root. root\<lparr>rn_child_budget := rra_child_budget authority,
               rn_child_budget_limit := rra_child_budget authority\<rparr>) (rt_nodes t0)\<rparr>
       in bind_result (map_err reason_str (bind_root_identity t1 agent_id node_id
            (recursive_root_creation_receipt_sha256 pf sd receipt root_run_id workflow_id node_id agent_id)))
          (\<lambda>t2. (case bind_root_execution_scope t2 (json_str boundaries ''tenant_id'')
              (json_str boundaries ''workspace_id'') of
             (Inl reason, _) \<Rightarrow> Err (reason_str reason)
           | (Inr _, t3) \<Rightarrow> Ok t3))))))))"

definition normalize_loaded_tree :: "recursive_tree \<Rightarrow> recursive_tree" where
  "normalize_loaded_tree t = (if rt_root_budget_limit t = None
     then t\<lparr>rt_root_budget_limit := Some (rt_root_budget t)\<rparr> else t)"

definition check_expected :: "product_db \<Rightarrow> string \<Rightarrow> nat \<Rightarrow> (string, unit) result" where
  "check_expected db root_run_id expected_version =
     (let current = map_option tw_version (hm_get (recursive_execution_trees db) root_run_id);
          matches = (if expected_version = 0 then current = None
                     else current = Some (u64_as_i64 expected_version))
      in if matches then Ok () else Err ''stale_parent'')"

definition check_workflow_binding :: "platform \<Rightarrow> serde \<Rightarrow> product_db \<Rightarrow> recursive_tree \<Rightarrow> (string, unit) result" where
  "check_workflow_binding pf sd db t =
     bind_result (ok_or (hm_get (workflow_runs db) (rt_root_run_id t)) ''recursive workflow run binding is missing'')
     (\<lambda>run. reject_if (ru_workflow_id run \<noteq> rt_workflow_id t)
         ''recursive workflow identity is not bound to workflow run''
     (bind_result (map_err (\<lambda>_. ''recursive workflow boundaries are malformed'')
         (value_from_json sd (ru_boundaries_json run)))
     (\<lambda>boundaries. reject_if (json_str boundaries ''tenant_id'' \<noteq> rt_root_tenant_id t \<or>
           json_str boundaries ''workspace_id'' \<noteq> rt_root_workspace_id t)
         ''recursive tenant or workspace identity is not bound to workflow run''
     (bind_result (case hm_get (workflow_run_nodes db) (rt_root_run_id t, rt_root_node_id t) of
           Some row \<Rightarrow> if rr_task_type row = ''agent_step'' then Ok row else Err (no_rows_error sd)
         | None \<Rightarrow> Err (no_rows_error sd))
     (\<lambda>row. bind_result (map_err (\<lambda>_. ''recursive root node identity is malformed'')
         (value_from_json sd (rr_node_json row)))
     (\<lambda>metadata. reject_if (json_str metadata ''agent_id'' \<noteq> Some (rt_root_agent_id t) \<or>
           json_str metadata ''recursive_root_node_id'' \<noteq> Some (rt_root_recursive_marker t))
         ''recursive root node identity is not bound to workflow run''
         (validate_root_authority_binding pf sd metadata t)))))))"

section \<open>Writing and reading a tree\<close>

definition index_row_of :: "(string \<times> string, index_row) hash_map \<Rightarrow> recursive_tree \<Rightarrow> string \<Rightarrow> recursive_node \<Rightarrow> index_row" where
  "index_row_of rows t now node =
     \<lparr>ix_parent_node_id = rn_parent_node_id node, ix_proposal_id = rn_proposal_id node,
      ix_depth = int (rn_depth node), ix_objective_fingerprint = rn_objective_fingerprint node,
      ix_status = status_str (rn_status node), ix_version = u64_as_i64 (rn_version node),
      ix_created_at = (case hm_get rows (rt_root_run_id t, rn_node_id node) of
         None \<Rightarrow> now | Some row \<Rightarrow> ix_created_at row),
      ix_updated_at = now\<rparr>"

definition index_nodes :: "recursive_tree \<Rightarrow> string \<Rightarrow> (string \<times> string, index_row) hash_map \<Rightarrow>
    (string \<times> string, index_row) hash_map" where
  "index_nodes t now rows = foldl (\<lambda>rows node.
     hm_put (rt_root_run_id t, rn_node_id node) (index_row_of rows t now node) rows) rows (bt_values (rt_nodes t))"

definition tree_row_of :: "product_db \<Rightarrow> recursive_tree \<Rightarrow> string \<Rightarrow> string \<Rightarrow> tree_row" where
  "tree_row_of db t tree_json now =
     \<lparr>tw_workflow_id = rt_workflow_id t, tw_root_node_id = rt_root_node_id t,
      tw_tree_schema_version = rt_schema_version t, tw_tree_json = tree_json,
      tw_version = u64_as_i64 (rt_version t),
      tw_created_at = (case hm_get (recursive_execution_trees db) (rt_root_run_id t) of
         None \<Rightarrow> now | Some row \<Rightarrow> tw_created_at row),
      tw_updated_at = now\<rparr>"

definition persist_recursive_tree_inner :: "platform \<Rightarrow> serde \<Rightarrow> product_db \<Rightarrow> recursive_tree \<Rightarrow> string \<Rightarrow>
    nat option \<Rightarrow> bool \<Rightarrow> (string, product_db) result" where
  "persist_recursive_tree_inner pf sd db t now expected_version require_workflow_binding =
     bind_result (validate_tree_for_persistence pf (tree_to_json sd) t) (\<lambda>tree_json.
     bind_result (case expected_version of None \<Rightarrow> Ok () | Some v \<Rightarrow> check_expected db (rt_root_run_id t) v) (\<lambda>_.
     bind_result (if require_workflow_binding then check_workflow_binding pf sd db t else Ok ()) (\<lambda>_.
     Ok (db\<lparr>recursive_execution_trees := hm_put (rt_root_run_id t) (tree_row_of db t tree_json now)
              (recursive_execution_trees db),
            recursive_execution_nodes := index_nodes t now (recursive_execution_nodes db)\<rparr>))))"

definition persist_recursive_tree :: "platform \<Rightarrow> serde \<Rightarrow> product_db \<Rightarrow> recursive_tree \<Rightarrow> string \<Rightarrow>
    nat option \<Rightarrow> (string, product_db) result" where
  "persist_recursive_tree pf sd db t now expected_version =
     persist_recursive_tree_inner pf sd db t now expected_version True"

definition persist_recursive_tree_control_state :: "platform \<Rightarrow> serde \<Rightarrow> product_db \<Rightarrow> recursive_tree \<Rightarrow> string \<Rightarrow>
    nat option \<Rightarrow> (string, product_db) result" where
  "persist_recursive_tree_control_state pf sd db t now expected_version =
     persist_recursive_tree_inner pf sd db t now expected_version False"

definition load_recursive_tree :: "platform \<Rightarrow> serde \<Rightarrow> product_db \<Rightarrow> string \<Rightarrow> (string, recursive_tree option) result" where
  "load_recursive_tree pf sd db root_run_id =
     (case hm_get (recursive_execution_trees db) root_run_id of
        None \<Rightarrow> Ok None
      | Some row \<Rightarrow>
          bind_result (tree_from_json sd (tw_tree_json row)) (\<lambda>t0.
            reject_if (rt_root_run_id t0 \<noteq> root_run_id \<or> rt_workflow_id t0 \<noteq> tw_workflow_id row \<or>
                rt_root_node_id t0 \<noteq> tw_root_node_id row \<or> rt_schema_version t0 \<noteq> tw_tree_schema_version row \<or>
                rt_schema_version t0 \<noteq> RECURSIVE_SCHEMA_VERSION)
              ''recursive tree identity or schema conflict''
           (let t = normalize_loaded_tree t0
            in bind_result (check_workflow_binding pf sd db t) (\<lambda>_.
               bind_result (validate_tree_for_persistence pf (tree_to_json sd) t) (\<lambda>_. Ok (Some t))))))"

definition require_tree :: "platform \<Rightarrow> serde \<Rightarrow> product_db \<Rightarrow> string \<Rightarrow> (string, recursive_tree) result" where
  "require_tree pf sd db root_run_id =
     bind_result (load_recursive_tree pf sd db root_run_id) (\<lambda>loaded. ok_or loaded ''recursive_tree_missing'')"

definition ensure_recursive_root_tree :: "platform \<Rightarrow> serde \<Rightarrow> product_db \<Rightarrow> string \<Rightarrow> string \<Rightarrow> string \<Rightarrow> json \<Rightarrow>
    string \<Rightarrow> (string, product_db) result" where
  "ensure_recursive_root_tree pf sd db root_run_id workflow_id node_id metadata now =
     bind_result (load_recursive_tree pf sd db root_run_id) (\<lambda>loaded.
     case loaded of
       Some t \<Rightarrow> if rt_root_node_id t = node_id then Ok db else Err ''recursive root conflicts with persisted tree''
     | None \<Rightarrow>
         bind_result (ok_or (hm_get (workflow_runs db) root_run_id) (no_rows_error sd)) (\<lambda>run.
         bind_result (map_err (\<lambda>_. ''recursive workflow boundaries are malformed'')
           (value_from_json sd (ru_boundaries_json run))) (\<lambda>boundaries.
         bind_result (recursive_root_tree_from_metadata pf sd root_run_id workflow_id node_id metadata boundaries)
           (\<lambda>t. persist_recursive_tree pf sd db t now (Some 0)))))"

section \<open>Terminal nodes of the workflow\<close>

definition ends_workflow_node :: "recursive_node \<Rightarrow> bool" where
  "ends_workflow_node node \<longleftrightarrow> rn_parent_node_id node \<noteq> None \<and> rn_status node = NodeFailed \<and>
     rn_failure_reason node \<in> {Some TreeBudgetExhausted, Some ReasonTerminalFailed, Some RecursiveUsageUnavailable}"

definition sync_terminal_workflow_node :: "serde \<Rightarrow> recursive_tree \<Rightarrow> string \<Rightarrow> recursive_node \<Rightarrow> product_db \<Rightarrow>
    (string, product_db) result" where
  "sync_terminal_workflow_node sd t now node db =
     (case hm_get (workflow_run_nodes db) (rt_root_run_id t, rn_node_id node) of
        None \<Rightarrow> Ok db
      | Some row \<Rightarrow>
          if rr_status row \<noteq> ''pending'' \<and> rr_status row \<noteq> ''running'' then Ok db
          else bind_result (map_err (\<lambda>_. ''recursive workflow node binding is malformed'')
                 (value_from_json sd (rr_node_json row))) (\<lambda>node_json.
            reject_if (json_str node_json ''recursive_node_id'' \<noteq> Some (rn_node_id node))
              ''recursive workflow node binding is missing''
           (let node_json' = (case node_json of
                  JObject m \<Rightarrow> JObject (bt_put ''completed_at'' (JString now) (bt_put ''status'' (JString ''failed'') m))
                | other \<Rightarrow> other)
            in Ok (db\<lparr>workflow_run_nodes := hm_put (rt_root_run_id t, rn_node_id node)
                 (row\<lparr>rr_status := ''failed'', rr_completed_at := Some now, rr_leased_at := None,
                      rr_blocked_reason := map_option reason_str (rn_failure_reason node),
                      rr_node_json := value_to_json sd node_json'\<rparr>) (workflow_run_nodes db)\<rparr>))))"

fun sync_nodes :: "serde \<Rightarrow> recursive_tree \<Rightarrow> string \<Rightarrow> recursive_node list \<Rightarrow> product_db \<Rightarrow>
    (string, product_db) result" where
  "sync_nodes sd t now [] db = Ok db"
| "sync_nodes sd t now (node # nodes) db =
     bind_result (sync_terminal_workflow_node sd t now node db) (sync_nodes sd t now nodes)"

definition sync_terminal_workflow_nodes :: "serde \<Rightarrow> recursive_tree \<Rightarrow> string \<Rightarrow> product_db \<Rightarrow>
    (string, product_db) result" where
  "sync_terminal_workflow_nodes sd t now db =
     sync_nodes sd t now (filter ends_workflow_node (bt_values (rt_nodes t))) db"

text \<open>The end every function below shares: settle the workflow nodes, then write the tree.\<close>

definition sync_and_persist :: "platform \<Rightarrow> serde \<Rightarrow> product_db \<Rightarrow> recursive_tree \<Rightarrow> string \<Rightarrow> nat \<Rightarrow>
    (string, product_db) result" where
  "sync_and_persist pf sd db t now expected_version =
     bind_result (sync_terminal_workflow_nodes sd t now db) (\<lambda>db'.
     persist_recursive_tree pf sd db' t now (Some expected_version))"

section \<open>Scheduler callbacks\<close>

definition sync_recursive_lease :: "platform \<Rightarrow> serde \<Rightarrow> product_db \<Rightarrow> string \<Rightarrow> string \<Rightarrow> string \<Rightarrow> string \<Rightarrow>
    (string, product_db) result" where
  "sync_recursive_lease pf sd db root_run_id recursive_node_id lease_id now =
     bind_result (require_tree pf sd db root_run_id) (\<lambda>t.
     reject_if (bt_get (rt_nodes t) recursive_node_id = None) ''recursive_node_missing''
    (bind_result (map_err reason_str (lease_node pf t recursive_node_id lease_id)) (\<lambda>t'.
     persist_recursive_tree pf sd db t' now (Some (rt_version t)))))"

definition recursive_retry_allowed :: "platform \<Rightarrow> serde \<Rightarrow> product_db \<Rightarrow> string \<Rightarrow> string \<Rightarrow> recursive_budget \<Rightarrow>
    (string, bool) result" where
  "recursive_retry_allowed pf sd db root_run_id recursive_node_id usage =
     bind_result (require_tree pf sd db root_run_id) (\<lambda>t.
     reject_if (bt_get (rt_nodes t) recursive_node_id = None) ''recursive_node_missing''
     (map_err reason_str (retry_allowed pf t recursive_node_id usage)))"

definition stale_recovery_tree :: "recursive_tree \<Rightarrow> string \<Rightarrow> string \<Rightarrow> bool \<Rightarrow>
    (string, string \<times> recursive_tree) result" where
  "stale_recovery_tree t recursive_node_id lease_id retry =
     bind_result (map_err reason_str (recover_stale_lease t recursive_node_id lease_id retry)) (\<lambda>(status, t1).
     Ok (status, if retry then t1
       else finalize_terminal_tree (release_node_reservation_for_persistence t1 recursive_node_id)
              (Some recursive_node_id)))"

definition sync_recursive_stale_recovery :: "platform \<Rightarrow> serde \<Rightarrow> product_db \<Rightarrow> string \<Rightarrow> string \<Rightarrow> string \<Rightarrow> bool \<Rightarrow>
    string \<Rightarrow> (string, string \<times> product_db) result" where
  "sync_recursive_stale_recovery pf sd db root_run_id recursive_node_id lease_id retry now =
     bind_result (require_tree pf sd db root_run_id) (\<lambda>t.
     bind_result (stale_recovery_tree t recursive_node_id lease_id retry) (\<lambda>(status, t').
     bind_result (sync_and_persist pf sd db t' now (rt_version t)) (\<lambda>db'. Ok (status, db'))))"

definition completion_tree :: "platform \<Rightarrow> recursive_tree \<Rightarrow> string \<Rightarrow> string \<Rightarrow> string \<Rightarrow> bool \<Rightarrow> bool \<Rightarrow>
    recursive_budget \<Rightarrow> (string, recursive_tree) result" where
  "completion_tree pf t recursive_node_id lease_id usage_receipt_id success retry usage =
     reject_if (bt_get (rt_nodes t) recursive_node_id = None) ''recursive_node_missing''
    (bind_result (if retry then map_err reason_str (retry_allowed pf t recursive_node_id usage) else Ok False)
    (\<lambda>retry_allowed. bind_result (map_err reason_str (complete_node_with_usage_receipt pf t recursive_node_id
         lease_id usage_receipt_id success usage))
    (\<lambda>t1. if retry_allowed then map_err reason_str (retry_node t1 recursive_node_id)
      else
        let t2 = release_node_reservation_for_persistence t1 recursive_node_id;
            failed = (case bt_get (rt_nodes t2) recursive_node_id of
              None \<Rightarrow> False | Some node \<Rightarrow> rn_status node = NodeFailed)
        in Ok (finalize_terminal_tree t2 (if failed then Some recursive_node_id else None)))))"

definition sync_recursive_completion_with_receipt :: "platform \<Rightarrow> serde \<Rightarrow> product_db \<Rightarrow> string \<Rightarrow> string \<Rightarrow>
    string \<Rightarrow> string \<Rightarrow> bool \<Rightarrow> bool \<Rightarrow> recursive_budget \<Rightarrow> string \<Rightarrow> (string, string \<times> product_db) result" where
  "sync_recursive_completion_with_receipt pf sd db root_run_id recursive_node_id lease_id usage_receipt_id
     success retry usage now =
     bind_result (require_tree pf sd db root_run_id) (\<lambda>t.
     bind_result (completion_tree pf t recursive_node_id lease_id usage_receipt_id success retry usage) (\<lambda>t'.
     bind_result (sync_terminal_workflow_nodes sd t' now db) (\<lambda>db1.
     bind_result (ok_or (bt_get (rt_nodes t') recursive_node_id) ''recursive_node_missing'') (\<lambda>node.
     bind_result (persist_recursive_tree pf sd db1 t' now (Some (rt_version t))) (\<lambda>db'.
     Ok (status_str (rn_status node), db'))))))"

definition sync_recursive_completion :: "platform \<Rightarrow> serde \<Rightarrow> product_db \<Rightarrow> string \<Rightarrow> string \<Rightarrow> string \<Rightarrow> bool \<Rightarrow>
    bool \<Rightarrow> recursive_budget \<Rightarrow> string \<Rightarrow> (string, string \<times> product_db) result" where
  "sync_recursive_completion pf sd db root_run_id recursive_node_id lease_id success retry usage now =
     sync_recursive_completion_with_receipt pf sd db root_run_id recursive_node_id lease_id lease_id
       success retry usage now"

definition root_completion_tree :: "platform \<Rightarrow> recursive_tree \<Rightarrow> string \<Rightarrow> string \<Rightarrow> bool \<Rightarrow> recursive_budget \<Rightarrow>
    (string, recursive_tree) result" where
  "root_completion_tree pf t lease_id usage_receipt_id success usage =
     bind_result (map_err reason_str (complete_root_with_usage_receipt pf t lease_id usage_receipt_id success usage))
       (\<lambda>t1. Ok (finalize_terminal_tree t1 None))"

text \<open>The status of the root is read by indexing, which panics on a missing root; the loaded tree has one.\<close>

definition sync_recursive_root_completion_with_receipt :: "platform \<Rightarrow> serde \<Rightarrow> product_db \<Rightarrow> string \<Rightarrow> string \<Rightarrow>
    string \<Rightarrow> bool \<Rightarrow> recursive_budget \<Rightarrow> string \<Rightarrow> (string, string \<times> product_db) result" where
  "sync_recursive_root_completion_with_receipt pf sd db root_run_id lease_id usage_receipt_id success usage now =
     bind_result (require_tree pf sd db root_run_id) (\<lambda>t.
     bind_result (root_completion_tree pf t lease_id usage_receipt_id success usage) (\<lambda>t'.
     bind_result (sync_terminal_workflow_nodes sd t' now db) (\<lambda>db1.
     bind_result (ok_or (bt_get (rt_nodes t') (rt_root_node_id t')) ''panic'') (\<lambda>root.
     bind_result (persist_recursive_tree pf sd db1 t' now (Some (rt_version t))) (\<lambda>db'.
     Ok (status_str (rn_status root), db'))))))"

definition sync_recursive_root_completion :: "platform \<Rightarrow> serde \<Rightarrow> product_db \<Rightarrow> string \<Rightarrow> string \<Rightarrow> bool \<Rightarrow>
    recursive_budget \<Rightarrow> string \<Rightarrow> (string, string \<times> product_db) result" where
  "sync_recursive_root_completion pf sd db root_run_id lease_id success usage now =
     sync_recursive_root_completion_with_receipt pf sd db root_run_id lease_id lease_id success usage now"

definition record_recursive_late_usage :: "platform \<Rightarrow> serde \<Rightarrow> product_db \<Rightarrow> string \<Rightarrow> string \<Rightarrow> string \<Rightarrow>
    recursive_budget \<Rightarrow> string \<Rightarrow> (string, bool \<times> product_db) result" where
  "record_recursive_late_usage pf sd db root_run_id recursive_node_id attempt_receipt usage now =
     bind_result (require_tree pf sd db root_run_id) (\<lambda>t.
     reject_if (bt_get (rt_nodes t) recursive_node_id = None) ''recursive_node_missing''
    (bind_result (map_err reason_str (record_late_usage pf t recursive_node_id attempt_receipt usage))
    (\<lambda>(within_tree_budget, t').
     bind_result (sync_and_persist pf sd db t' now (rt_version t)) (\<lambda>db'. Ok (within_tree_budget, db')))))"

definition record_recursive_root_late_usage :: "platform \<Rightarrow> serde \<Rightarrow> product_db \<Rightarrow> string \<Rightarrow> string \<Rightarrow>
    recursive_budget \<Rightarrow> string \<Rightarrow> (string, bool \<times> product_db) result" where
  "record_recursive_root_late_usage pf sd db root_run_id attempt_receipt usage now =
     bind_result (require_tree pf sd db root_run_id) (\<lambda>t.
     bind_result (map_err reason_str (record_root_late_usage pf t attempt_receipt usage))
    (\<lambda>(within_tree_budget, t').
     bind_result (sync_and_persist pf sd db t' now (rt_version t)) (\<lambda>db'. Ok (within_tree_budget, db'))))"

text \<open>Marking a node terminally failed after it was settled, and stopping the rest of the tree.\<close>

definition terminal_failure_tree :: "recursive_tree \<Rightarrow> string \<Rightarrow> recursive_failure_reason \<Rightarrow>
    (string, recursive_tree) result" where
  "terminal_failure_tree t node_id reason =
     (if bt_get (rt_nodes t) node_id = None then Err (reason_str RecursiveNodeMissing)
      else
        let t1 = t\<lparr>rt_nodes := bt_modify node_id (\<lambda>n. n\<lparr>rn_failure_reason := Some reason,
                     rn_status := NodeFailed, rn_version := inc_u64 (rn_version n)\<rparr>) (rt_nodes t),
                   rt_execution_state := TerminalFailed\<rparr>;
            t2 = terminalize_remaining_nodes t1 (Some node_id) ReasonTerminalFailed
        in Ok (t2\<lparr>rt_version := inc_u64 (rt_version t2)\<rparr>))"

definition sync_recursive_terminal_failure :: "platform \<Rightarrow> serde \<Rightarrow> product_db \<Rightarrow> string \<Rightarrow> string \<Rightarrow> string \<Rightarrow>
    recursive_failure_reason \<Rightarrow> string \<Rightarrow> (string, string \<times> product_db) result" where
  "sync_recursive_terminal_failure pf sd db root_run_id recursive_node_id lease_id reason now =
     bind_result (sync_recursive_completion pf sd db root_run_id recursive_node_id lease_id False False
       zero_budget now) (\<lambda>(_, db1).
     bind_result (require_tree pf sd db1 root_run_id) (\<lambda>t.
     bind_result (terminal_failure_tree t recursive_node_id reason) (\<lambda>t'.
     bind_result (sync_and_persist pf sd db1 t' now (rt_version t)) (\<lambda>db'. Ok (''failed'', db')))))"

text \<open>The path for a root whose workflow metadata cannot be trusted: no binding check, no validation on load.\<close>

definition corrupt_root_tree :: "recursive_tree \<Rightarrow> recursive_failure_reason \<Rightarrow> (string, recursive_tree) result" where
  "corrupt_root_tree t0 reason =
     (let t = normalize_loaded_tree t0
      in case bt_get (rt_nodes t) (rt_root_node_id t) of
           None \<Rightarrow> Err ''recursive_node_missing''
         | Some _ \<Rightarrow>
             let t1 = (fail_node reason t (rt_root_node_id t))\<lparr>rt_execution_state := TerminalFailed\<rparr>;
                 t2 = terminalize_remaining_nodes t1 (Some (rt_root_node_id t)) ReasonTerminalFailed
             in Ok (t2\<lparr>rt_version := inc_u64 (rt_version t2)\<rparr>))"

definition reindex_nodes :: "recursive_tree \<Rightarrow> string \<Rightarrow> string \<Rightarrow> (string \<times> string, index_row) hash_map \<Rightarrow>
    (string \<times> string, index_row) hash_map" where
  "reindex_nodes t root_run_id now rows = foldl (\<lambda>rows node.
     hm_modify (root_run_id, rn_node_id node) (\<lambda>row. row\<lparr>ix_status := status_str (rn_status node),
       ix_version := u64_as_i64 (rn_version node), ix_updated_at := now\<rparr>) rows) rows (bt_values (rt_nodes t))"

definition sync_corrupt_recursive_root_terminal_failure :: "platform \<Rightarrow> serde \<Rightarrow> product_db \<Rightarrow> string \<Rightarrow>
    recursive_failure_reason \<Rightarrow> string \<Rightarrow> (string, string \<times> product_db) result" where
  "sync_corrupt_recursive_root_terminal_failure pf sd db root_run_id reason now =
     bind_result (ok_or (hm_get (recursive_execution_trees db) root_run_id) (no_rows_error sd)) (\<lambda>row.
     bind_result (tree_from_json sd (tw_tree_json row)) (\<lambda>t0.
     bind_result (corrupt_root_tree t0 reason) (\<lambda>t.
     bind_result (sync_terminal_workflow_nodes sd t now db) (\<lambda>db1.
     bind_result (validate_tree_for_persistence pf (tree_to_json sd) t) (\<lambda>canonical.
     Ok (''failed'', db1\<lparr>recursive_execution_trees := hm_put root_run_id
           (row\<lparr>tw_tree_json := canonical, tw_version := u64_as_i64 (rt_version t), tw_updated_at := now\<rparr>)
           (recursive_execution_trees db1),
         recursive_execution_nodes := reindex_nodes t root_run_id now (recursive_execution_nodes db1)\<rparr>))))))"

definition sync_recursive_root_terminal_failure :: "platform \<Rightarrow> serde \<Rightarrow> product_db \<Rightarrow> string \<Rightarrow> string \<Rightarrow>
    recursive_failure_reason \<Rightarrow> string \<Rightarrow> (string, string \<times> product_db) result" where
  "sync_recursive_root_terminal_failure pf sd db root_run_id receipt_id reason now =
     (if reason = RecursiveNodeIdentityMalformed
      then sync_corrupt_recursive_root_terminal_failure pf sd db root_run_id reason now
      else
        bind_result (sync_recursive_root_completion pf sd db root_run_id receipt_id False zero_budget now)
        (\<lambda>(_, db1). bind_result (require_tree pf sd db1 root_run_id) (\<lambda>t.
        bind_result (terminal_failure_tree t (rt_root_node_id t) reason) (\<lambda>t'.
        bind_result (sync_and_persist pf sd db1 t' now (rt_version t)) (\<lambda>db'. Ok (''failed'', db'))))))"

section \<open>Operator control\<close>

definition effective_state :: "bool \<Rightarrow> string option \<Rightarrow> recursive_tree \<Rightarrow> recursive_execution_state" where
  "effective_state paused terminal_reason t =
     (if rt_execution_state t = BudgetExhausted \<or>
         list_ex (\<lambda>node. rn_failure_reason node = Some TreeBudgetExhausted) (bt_values (rt_nodes t))
      then BudgetExhausted
      else if rt_execution_state t \<in> {Completed, KillStopped, TerminalFailed} then rt_execution_state t
      else if paused \<and> terminal_reason = Some (reason_str RecursiveKillSwitchActive) then KillStopped
      else if paused then OperatorPaused
      else if rt_execution_state t = OperatorPaused then Running
      else rt_execution_state t)"

fun terminal_node_reason :: "recursive_execution_state \<Rightarrow> recursive_failure_reason" where
  "terminal_node_reason KillStopped = RecursiveKillSwitchActive"
| "terminal_node_reason BudgetExhausted = TreeBudgetExhausted"
| "terminal_node_reason TerminalFailed = ReasonTerminalFailed"
| "terminal_node_reason _ = ReasonOperatorPaused"

definition control_terminates :: "recursive_node \<Rightarrow> bool" where
  "control_terminates node \<longleftrightarrow> (rn_parent_node_id node \<noteq> None \<or> rn_lease_id node \<noteq> None) \<and> is_live node"

text \<open>The loop over \<^verbatim>\<open>values_mut\<close>: the nodes it fails, their identifiers, and the leases it drops.\<close>

definition terminate_live :: "recursive_failure_reason \<Rightarrow> recursive_tree \<Rightarrow> string list \<times> recursive_tree" where
  "terminate_live reason t =
     (let hit = filter control_terminates (bt_values (rt_nodes t))
      in (map rn_node_id hit,
          t\<lparr>rt_active_leases := rt_active_leases t - set (List.map_filter rn_lease_id hit),
            rt_nodes := map (\<lambda>(k, n). (k, if control_terminates n
              then n\<lparr>rn_lease_id := None, rn_status := NodeFailed, rn_failure_reason := Some reason,
                     rn_version := inc_u64 (rn_version n)\<rparr> else n)) (rt_nodes t)\<rparr>))"

definition control_tree :: "bool \<Rightarrow> string option \<Rightarrow> recursive_tree \<Rightarrow> string list \<times> recursive_tree" where
  "control_tree paused terminal_reason t =
     (let state = effective_state paused terminal_reason t;
          t1 = (if rt_execution_state t \<noteq> state
                then t\<lparr>rt_execution_state := state, rt_version := inc_u64 (rt_version t)\<rparr> else t)
      in if state \<in> {KillStopped, BudgetExhausted, TerminalFailed}
         then
           let (terminated, t2) = terminate_live (terminal_node_reason state) t1
           in (terminated,
               if terminated \<noteq> []
               then foldl release_node_reservation_for_persistence (t2\<lparr>rt_version := inc_u64 (rt_version t2)\<rparr>) terminated
               else t2)
         else ([], t1))"

section \<open>Consistency of what is stored\<close>

lemma rejected_kept [simp]:
  "rt_rejected_proposals (finalize_terminal_tree t i) = rt_rejected_proposals t"
  by (simp add: finalize_terminal_tree_def settle_tree_def cascade_failure_def Let_def split: option.split)

lemma record_usage_rejected:
  "record_usage_internal pf t r u c = Ok (b, t1) \<Longrightarrow> rt_rejected_proposals t1 = rt_rejected_proposals t"
  by (auto simp: record_usage_internal_def Let_def bind_result_Ok_iff split: option.splits if_splits)

lemma complete_rejected:
  "complete_node_with_usage_receipt pf t k l r s u = Ok t' \<Longrightarrow> rt_rejected_proposals t' = rt_rejected_proposals t"
  by (auto simp: complete_node_with_usage_receipt_def Let_def bind_result_Ok_iff record_usage_def
      split: option.splits if_splits dest!: record_usage_rejected)

lemma complete_root_rejected:
  "complete_root_with_usage_receipt pf t l r s u = Ok t' \<Longrightarrow> rt_rejected_proposals t' = rt_rejected_proposals t"
  by (auto simp: complete_root_with_usage_receipt_def root_replay_def Let_def bind_result_Ok_iff
      record_unreserved_usage_def split: option.splits if_splits dest!: record_usage_rejected)

lemma late_overrun_rejected [simp]: "rt_rejected_proposals (late_overrun t k r f) = rt_rejected_proposals t"
  by (simp add: late_overrun_def Let_def)

lemma late_rejected:
  "record_late_usage pf t k r u = Ok (b, t') \<Longrightarrow> rt_rejected_proposals t' = rt_rejected_proposals t"
  by (auto simp: record_late_usage_def Let_def bind_result_Ok_iff record_usage_def
      split: option.splits if_splits dest!: record_usage_rejected)

lemma root_late_rejected:
  "record_root_late_usage pf t r u = Ok (b, t') \<Longrightarrow> rt_rejected_proposals t' = rt_rejected_proposals t"
  by (auto simp: record_root_late_usage_def Let_def bind_result_Ok_iff record_unreserved_usage_def
      split: option.splits if_splits dest!: record_usage_rejected)

lemma retry_rejected: "retry_node t k = Ok t' \<Longrightarrow> rt_rejected_proposals t' = rt_rejected_proposals t"
  by (auto simp: retry_node_def split: option.splits)

lemma stale_rejected:
  "recover_stale_lease t k l b = Ok (s, t') \<Longrightarrow> rt_rejected_proposals t' = rt_rejected_proposals t"
  by (auto simp: recover_stale_lease_def Let_def split: option.splits if_splits)

lemma lease_rejected: "lease_node pf t k l = Ok t' \<Longrightarrow> rt_rejected_proposals t' = rt_rejected_proposals t"
  by (auto simp: lease_node_def bind_result_Ok_iff split: option.splits if_splits)

lemma consistent_lease:
  assumes "consistent pf t" "lease_node pf t k l = Ok t'" "l \<notin> rt_active_leases t"
  shows "consistent pf t'"
  using consistent_step [OF assms(1) lease_skeleton [OF assms(2)] lease_rejected [OF assms(2)]]
    accounting_lease [OF assms(2)] leasing_lease [OF assms(2) _ assms(3)] consistentD [OF assms(1)] by simp

text \<open>A release of a terminal node, and a finalisation, keep a tree consistent but for that node.\<close>

lemma shape_after: "skeleton t' = skeleton t \<Longrightarrow> tree_shape t \<Longrightarrow> tree_shape t'"
  by (rule tree_shape_cong [OF sym])

lemma consistent_completion:
  assumes con: "consistent pf t" and comp: "completion_tree pf t k l r s retry u = Ok t'"
    and k: "k \<noteq> rt_root_node_id t"
    and fits: "\<And>n. bt_get (rt_usage_receipts t) r = None \<Longrightarrow> bt_get (rt_nodes t) k = Some n \<Longrightarrow>
      can_spend (rn_budget n) u"
  shows "consistent pf t'"
proof -
  note c = consistentD [OF con]
  obtain n where n: "bt_get (rt_nodes t) k = Some n" using comp by (auto simp: completion_tree_def)
  obtain allowed t1 where allowed: "(if retry then map_err reason_str (retry_allowed pf t k u) else Ok False) = Ok allowed"
    and t1: "complete_node_with_usage_receipt pf t k l r s u = Ok t1"
    and rest: "(if allowed then map_err reason_str (retry_node t1 k)
      else let t2 = release_node_reservation_for_persistence t1 k;
            failed = (case bt_get (rt_nodes t2) k of None \<Rightarrow> False | Some node \<Rightarrow> rn_status node = NodeFailed)
        in Ok (finalize_terminal_tree t2 (if failed then Some k else None))) = Ok t'"
    using comp by (auto simp: completion_tree_def bind_result_Ok_iff)
  have sound: "accounting {k} t1" "leasing t1"
    using complete_node_sound [OF t1 c(2,3,6) k fits] by simp_all
  obtain n1 where n1: "bt_get (rt_nodes t1) k = Some n1" "\<not> is_live n1" "rn_lease_id n1 = None"
    "rn_retry_count n1 = rn_retry_count n" "rt_root_node_id t1 = rt_root_node_id t"
    using complete_node_result [OF t1 n] .
  note sk = complete_skeleton [OF t1] and rej = complete_rejected [OF t1]
  show ?thesis
  proof (cases allowed)
    case True
    then have t': "retry_node t1 k = Ok t'" using rest by simp
    have "rn_retry_count n < MAX_RECURSIVE_RETRIES"
      using True allowed n by (auto simp: retry_allowed_def Let_def split: if_splits)
    then have "accounting {} t' \<and> leasing t'" using retry_sound [OF t' sound n1(1,3)] n1(4) by simp
    then show ?thesis
      using consistent_step [OF con] retry_skeleton [OF t'] retry_rejected [OF t'] sk rej by simp
  next
    case False
    define t2 where "t2 = release_node_reservation_for_persistence t1 k"
    obtain i where t': "t' = finalize_terminal_tree t2 i" using rest False by (auto simp: Let_def t2_def)
    have shape1: "tree_shape t1" using shape_after [OF sk c(6)] .
    have "accounting ({k} - {k}) t2"
      unfolding t2_def by (rule accounting_release [OF sound(1) shape1 n1(1,2)]) (simp add: n1(5) k)
    moreover have "tree_shape t2" by (rule shape_after [OF _ shape1]) (simp add: t2_def)
    ultimately have "accounting {} t'" "leasing t'"
      unfolding t' using accounting_finalize leasing_finalize leasing_release [OF sound(2)] by (simp_all add: t2_def)
    then show ?thesis using consistent_step [OF con] sk rej by (simp add: t' t2_def)
  qed
qed

lemma consistent_stale:
  assumes con: "consistent pf t" and rec: "stale_recovery_tree t k l retry = Ok (st, t')"
    and k: "k \<noteq> rt_root_node_id t"
    and retries: "\<And>n. retry \<Longrightarrow> bt_get (rt_nodes t) k = Some n \<Longrightarrow> rn_retry_count n < MAX_RECURSIVE_RETRIES"
  shows "consistent pf t'"
proof -
  note c = consistentD [OF con]
  obtain t1 where t1: "recover_stale_lease t k l retry = Ok (st, t1)"
    and t': "t' = (if retry then t1
       else finalize_terminal_tree (release_node_reservation_for_persistence t1 k) (Some k))"
    using rec by (auto simp: stale_recovery_tree_def bind_result_Ok_iff)
  obtain n where n: "bt_get (rt_nodes t) k = Some n"
    using t1 by (auto simp: recover_stale_lease_def split: option.splits)
  note sound = stale_sound [OF t1 c(2,3) n] and sk = stale_skeleton [OF t1] and rej = stale_rejected [OF t1]
  show ?thesis
  proof (cases retry)
    case True
    then show ?thesis
      using consistent_step [OF con sk rej] sound(1,2) retries [OF True n] by (simp add: t')
  next
    case False
    define t2 where "t2 = release_node_reservation_for_persistence t1 k"
    have shape1: "tree_shape t1" using shape_after [OF sk c(6)] .
    obtain m where m: "accounting {k} t1" "bt_get (rt_nodes t1) k = Some m" "\<not> is_live m" using sound(3) [OF False] by blast
    have "accounting ({k} - {k}) t2"
      unfolding t2_def by (rule accounting_release [OF m(1) shape1 m(2,3)]) (simp add: k skeleton_eqD(1) [OF sk])
    moreover have "tree_shape t2" by (rule shape_after [OF _ shape1]) (simp add: t2_def)
    ultimately have "accounting {} t'" "leasing t'"
      using False accounting_finalize leasing_finalize leasing_release [OF sound(1)] by (simp_all add: t' t2_def)
    then show ?thesis using consistent_step [OF con] sk rej False by (simp add: t')
  qed
qed

lemma consistent_root_completion:
  assumes con: "consistent pf t" and comp: "root_completion_tree pf t l r s u = Ok t'"
    and fits: "bt_get (rt_usage_receipts t) r = None \<Longrightarrow> can_spend (rt_root_budget t) u"
  shows "consistent pf t'"
proof -
  note c = consistentD [OF con]
  obtain t1 where t1: "complete_root_with_usage_receipt pf t l r s u = Ok t1" "t' = finalize_terminal_tree t1 None"
    using comp by (auto simp: root_completion_tree_def bind_result_Ok_iff)
  note sk = complete_root_skeleton [OF t1(1)]
  have "accounting {} t1 \<and> leasing t1" by (rule complete_root_sound [OF t1(1) c(2,3,6) fits])
  then have "accounting {} t'" "leasing t'"
    using accounting_finalize shape_after [OF sk c(6)] leasing_finalize by (simp_all add: t1(2))
  then show ?thesis using consistent_step [OF con] sk complete_root_rejected [OF t1(1)] by (simp add: t1(2))
qed

lemma consistent_late_usage:
  assumes con: "consistent pf t" and late: "record_late_usage pf t k r u = Ok (b, t')"
    and k: "k \<noteq> rt_root_node_id t"
    and live: "\<And>n. bt_get (rt_usage_receipts t) r = None \<Longrightarrow> bt_get (rt_nodes t) k = Some n \<Longrightarrow>
      is_live n \<and> can_spend (rn_budget n) u"
  shows "consistent pf t'"
proof -
  note c = consistentD [OF con]
  have "accounting {} t' \<and> leasing t' \<and> (bt_get (rt_usage_receipts t) r = None \<longrightarrow> b)"
    by (rule late_usage_sound [OF late c(2,3,6) k live])
  then show ?thesis
    using consistent_step [OF con late_usage_skeleton [OF late] late_rejected [OF late]] by blast
qed

lemma consistent_root_late_usage:
  assumes con: "consistent pf t" and late: "record_root_late_usage pf t r u = Ok (b, t')"
    and fits: "bt_get (rt_usage_receipts t) r = None \<Longrightarrow> can_spend (rt_root_budget t) u"
  shows "consistent pf t'"
  using consistent_step [OF con root_late_usage_skeleton [OF late] root_late_rejected [OF late]]
    root_late_usage_sound [OF late _ _ _ fits] consistentD [OF con] by simp

lemma consistent_rejection:
  assumes con: "consistent pf t" and pid: "pid \<notin> rt_accepted_proposals t"
  shows "consistent pf (record_rejection_evidence t pid e)"
proof -
  let ?t = "record_rejection_evidence t pid e"
  note c = consistentD [OF con]
  have sk: "skeleton ?t = skeleton t" by (simp add: record_rejection_evidence_def)
  have "decisions_apart ?t"
    using c(5) pid by (auto simp: decisions_apart_def record_rejection_evidence_def map_laws)
  then show ?thesis
    using c(2,3) lineage_cong [OF sk c(1)] tree_bound_cong [OF sk c(4)]
    by (simp add: consistent_def record_rejection_evidence_def)
qed

text \<open>Failing nodes in place, as the control loop does, is failing them by their identifiers.\<close>

lemma fail_node_fields:
  "fail_node r t k = t\<lparr>rt_active_leases := rt_active_leases (fail_node r t k), rt_nodes := rt_nodes (fail_node r t k)\<rparr>"
  by (simp add: fail_node_def split: option.split)

lemma fail_all_fields:
  "foldl (fail_node r) t ks = t\<lparr>rt_active_leases := rt_active_leases (foldl (fail_node r) t ks),
     rt_nodes := rt_nodes (foldl (fail_node r) t ks)\<rparr>"
proof (induction ks arbitrary: t)
  case Nil
  then show ?case by simp
next
  case (Cons k ks)
  have "foldl (fail_node r) (fail_node r t k) ks =
      (fail_node r t k)\<lparr>rt_active_leases := rt_active_leases (foldl (fail_node r) (fail_node r t k) ks),
        rt_nodes := rt_nodes (foldl (fail_node r) (fail_node r t k) ks)\<rparr>" by (rule Cons.IH)
  then show ?case by (subst (asm) (2) fail_node_fields) simp
qed

lemma fail_all_nodes:
  "distinct ks \<Longrightarrow> rt_nodes (foldl (fail_node r) t ks) =
     map (\<lambda>(k, n). (k, if k \<in> set ks then failed r n else n)) (rt_nodes t)"
proof (induction ks arbitrary: t)
  case Nil
  then show ?case by (simp add: case_prod_beta)
next
  case (Cons k ks)
  then show ?case by (auto simp: fail_node_nodes bt_modify_def)
qed

lemma fail_node_leases:
  "bt_get (rt_nodes t) k = Some n \<Longrightarrow>
   rt_active_leases (fail_node r t k) = rt_active_leases t - set_option (rn_lease_id n)"
  by (simp add: fail_node_def split: option.split)

lemma fail_all_leases:
  assumes "tree_shape t"
  shows "distinct (map rn_node_id ns) \<Longrightarrow> set ns \<subseteq> set (bt_values (rt_nodes t)) \<Longrightarrow>
    rt_active_leases (foldl (fail_node r) t (map rn_node_id ns)) =
    rt_active_leases t - set (List.map_filter rn_lease_id ns)"
proof (induction ns rule: rev_induct)
  case Nil
  then show ?case by (simp add: List.map_filter_def)
next
  case (snoc n ns)
  let ?t = "foldl (fail_node r) t (map rn_node_id ns)"
  have "bt_get (rt_nodes t) (rn_node_id n) = Some n" using values_get [OF assms] snoc.prems(2) by auto
  moreover have "rn_node_id n \<notin> set (map rn_node_id ns)" using snoc.prems(1) by auto
  ultimately have "bt_get (rt_nodes ?t) (rn_node_id n) = Some n"
  proof -
    obtain m where m: "bt_get (rt_nodes ?t) (rn_node_id n) = Some m"
      using skeleton_getE [of ?t t] foldl_skeleton [of "fail_node r"] \<open>bt_get (rt_nodes t) (rn_node_id n) = Some n\<close>
      by (metis fail_node_skeleton)
    from fail_all_get [OF this] show ?thesis
      using m \<open>rn_node_id n \<notin> set (map rn_node_id ns)\<close> \<open>bt_get (rt_nodes t) (rn_node_id n) = Some n\<close> by auto
  qed
  then have "rt_active_leases (fail_node r ?t (rn_node_id n)) = rt_active_leases ?t - set_option (rn_lease_id n)"
    by (rule fail_node_leases)
  moreover have "set (List.map_filter rn_lease_id (ns @ [n])) =
      set (List.map_filter rn_lease_id ns) \<union> set_option (rn_lease_id n)"
    by (cases "rn_lease_id n") (auto simp: List.map_filter_def)
  ultimately show ?case using snoc by (simp add: Diff_eq Int_assoc)
qed

lemma distinct_map_filterI: "distinct (map f xs) \<Longrightarrow> distinct (map f (filter P xs))"
  by (induction xs) auto

lemma terminate_live_fold:
  assumes shape: "tree_shape t"
  shows "terminate_live reason t = (let ids = map rn_node_id (filter control_terminates (bt_values (rt_nodes t)))
    in (ids, foldl (fail_node reason) t ids))"
proof -
  let ?hit = "filter control_terminates (bt_values (rt_nodes t))"
  have "distinct (map rn_node_id (bt_values (rt_nodes t)))"
    by (rule distinct_values [OF tree_shape_wf [OF shape]]) (drule tree_shape_id [OF shape], drule tree_shape_id [OF shape], simp)
  then have dist: "distinct (map rn_node_id ?hit)" by (rule distinct_map_filterI)
  have mem: "k \<in> set (map rn_node_id ?hit) \<longleftrightarrow> control_terminates n" if "(k, n) \<in> set (rt_nodes t)" for k n
  proof -
    have n: "bt_get (rt_nodes t) k = Some n" using that bt_wf_distinct [OF tree_shape_wf [OF shape]] by simp
    have id: "rn_node_id n = k" using tree_shape_id [OF shape n] .
    have same: "m = n" if "m \<in> set (bt_values (rt_nodes t))" "rn_node_id m = k" for m
      using values_get [OF shape that(1)] n that(2) by simp
    have "n \<in> set (bt_values (rt_nodes t))" using that by force
    then have "k \<in> set (map rn_node_id ?hit)" if "control_terminates n" using that id by auto
    moreover have "control_terminates n" if k: "k \<in> set (map rn_node_id ?hit)"
    proof -
      obtain m where "m \<in> set ?hit" "k = rn_node_id m" using k by auto
      then show ?thesis using same [of m] by simp
    qed
    ultimately show ?thesis by blast
  qed
  have nodes: "rt_nodes (foldl (fail_node reason) t (map rn_node_id ?hit)) =
      map (\<lambda>(k, n). (k, if control_terminates n then failed reason n else n)) (rt_nodes t)"
    unfolding fail_all_nodes [OF dist]
  proof (rule map_cong [OF refl])
    fix x assume x: "x \<in> set (rt_nodes t)"
    obtain k n where "x = (k, n)" by (cases x)
    then show "(case x of (k, n) \<Rightarrow> (k, if k \<in> set (map rn_node_id ?hit) then failed reason n else n)) =
        (case x of (k, n) \<Rightarrow> (k, if control_terminates n then failed reason n else n))"
      using mem [of k n] x by (simp only: prod.case)
  qed
  have leases: "rt_active_leases (foldl (fail_node reason) t (map rn_node_id ?hit)) =
      rt_active_leases t - set (List.map_filter rn_lease_id ?hit)"
    by (rule fail_all_leases [OF shape dist]) auto
  show ?thesis
    unfolding terminate_live_def Let_def
    by (subst fail_all_fields) (unfold nodes leases failed_def, rule refl)
qed

text \<open>What operator control does to the tree, with the loop written as group operations.\<close>

lemma control_treeE:
  assumes "tree_shape t"
  obtains (stop) t1 ids where "effective_state p r t \<in> {KillStopped, BudgetExhausted, TerminalFailed}"
    "t1 = t\<lparr>rt_execution_state := effective_state p r t, rt_version := rt_version t1\<rparr>"
    "ids = map rn_node_id (filter control_terminates (bt_values (rt_nodes t)))"
    "control_tree p r t = (ids, if ids = [] then t1 else foldl release_node_reservation_for_persistence
       ((foldl (fail_node (terminal_node_reason (effective_state p r t))) t1 ids)
         \<lparr>rt_version := inc_u64 (rt_version (foldl (fail_node (terminal_node_reason (effective_state p r t))) t1 ids))\<rparr>) ids)"
  | (keep) v where "effective_state p r t \<notin> {KillStopped, BudgetExhausted, TerminalFailed}"
    "control_tree p r t = ([], t\<lparr>rt_execution_state := effective_state p r t, rt_version := v\<rparr>)"
proof -
  define t1 where "t1 = (if rt_execution_state t \<noteq> effective_state p r t
    then t\<lparr>rt_execution_state := effective_state p r t, rt_version := inc_u64 (rt_version t)\<rparr> else t)"
  have t1: "t1 = t\<lparr>rt_execution_state := effective_state p r t, rt_version := rt_version t1\<rparr>" by (simp add: t1_def)
  show ?thesis
  proof (cases "effective_state p r t \<in> {KillStopped, BudgetExhausted, TerminalFailed}")
    case True
    have "tree_shape t1" by (rule shape_after [OF _ assms]) (subst t1, simp add: skeleton_def)
    moreover have "rt_nodes t1 = rt_nodes t" by (subst t1) simp
    ultimately have "terminate_live (terminal_node_reason (effective_state p r t)) t1 =
      (map rn_node_id (filter control_terminates (bt_values (rt_nodes t))),
       foldl (fail_node (terminal_node_reason (effective_state p r t))) t1 (map rn_node_id (filter control_terminates (bt_values (rt_nodes t)))))"
      by (simp add: terminate_live_fold Let_def)
    then show ?thesis
      by (intro stop [OF True t1 refl]) (use True in \<open>simp add: control_tree_def Let_def t1_def [symmetric]\<close>)
  next
    case False
    then show ?thesis
      by (intro keep [OF False, of "rt_version t1"]) (subst t1 [symmetric], simp add: control_tree_def Let_def t1_def)
  qed
qed

lemma control_terminates_live: "control_terminates n \<Longrightarrow> is_live n"
  by (simp add: control_terminates_def)

lemma leased_iff:
  assumes "leasing t" "bt_get (rt_nodes t) k = Some n"
  shows "rn_lease_id n = None \<longleftrightarrow> rn_status n \<noteq> Leased"
proof -
  have "lease_view t k = Some (rn_status n, rn_lease_id n)" using assms(2) by (simp add: lease_view_def)
  then show ?thesis using assms(1) unfolding leasing_def by blast
qed

lemma control_kept:
  assumes shape: "tree_shape t" and acc: "accounting {} t" and lea: "leasing t"
  shows "accounting {} (snd (control_tree p r t)) \<and> leasing (snd (control_tree p r t)) \<and>
    skeleton (snd (control_tree p r t)) = skeleton t \<and>
    rt_rejected_proposals (snd (control_tree p r t)) = rt_rejected_proposals t"
proof (rule control_treeE [OF shape, of p r])
  fix t1 ids
  let ?f = "foldl (fail_node (terminal_node_reason (effective_state p r t))) t1 ids"
  let ?u = "?f\<lparr>rt_version := inc_u64 (rt_version ?f)\<rparr>"
  assume t1: "t1 = t\<lparr>rt_execution_state := effective_state p r t, rt_version := rt_version t1\<rparr>"
    and ids: "ids = map rn_node_id (filter control_terminates (bt_values (rt_nodes t)))"
    and eq: "control_tree p r t = (ids, if ids = [] then t1 else foldl release_node_reservation_for_persistence ?u ids)"
  have nodes: "rt_nodes t1 = rt_nodes t" by (subst t1) simp
  have one: "accounting {} t1" "leasing t1" "skeleton t1 = skeleton t" "rt_rejected_proposals t1 = rt_rejected_proposals t"
    using acc lea by (subst t1, simp add: skeleton_def)+
  have live: "is_live n" if "k \<in> set ids" "bt_get (rt_nodes t1) k = Some n" for k n
  proof -
    obtain m where "m \<in> set (bt_values (rt_nodes t))" "k = rn_node_id m" "is_live m"
      using \<open>k \<in> set ids\<close> control_terminates_live unfolding ids set_map set_filter by blast
    then show ?thesis using values_get [OF shape] that(2) nodes by simp
  qed
  have sk: "skeleton ?u = skeleton t1" by (simp add: foldl_skeleton)
  have "accounting ({} \<union> set ids) ?f" by (rule accounting_fail_all [OF one(1)]) (use live in blast)
  then have "accounting ({} \<union> set ids) ?u" by simp
  moreover have "tree_shape ?u" using shape_after [OF _ shape] sk one(3) by simp
  ultimately have "accounting ({} \<union> set ids - set ids) (foldl release_node_reservation_for_persistence ?u ids)"
  proof (rule accounting_release_all)
    fix k n assume "k \<in> set ids" "bt_get (rt_nodes ?u) k = Some n"
    then show "\<not> is_live n" using fail_all_get [of _ t1 ids k n] by (auto simp: is_live_def)
  qed
  moreover have "leasing (foldl release_node_reservation_for_persistence ?u ids)"
    using leasing_fail_all [OF one(2)] leasing_release_all by simp
  ultimately show ?thesis using one sk by (simp add: eq foldl_skeleton)
next
  fix v assume eq: "control_tree p r t = ([], t\<lparr>rt_execution_state := effective_state p r t, rt_version := v\<rparr>)"
  show ?thesis using acc lea by (simp add: eq skeleton_def)
qed

lemma consistent_control:
  assumes "consistent pf t"
  shows "consistent pf (snd (control_tree p r t))"
  using control_kept [OF consistentD(6,2,3) [OF assms], of p r] consistent_step [OF assms] by blast

text \<open>A stopped tree has no lease and no live child.\<close>

lemma control_stops:
  assumes shape: "tree_shape t" and lea: "leasing t"
    and stop: "effective_state p r t \<in> {KillStopped, BudgetExhausted, TerminalFailed}"
    and n: "bt_get (rt_nodes (snd (control_tree p r t))) k = Some n"
  shows "rn_status n \<noteq> Leased \<and> (k \<noteq> rt_root_node_id t \<longrightarrow> \<not> is_live n)"
proof (rule control_treeE [OF shape, of p r])
  fix t1 ids
  let ?f = "foldl (fail_node (terminal_node_reason (effective_state p r t))) t1 ids"
  let ?u = "?f\<lparr>rt_version := inc_u64 (rt_version ?f)\<rparr>"
  assume t1: "t1 = t\<lparr>rt_execution_state := effective_state p r t, rt_version := rt_version t1\<rparr>"
    and ids: "ids = map rn_node_id (filter control_terminates (bt_values (rt_nodes t)))"
    and eq: "control_tree p r t = (ids, if ids = [] then t1 else foldl release_node_reservation_for_persistence ?u ids)"
  have nodes: "rt_nodes t1 = rt_nodes t" by (subst t1) simp
  have "bt_get (rt_nodes (foldl release_node_reservation_for_persistence ?u ids)) k = Some n"
    using n by (cases "ids = []") (simp_all add: eq)
  then obtain m where m: "bt_get (rt_nodes ?u) k = Some m" "rn_status n = rn_status m"
    using release_all_get by blast
  obtain m0 where m0: "bt_get (rt_nodes t) k = Some m0"
    "if k \<in> set ids then rn_status m = NodeFailed \<and> rn_lease_id m = None else m = m0"
    using fail_all_get [of _ t1 ids k m] m(1) nodes by auto
  show ?thesis
  proof (cases "k \<in> set ids")
    case True
    then show ?thesis using m0 m(2) by (simp add: is_live_def)
  next
    case False
    have id: "rn_node_id m0 = k" using tree_shape_id [OF shape m0(1)] .
    have "m0 \<in> set (bt_values (rt_nodes t))" using map_of_SomeD [OF m0(1)] by force
    with False id have dead: "\<not> control_terminates m0" by (auto simp: ids)
    have "rn_lease_id m0 = None \<longleftrightarrow> rn_status m0 \<noteq> Leased"
      by (rule leased_iff [OF lea m0(1)])
    moreover have "rn_parent_node_id m0 \<noteq> None" if "k \<noteq> rt_root_node_id t"
      using tree_shape_parentE [OF shape m0(1) that] by auto
    ultimately show ?thesis using dead m0(2) m(2) False by (auto simp: control_terminates_def is_live_def)
  qed
qed (use stop in simp)

lemma control_no_lease:
  assumes "consistent pf t" and stop: "effective_state p r t \<in> {KillStopped, BudgetExhausted, TerminalFailed}"
  shows "rt_active_leases (snd (control_tree p r t)) = {}"
proof -
  have "leasing (snd (control_tree p r t))" using control_kept consistentD(2,3,6) [OF assms(1)] by blast
  then have "l \<in> rt_active_leases (snd (control_tree p r t)) \<Longrightarrow> \<exists>k. lease_view (snd (control_tree p r t)) k = Some (Leased, Some l)" for l
    by (simp add: leasing_def)
  then show ?thesis
    using control_stops [OF consistentD(6,3) [OF assms(1)] stop] by (fastforce simp: lease_view_def)
qed

text \<open>Marking a settled node failed and stopping the rest keeps the tree consistent.\<close>

lemma consistent_terminal_failure:
  assumes con: "consistent pf t" and tf: "terminal_failure_tree t k reason = Ok t'"
    and dead: "\<And>n. bt_get (rt_nodes t) k = Some n \<Longrightarrow> \<not> is_live n"
  shows "consistent pf t'"
proof -
  note c = consistentD [OF con]
  define g where "g = (\<lambda>n::recursive_node. n\<lparr>rn_failure_reason := Some reason, rn_status := NodeFailed, rn_version := inc_u64 (rn_version n)\<rparr>)"
  define t1 where "t1 = t\<lparr>rt_nodes := bt_modify k g (rt_nodes t), rt_execution_state := TerminalFailed\<rparr>"
  obtain n where n: "bt_get (rt_nodes t) k = Some n" using tf by (auto simp: terminal_failure_tree_def split: if_splits)
  have t': "t' = (terminalize_remaining_nodes t1 (Some k) ReasonTerminalFailed)
      \<lparr>rt_version := inc_u64 (rt_version (terminalize_remaining_nodes t1 (Some k) ReasonTerminalFailed))\<rparr>"
    using tf n by (simp add: terminal_failure_tree_def t1_def g_def Let_def)
  have sk: "skeleton t1 = skeleton t"
    by (simp add: t1_def g_def skeleton_def nodes_static_modify node_static_def)
  have "accounting {} t1"
  proof (rule accounting_neutral [OF c(2)])
    show "rt_nodes t1 = bt_modify k g (rt_nodes t)" by (simp add: t1_def)
    show "(is_live (g m) \<or> k \<in> {}) = (is_live m \<or> k \<in> {})" if "bt_get (rt_nodes t) k = Some m" for m
      using dead [OF that] by (simp add: g_def is_live_def)
  qed (simp_all add: t1_def same_totals_def g_def same_money_def)
  moreover have "leasing t1"
  proof (rule leasing_clear [OF c(3)])
    have "rn_lease_id n = None" using leased_iff [OF c(3) n] dead [OF n] by (simp add: is_live_def)
    then show "lease_view t k = Some (rn_status n, None)" using n by (simp add: lease_view_def)
    show "lease_view t1 j = (if j = k then Some (NodeFailed, None) else lease_view t j)" for j
      using n \<open>rn_lease_id n = None\<close> by (simp add: lease_view_def t1_def bt_get_modify g_def)
  qed (simp_all add: t1_def)
  ultimately have "accounting {} t'" "leasing t'"
    using accounting_terminalize [of "{}" t1] shape_after [OF sk c(6)] leasing_terminalize by (simp_all add: t')
  moreover have "rt_rejected_proposals t' = rt_rejected_proposals t" by (simp add: t' t1_def)
  ultimately show ?thesis using consistent_step [OF con] sk by (simp add: t')
qed

end
