(* ===== verification/Recursive_Reach.thy ===== *)
theory Recursive_Reach
  imports Recursive_Store
begin

text \<open>
  The tree the store creates for an authorised root, and the trees reachable from it by the operations
  of the store: every one of them is consistent, so that validation accepts it while it fits the size
  caps of the snapshot.
\<close>

section \<open>The authorised root\<close>

text \<open>What the operator's authority has to satisfy beyond what its reader checks.\<close>

definition sound_authority :: "recursive_root_authority \<Rightarrow> bool" where
  "sound_authority a \<longleftrightarrow> validate_scope (rra_scope a) = Ok () \<and> finite (allowed_paths (rra_scope a)) \<and>
     finite (rra_capabilities a) \<and> (\<forall>d. bget (rra_tree_budget a) d < u64_max)"

lemma root_treeE:
  assumes "recursive_root_tree_from_metadata pf sd run wid node metadata boundaries = Ok t"
  obtains a agent objective receipt where "parse_authority sd metadata = Ok a"
    "scope_capabilities (rra_scope a) = rra_capabilities a"
    "can_spend (rra_tree_budget a) (rra_child_budget a)" "agent \<noteq> []" "receipt \<noteq> []" "node \<noteq> []"
    "t = (new_with_root_node_id pf run wid node objective (rra_scope a) (rra_capabilities a) (rra_tree_budget a))
       \<lparr>rt_root_child_budget_limit := Some (rra_child_budget a), rt_root_agent_id := agent,
        rt_root_recursive_marker := node, rt_root_creation_receipt_sha256 := receipt,
        rt_root_tenant_id := json_str boundaries ''tenant_id'',
        rt_root_workspace_id := json_str boundaries ''workspace_id'',
        rt_nodes := [(node, (root_node pf run node objective (rra_scope a) (rra_capabilities a) (rra_tree_budget a))
          \<lparr>rn_child_budget := rra_child_budget a, rn_child_budget_limit := rra_child_budget a,
           rn_tenant_id := json_str boundaries ''tenant_id'', rn_workspace_id := json_str boundaries ''workspace_id''\<rparr>)]\<rparr>"
proof -
  obtain agent objective plan a where facts: "nonempty (json_str metadata ''agent_id'') = Some agent"
    "nonempty (json_str metadata ''agent_objective'') = Some objective" "plan_receipt metadata = Ok plan"
    "parse_authority sd metadata = Ok a"
    "scope_capabilities (rra_scope a) = rra_capabilities a"
    "can_spend (rra_tree_budget a) (rra_child_budget a)"
    using assms
    by (auto simp: recursive_root_tree_from_metadata_def bind_result_Ok_iff reject_if_def Let_def split: if_splits)
  let ?receipt = "recursive_root_creation_receipt_sha256 pf sd plan run wid node agent"
  show thesis
    by (rule that [OF facts(4-6), of agent ?receipt objective])
      (use assms facts in \<open>auto simp: recursive_root_tree_from_metadata_def bind_result_Ok_iff reject_if_def Let_def
        bind_root_identity_def bind_root_execution_scope_def new_with_root_node_id_def bt_modify_def
        split: if_splits\<close>)
qed

lemma consistent_root_tree:
  assumes new: "recursive_root_tree_from_metadata pf sd run wid node metadata boundaries = Ok t"
    and sound: "\<And>a. parse_authority sd metadata = Ok a \<Longrightarrow> sound_authority a"
    and ids: "run \<noteq> []" "wid \<noteq> []" and hex: "hex_digest pf"
  shows "consistent pf t"
proof (rule root_treeE [OF new])
  fix a :: recursive_root_authority and agent objective receipt
  let ?root = "(root_node pf run node objective (rra_scope a) (rra_capabilities a) (rra_tree_budget a))
          \<lparr>rn_child_budget := rra_child_budget a, rn_child_budget_limit := rra_child_budget a,
           rn_tenant_id := json_str boundaries ''tenant_id'', rn_workspace_id := json_str boundaries ''workspace_id''\<rparr>"
  assume a: "parse_authority sd metadata = Ok a" "scope_capabilities (rra_scope a) = rra_capabilities a"
    "can_spend (rra_tree_budget a) (rra_child_budget a)" "agent \<noteq> []" "receipt \<noteq> []" "node \<noteq> []"
    and t: "t = (new_with_root_node_id pf run wid node objective (rra_scope a) (rra_capabilities a) (rra_tree_budget a))
       \<lparr>rt_root_child_budget_limit := Some (rra_child_budget a), rt_root_agent_id := agent,
        rt_root_recursive_marker := node, rt_root_creation_receipt_sha256 := receipt,
        rt_root_tenant_id := json_str boundaries ''tenant_id'',
        rt_root_workspace_id := json_str boundaries ''workspace_id'', rt_nodes := [(node, ?root)]\<rparr>"
  note s = sound [OF a(1), unfolded sound_authority_def]
  have scope: "rra_scope a\<lparr>scope_capabilities := rra_capabilities a\<rparr> = rra_scope a" using a(2) by simp
  note defs = t new_with_root_node_id_def root_node_def scope
  have "lineage pf t"
    by (auto simp: defs lineage_def tree_shape_def tree_bounds_def tree_identity_def a(2)
      child_count_def bt_sum_def recursive_limits bt_wf_def split: if_splits)
  moreover have "accounting {} t"
  proof -
    have "bget (rra_child_budget a) d \<le> bget (rra_tree_budget a) d" for d using a(3) by (simp add: can_spend_iff)
    moreover have "bget (rra_tree_budget a) d < u64_max" for d using s by blast
    moreover have "bget (rra_child_budget a) d \<le> u64_max" for d
      using calculation [of d] by simp
    ultimately show ?thesis
      by (auto simp: defs accounting_def totals_def books_def held_def root_limits_def limit_of_def child_use_def
          bt_sum_def bget_zero intro: less_imp_le order.trans)
  qed
  moreover have "leasing t" by (simp add: defs leasing_def lease_view_def)
  moreover have "tree_bound t"
    using s a ids hex
    by (simp add: defs tree_bound_def node_bound_def hex_digest_def objective_fingerprint_def evidence_too_large_def)
  moreover have "decisions_apart t" by (simp add: defs decisions_apart_def)
  ultimately show ?thesis by (simp add: consistent_def)
qed

section \<open>Reachable trees\<close>

text \<open>
  The operations the store applies to a tree, each with what it relies on: a derived child identifier
  that is new, a lease identifier that is not in use, and reported usage within what was granted. The
  usage that exceeds its grant is the subject of its own theorems.
\<close>

inductive tree_step :: "platform \<Rightarrow> recursive_tree \<Rightarrow> recursive_tree \<Rightarrow> bool" for pf where
  step_admit: "admit_child pf t p = Ok (a, t') \<Longrightarrow> fresh_child pf t p \<Longrightarrow>
    utf8_len (rp_proposal_id p) \<le> 241 \<Longrightarrow> tree_step pf t t'"
| step_reject: "pid \<notin> rt_accepted_proposals t \<Longrightarrow> tree_step pf t (record_rejection_evidence t pid e)"
| step_lease: "lease_node pf t k l = Ok t' \<Longrightarrow> l \<notin> rt_active_leases t \<Longrightarrow> tree_step pf t t'"
| step_complete: "completion_tree pf t k l r s retry u = Ok t' \<Longrightarrow> k \<noteq> rt_root_node_id t \<Longrightarrow>
    bt_get (rt_nodes t) k = Some n \<Longrightarrow>
    (bt_get (rt_usage_receipts t) r = None \<Longrightarrow> can_spend (rn_budget n) u) \<Longrightarrow> tree_step pf t t'"
| step_complete_root: "root_completion_tree pf t l r s u = Ok t' \<Longrightarrow>
    (bt_get (rt_usage_receipts t) r = None \<Longrightarrow> can_spend (rt_root_budget t) u) \<Longrightarrow> tree_step pf t t'"
| step_stale: "stale_recovery_tree t k l retry = Ok (st, t') \<Longrightarrow> k \<noteq> rt_root_node_id t \<Longrightarrow>
    bt_get (rt_nodes t) k = Some n \<Longrightarrow> (retry \<Longrightarrow> rn_retry_count n < MAX_RECURSIVE_RETRIES) \<Longrightarrow> tree_step pf t t'"
| step_late: "record_late_usage pf t k r u = Ok (b, t') \<Longrightarrow> k \<noteq> rt_root_node_id t \<Longrightarrow>
    bt_get (rt_nodes t) k = Some n \<Longrightarrow>
    (bt_get (rt_usage_receipts t) r = None \<Longrightarrow> is_live n \<and> can_spend (rn_budget n) u) \<Longrightarrow> tree_step pf t t'"
| step_late_root: "record_root_late_usage pf t r u = Ok (b, t') \<Longrightarrow>
    (bt_get (rt_usage_receipts t) r = None \<Longrightarrow> can_spend (rt_root_budget t) u) \<Longrightarrow> tree_step pf t t'"
| step_fail: "terminal_failure_tree t k reason = Ok t' \<Longrightarrow> bt_get (rt_nodes t) k = Some n \<Longrightarrow> \<not> is_live n \<Longrightarrow>
    tree_step pf t t'"
| step_control: "control_tree paused terminal_reason t = (ids, t') \<Longrightarrow> tree_step pf t t'"

inductive reachable :: "platform \<Rightarrow> recursive_tree \<Rightarrow> recursive_tree \<Rightarrow> bool" for pf t0 where
  reach_start: "reachable pf t0 t0"
| reach_step: "reachable pf t0 t \<Longrightarrow> tree_step pf t t' \<Longrightarrow> reachable pf t0 t'"

lemma tree_step_consistent:
  assumes "tree_step pf t t'" "hex_digest pf" "consistent pf t"
  shows "consistent pf t'"
  using assms
proof (cases rule: tree_step.cases)
  case (step_admit p a)
  then show ?thesis using consistent_admit assms(2,3) by blast
next
  case (step_reject pid e)
  then show ?thesis using consistent_rejection assms(3) by simp
next
  case (step_lease k l)
  then show ?thesis using consistent_lease assms(3) by blast
next
  case (step_complete k l r s retry u n)
  show ?thesis by (rule consistent_completion [OF assms(3) step_complete(1,2)]) (use step_complete(3,4) in auto)
next
  case (step_complete_root l r s u)
  show ?thesis by (rule consistent_root_completion [OF assms(3) step_complete_root(1)]) (use step_complete_root(2) in auto)
next
  case (step_stale k l retry st n)
  show ?thesis by (rule consistent_stale [OF assms(3) step_stale(1,2)]) (use step_stale(3,4) in auto)
next
  case (step_late k r u b n)
  show ?thesis by (rule consistent_late_usage [OF assms(3) step_late(1,2)]) (use step_late(3,4) in auto)
next
  case (step_late_root r u b)
  show ?thesis by (rule consistent_root_late_usage [OF assms(3) step_late_root(1)]) (use step_late_root(2) in auto)
next
  case (step_fail k reason n)
  show ?thesis by (rule consistent_terminal_failure [OF assms(3) step_fail(1)]) (use step_fail(2,3) in auto)
next
  case (step_control paused terminal_reason ids)
  then show ?thesis using consistent_control [OF assms(3), of paused terminal_reason] by simp
qed

lemma reachable_consistent:
  "reachable pf t0 t \<Longrightarrow> hex_digest pf \<Longrightarrow> consistent pf t0 \<Longrightarrow> consistent pf t"
  by (induction rule: reachable.induct) (simp_all add: tree_step_consistent)

section \<open>Walking up the tree\<close>

definition parent_of :: "recursive_tree \<Rightarrow> (string \<times> string) set" where
  "parent_of t = {(p, k). \<exists>n. bt_get (rt_nodes t) k = Some n \<and> rn_parent_node_id n = Some p}"

lemma parent_of_iff: "bt_get (rt_nodes t) k = Some n \<Longrightarrow> (p, k) \<in> parent_of t \<longleftrightarrow> rn_parent_node_id n = Some p"
  by (simp add: parent_of_def)

lemma ancestor_walk_exact:
  assumes shape: "tree_shape t"
  shows "bt_get (rt_nodes t) k = Some n \<Longrightarrow> rn_depth n \<le> fuel \<Longrightarrow>
    ancestor_walk fuel (rt_nodes t) i (rn_parent_node_id n) = Some ((i, k) \<in> (parent_of t)\<^sup>+)"
proof (induction fuel arbitrary: k n)
  case (0 k n)
  have "rn_parent_node_id n = None"
  proof (rule ccontr)
    assume "rn_parent_node_id n \<noteq> None"
    then have "k \<noteq> rt_root_node_id t" using tree_shape_rootE [OF shape] 0(1) by (metis option.inject)
    then obtain pk p where "derives_from p n" using tree_shape_parentE [OF shape 0(1)] by metis
    then show False using 0(2) by (simp add: derives_from_def)
  qed
  moreover from this have "(i, k) \<notin> (parent_of t)\<^sup>+"
    using parent_of_iff [OF 0(1)] by (auto elim: tranclE)
  ultimately show ?case by simp
next
  case (Suc fuel k n)
  show ?case
  proof (cases "rn_parent_node_id n")
    case None
    then have "(i, k) \<notin> (parent_of t)\<^sup>+"
      using parent_of_iff [OF Suc.prems(1)] by (auto elim: tranclE)
    then show ?thesis by (simp add: None)
  next
    case (Some pk)
    then have "k \<noteq> rt_root_node_id t" using tree_shape_rootE [OF shape] Suc.prems(1) by (metis option.distinct(1) option.inject)
    then obtain p where p: "bt_get (rt_nodes t) pk = Some p" "derives_from p n"
      using tree_shape_parentE [OF shape Suc.prems(1)] Some by (metis option.inject)
    have up: "(j, k) \<in> parent_of t \<longleftrightarrow> j = pk" for j using parent_of_iff [OF Suc.prems(1)] Some by auto
    have "(i, k) \<in> (parent_of t)\<^sup>+ \<longleftrightarrow> i = pk \<or> (i, pk) \<in> (parent_of t)\<^sup>+"
      using up by (metis trancl.simps)
    moreover have "ancestor_walk fuel (rt_nodes t) i (rn_parent_node_id p) = Some ((i, pk) \<in> (parent_of t)\<^sup>+)"
      using Suc.IH [OF p(1)] Suc.prems(2) p(2) by (simp add: derives_from_def)
    ultimately show ?thesis by (simp add: Some p(1))
  qed
qed

lemma descendants_exact:
  assumes "tree_shape t" "tree_bounds t"
  shows "k \<in> set (live_descendants t i) \<longleftrightarrow>
    (\<exists>n. bt_get (rt_nodes t) k = Some n \<and> is_live n \<and> (i, k) \<in> (parent_of t)\<^sup>+)"
proof -
  let ?f = "length (rt_nodes t) + MAX_RECURSIVE_DEPTH"
  have walk: "ancestor_walk ?f (rt_nodes t) i (rn_parent_node_id n) = Some ((i, k) \<in> (parent_of t)\<^sup>+)"
    if "bt_get (rt_nodes t) k = Some n" for k n
    by (rule ancestor_walk_exact [OF assms(1) that]) (use tree_boundsD(1) [OF assms(2) that] in simp)
  show ?thesis
  proof
    assume "k \<in> set (live_descendants t i)"
    then obtain n where n: "n \<in> set (bt_values (rt_nodes t))" "k = rn_node_id n" "is_live n"
      "ancestor_walk ?f (rt_nodes t) i (rn_parent_node_id n) = Some True"
      unfolding live_descendants_def by auto
    then show "\<exists>n. bt_get (rt_nodes t) k = Some n \<and> is_live n \<and> (i, k) \<in> (parent_of t)\<^sup>+"
      using values_get [OF assms(1) n(1)] walk [of k n] by simp
  next
    assume "\<exists>n. bt_get (rt_nodes t) k = Some n \<and> is_live n \<and> (i, k) \<in> (parent_of t)\<^sup>+"
    then obtain n where n: "bt_get (rt_nodes t) k = Some n" "is_live n" "(i, k) \<in> (parent_of t)\<^sup>+" by blast
    have "n \<in> set (bt_values (rt_nodes t))" using map_of_SomeD [OF n(1)] by force
    moreover have "k = rn_node_id n" using tree_shape_id [OF assms(1) n(1)] by simp
    ultimately show "k \<in> set (live_descendants t i)"
      using n(2,3) walk [OF n(1)] unfolding live_descendants_def by auto
  qed
qed

section \<open>Usage beyond a node's grant\<close>

text \<open>What a node has left, has used and was granted: releasing and failing nodes leave it alone.\<close>

definition purse :: "recursive_tree \<Rightarrow> string \<Rightarrow> (recursive_budget \<times> recursive_budget \<times> recursive_budget) option" where
  "purse t k = map_option (\<lambda>n. (rn_budget n, rn_actual_usage n, rn_budget_limit n)) (bt_get (rt_nodes t) k)"

lemma purse_modify:
  assumes "rt_nodes t' = bt_modify k g (rt_nodes t)"
    "\<And>n. rn_budget (g n) = rn_budget n \<and> rn_actual_usage (g n) = rn_actual_usage n \<and> rn_budget_limit (g n) = rn_budget_limit n"
  shows "purse t' j = purse t j"
  using assms(2) by (cases "bt_get (rt_nodes t) j") (auto simp: purse_def assms(1) bt_get_modify)

lemma purse_nodes: "rt_nodes t' = rt_nodes t \<Longrightarrow> purse t' j = purse t j"
  by (simp add: purse_def)

lemma purse_release [simp]: "purse (release_node_reservation_for_persistence t k) j = purse t j"
  by (cases "bt_get (rt_nodes t) j")
    (auto simp: purse_def release_node_reservation_for_persistence_def Let_def bt_get_modify split: option.splits)

lemma purse_fail [simp]: "purse (fail_node r t k) j = purse t j"
  by (rule purse_modify [OF fail_node_nodes]) (simp add: failed_def)

lemma purse_groups [simp]:
  "purse (foldl release_node_reservation_for_persistence t ks) j = purse t j"
  "purse (foldl (fail_node r) t ks) j = purse t j"
  by (induction ks arbitrary: t) simp_all

lemma purse_terminalize [simp]: "purse (terminalize_remaining_nodes t e r) j = purse t j"
  by (simp add: terminalize_remaining_nodes_def Let_def purse_nodes [of "_\<lparr>rt_version := _\<rparr>"])

lemma purse_finalize [simp]: "purse (finalize_terminal_tree t i) j = purse t j"
  by (simp add: finalize_terminal_tree_def settle_tree_def cascade_failure_def Let_def
      purse_nodes [of "_\<lparr>rt_execution_state := _, rt_version := _\<rparr>"] split: option.split)

lemma receipts_kept [simp]:
  "rt_usage_receipts (release_node_reservation_for_persistence t k) = rt_usage_receipts t"
  "rt_usage_receipts (finalize_terminal_tree t i) = rt_usage_receipts t"
  by (simp_all add: release_node_reservation_for_persistence_def finalize_terminal_tree_def settle_tree_def
      cascade_failure_def Let_def split: option.split)

lemma overrun_completion:
  assumes comp: "completion_tree pf t k l r s retry u = Ok t'" and fresh: "bt_get (rt_usage_receipts t) r = None"
    and n: "bt_get (rt_nodes t) k = Some n" and over: "\<not> can_spend (rn_budget n) u"
    and tree: "within_tree_budget t u True"
  shows "purse t' k = Some (spend (rn_budget n) u, add_budget (rn_actual_usage n) u, rn_budget_limit n)"
    "\<exists>f. rt_usage_receipts t' = bt_put r (''1:'' @ f) (rt_usage_receipts t)"
proof -
  obtain t1 i where t1: "complete_node_with_usage_receipt pf t k l r s u = Ok t1"
    and t': "t' = finalize_terminal_tree (release_node_reservation_for_persistence t1 k) i"
    using comp n over by (auto simp: completion_tree_def bind_result_Ok_iff retry_allowed_def Let_def split: if_splits)
  obtain f where f: "usage_json pf u = Some f"
    using t1 fresh n by (auto simp: complete_node_with_usage_receipt_def record_usage_def record_usage_internal_def
        split: option.splits if_splits)
  define t2 where "t2 = t\<lparr>rt_spent_budget := add_budget (rt_spent_budget t) u, rt_reserved_budget := spend (rt_reserved_budget t) u,
      rt_usage_receipts := bt_put r (''1:'' @ f) (rt_usage_receipts t),
      rt_nodes := bt_modify k (\<lambda>n. settle_node s False (charge_node u n)) (rt_nodes t),
      rt_active_leases := rt_active_leases t - {l}, rt_execution_state := BudgetExhausted\<rparr>"
  have eq: "t1 = (terminalize_remaining_nodes t2 (Some k) TreeBudgetExhausted)
      \<lparr>rt_version := inc_u64 (rt_version (terminalize_remaining_nodes t2 (Some k) TreeBudgetExhausted))\<rparr>"
    using t1 fresh n over tree f
    by (auto simp: complete_node_with_usage_receipt_def record_usage_def record_usage_internal_def Let_def t2_def
        split: if_splits)
  have "purse t' k = purse t2 k" by (simp add: t' eq purse_nodes [of "_\<lparr>rt_version := _\<rparr>"])
  also have "\<dots> = Some (spend (rn_budget n) u, add_budget (rn_actual_usage n) u, rn_budget_limit n)"
    using n by (simp add: purse_def t2_def bt_get_modify charge_node_def settle_node_def)
  finally show "purse t' k = Some (spend (rn_budget n) u, add_budget (rn_actual_usage n) u, rn_budget_limit n)" .
  show "\<exists>f. rt_usage_receipts t' = bt_put r (''1:'' @ f) (rt_usage_receipts t)"
    by (rule exI [of _ f]) (simp add: t' eq t2_def)
qed

lemma set_bt_put_fresh: "bt_get m k = None \<Longrightarrow> set (bt_put k v m) = insert (k, v) (set m)"
  by (induction k v m rule: bt_put.induct) (auto split: if_splits)

lemma recorded_overrun_fits:
  assumes "rt_usage_receipts t' = bt_put r (''1:'' @ f) (rt_usage_receipts t)" "bt_get (rt_usage_receipts t) r = None"
  shows "recorded_overrun t' = recorded_overrun t"
  using assms by (simp add: recorded_overrun_def list_ex_iff set_bt_put_fresh starts_with_def)

text \<open>What an accepted snapshot guarantees of each node.\<close>

lemma accepted_node:
  assumes "validate_tree_for_persistence pf tree_json t = Ok json" "bt_get (rt_nodes t) k = Some n"
  shows "node_fine pf t n"
proof -
  have "n \<in> set (bt_values (rt_nodes t))" using map_of_SomeD [OF assms(2)] by force
  moreover have "\<forall>n \<in> set (bt_values (rt_nodes t)). node_fine pf t n"
    using assms(1) by (auto simp: validate_tree_for_persistence_def bind_result_Ok_iff scan_nodes_Ok_iff split: option.splits)
  ultimately show ?thesis by (rule bspec [rotated])
qed

lemma overrun_refused:
  assumes con: "consistent pf t" and k: "k \<noteq> rt_root_node_id t"
    and comp: "completion_tree pf t k l r s retry u = Ok t'" and fresh: "bt_get (rt_usage_receipts t) r = None"
    and n: "bt_get (rt_nodes t) k = Some n" "is_live n" and over: "\<not> can_spend (rn_budget n) u"
    and tree: "within_tree_budget t u True" and clean: "\<not> recorded_overrun t"
  shows "validate_tree_for_persistence pf tree_json t' \<noteq> Ok json"
proof
  assume ok: "validate_tree_for_persistence pf tree_json t' = Ok json"
  note c = consistentD [OF con] and after = overrun_completion [OF comp fresh n(1) over tree]
  obtain n' where n': "bt_get (rt_nodes t') k = Some n'" "rn_budget n' = spend (rn_budget n) u"
    "rn_actual_usage n' = add_budget (rn_actual_usage n) u" "rn_budget_limit n' = rn_budget_limit n"
    using after(1) by (auto simp: purse_def)
  have "\<not> node_budget_bad t' n'" using accepted_node [OF ok n'(1)] unfolding node_fine_def by blast
  moreover have "\<not> recorded_overrun t'" using after(2) recorded_overrun_fits fresh clean by blast
  ultimately have eq: "add_budget (rn_budget n') (rn_actual_usage n') = rn_budget_limit n"
    by (simp add: node_budget_bad_def Let_def n'(4))
  obtain d where d: "bget (rn_budget n) d < bget u d" using over by (auto simp: can_spend_iff not_le)
  have "bget (rn_budget n) d + bget (rn_actual_usage n) d = bget (rn_budget_limit n) d"
    using accounting_books [OF c(2) n(1), of d] by (simp add: books_def)
  moreover have "bget (rn_budget_limit n) d < u64_max"
  proof -
    have "bget (rn_reservation n) d + bget (rn_actual_usage n) d \<le> limit_of t d"
      using accounting_totals [OF c(2), of d] bt_sum_ge [OF n(1), of "\<lambda>n. bget (rn_reservation n) d"]
        bt_sum_ge [OF n(1), of "\<lambda>n. bget (rn_actual_usage n) d"] by (simp add: totals_def)
    moreover have "rn_reservation n = rn_budget n" using accounting_held [OF c(2) n(1)] n(2) k by (simp add: held_def)
    ultimately show ?thesis
      using accounting_totals [OF c(2), of d] accounting_books [OF c(2) n(1), of d]
      by (simp add: totals_def books_def)
  qed
  ultimately have "bget (add_budget (rn_budget n') (rn_actual_usage n')) d \<noteq> bget (rn_budget_limit n) d"
    using d by (auto simp: n'(2,3) budget_simps saturating_add_def)
  then show False using eq by simp
qed

end
