(* ===== verification/Recursive_Samples.thy ===== *)
theory Recursive_Samples
  imports Recursive_Reach
begin

text \<open>
  A concrete platform, a root created from workflow metadata, one admitted child and its lease: the
  inputs at which the theorems on recursive execution are instantiated. The digest repeats the last
  character of its input 64 times, which is enough to tell the objectives of the samples apart.
\<close>

definition sample_digest :: "string \<Rightarrow> string" where
  "sample_digest text = replicate 64 (if text = [] \<or> (of_char (last text) :: nat) \<ge> 128 then CHR ''0'' else last text)"

definition sample_platform :: platform where
  "sample_platform = \<lparr>env_var = (\<lambda>name. if name = ''ACP_RECURSIVE_EXECUTION_ENABLED'' then Some ''1'' else None),
     sha256_hex = sample_digest, identity_json = oi_intent,
     usage_json = (\<lambda>u. Some (replicate (calls_remaining u) (CHR ''c'')))\<rparr>"

lemma sample_hex: "hex_digest sample_platform"
proof -
  have "utf8_len (replicate n c) = n" if "(of_char c :: nat) < 128" for n c
    using that by (induction n) (simp_all add: utf8_len_def)
  then have "utf8_len (sample_digest x) = 64" for x
    unfolding sample_digest_def by (cases "x = [] \<or> (of_char (last x) :: nat) \<ge> 128") simp_all
  then show ?thesis by (simp add: hex_digest_def sample_platform_def)
qed

definition units :: "nat \<Rightarrow> recursive_budget" where
  "units n = \<lparr>calls_remaining = n, tokens_remaining = n, cost_micros_remaining = n, time_ms_remaining = n\<rparr>"

definition sample_scope :: recursive_scope where
  "sample_scope = \<lparr>repository = None, allowed_paths = {''src''}, scope_capabilities = {''read''}\<rparr>"

definition sample_authority :: recursive_root_authority where
  "sample_authority = \<lparr>rra_schema_version = RECURSIVE_ROOT_AUTHORITY_VERSION, rra_scope = sample_scope,
     rra_capabilities = {''read''}, rra_tree_budget = units 20, rra_child_budget = units 20,
     rra_usage_contract = Measured\<rparr>"

definition sample_metadata :: json where
  "sample_metadata = JObject [(''agent_id'', JString ''agent''), (''agent_objective'', JString ''audit''),
     (''creation_receipt_sha256'', JString ''plan''), (''recursive_root_authority'', JNull),
     (''recursive_root_node_id'', JString ''root''), (''task_type'', JString ''agent_step'')]"

definition sample_serde :: "(string, recursive_tree) result \<Rightarrow> serde" where
  "sample_serde r = \<lparr>tree_to_json = (\<lambda>t. Ok ''tree''), tree_from_json = (\<lambda>s. r),
     value_from_json = (\<lambda>s. Ok (if s = ''node'' then sample_metadata else JObject [])), value_to_json = (\<lambda>j. ''json''),
     authority_from_value = (\<lambda>v. Ok sample_authority), no_rows_error = ''no rows''\<rparr>"

definition root_print :: string where "root_print = replicate 64 (CHR ''t'')"
definition child_print :: string where "child_print = replicate 64 (CHR ''d'')"
definition root_receipt :: string where "root_receipt = replicate 64 (CHR ''n'')"

definition sample_root_node :: recursive_node where
  "sample_root_node = \<lparr>rn_node_id = ''root'', rn_root_run_id = ''run'', rn_parent_node_id = None,
     rn_proposal_id = None, rn_depth = 0, rn_objective_fingerprint = root_print,
     rn_ancestor_fingerprints = [], rn_scope = sample_scope, rn_capabilities = {''read''}, rn_tenant_id = None,
     rn_workspace_id = None, rn_budget = units 20, rn_budget_limit = units 20, rn_child_budget = units 20,
     rn_child_budget_limit = units 20, rn_reservation = units 0, rn_actual_usage = units 0, rn_status = Ready,
     rn_accepted_children = 0, rn_retry_count = 0, rn_version = 1, rn_lease_id = None, rn_failure_reason = None,
     rn_evidence_refs = []\<rparr>"

definition sample_root :: recursive_tree where
  "sample_root = \<lparr>rt_schema_version = ''recursive_execution.v1'', rt_root_run_id = ''run'',
     rt_workflow_id = ''workflow'', rt_root_node_id = ''root'', rt_root_agent_id = ''agent'',
     rt_root_recursive_marker = ''root'', rt_root_creation_receipt_sha256 = root_receipt,
     rt_root_scope = sample_scope, rt_root_capabilities = {''read''}, rt_root_tenant_id = None,
     rt_root_workspace_id = None, rt_root_budget = units 20, rt_root_budget_limit = Some (units 20),
     rt_root_child_budget_limit = Some (units 20), rt_spent_budget = units 0, rt_reserved_budget = units 0,
     rt_execution_state = Running, rt_version = 1, rt_nodes = [(''root'', sample_root_node)],
     rt_accepted_proposals = {}, rt_receipts = [], rt_active_leases = {}, rt_rejected_proposals = [],
     rt_usage_receipts = []\<rparr>"

lemma sample_prints:
  "objective_fingerprint sample_platform ''audit'' = root_print"
  "objective_fingerprint sample_platform ''build'' = child_print"
  "sample_digest ''json'' = root_receipt" "root_print \<noteq> child_print" "root_receipt \<noteq> []"
  by code_simp+

lemma sample_root_created:
  "recursive_root_tree_from_metadata sample_platform (sample_serde (Err ''unread'')) ''run'' ''workflow'' ''root''
     sample_metadata (JObject []) = Ok sample_root"
proof -
  have "json_str sample_metadata ''task_type'' = Some ''agent_step''"
    "json_str sample_metadata ''agent_id'' = Some ''agent''"
    "json_str sample_metadata ''agent_objective'' = Some ''audit''"
    "json_str sample_metadata ''recursive_root_node_id'' = Some ''root''" "plan_receipt sample_metadata = Ok ''plan''"
    by code_simp+
  moreover have "parse_authority (sample_serde (Err ''unread'')) sample_metadata = Ok sample_authority"
    "can_spend (units 20) (units 20)" "is_nonzero (units 20)"
    by code_simp+
  moreover have "sha256_hex sample_platform = sample_digest" "value_to_json (sample_serde (Err ''unread'')) j = ''json''"
    "json_str (JObject []) k = None" "units 0 = zero_budget" for j k
    by (simp_all add: sample_platform_def sample_serde_def json_str_def json_get_def units_def zero_budget_def)
  ultimately show ?thesis
    by (simp add: recursive_root_tree_from_metadata_def new_with_root_node_id_def sample_root_def root_node_def
     sample_root_node_def sample_prints bind_root_identity_def bind_root_execution_scope_def nonempty_def sample_authority_def
     RECURSIVE_SCHEMA_VERSION_def reject_if_def map_err_def bt_modify_def sample_scope_def recursive_root_creation_receipt_sha256_def)
qed

definition child_id :: string where "child_id = ''recursive-'' @ child_print"

definition sample_proposal :: recursive_proposal where
  "sample_proposal = \<lparr>rp_proposal_id = ''p1'', rp_parent_node_id = ''root'', rp_parent_version = 1,
     rp_objective = ''build'', rp_context_summary = [], rp_requested_scope = sample_scope,
     rp_requested_capabilities = {''read''}, rp_budget = units 10, rp_receipt_sha256 = ''r1''\<rparr>"

definition sample_child_node :: recursive_node where
  "sample_child_node = \<lparr>rn_node_id = child_id, rn_root_run_id = ''run'', rn_parent_node_id = Some ''root'',
     rn_proposal_id = Some ''p1'', rn_depth = 1, rn_objective_fingerprint = child_print,
     rn_ancestor_fingerprints = [root_print], rn_scope = sample_scope, rn_capabilities = {''read''}, rn_tenant_id = None,
     rn_workspace_id = None, rn_budget = units 10, rn_budget_limit = units 10, rn_child_budget = units 10,
     rn_child_budget_limit = units 10, rn_reservation = units 10, rn_actual_usage = units 0, rn_status = Ready,
     rn_accepted_children = 0, rn_retry_count = 0, rn_version = 1, rn_lease_id = None, rn_failure_reason = None,
     rn_evidence_refs = [''agent_proposal/p1'']\<rparr>"

definition sample_child :: recursive_tree where
  "sample_child = sample_root\<lparr>rt_root_budget := units 10, rt_reserved_budget := units 10, rt_version := 2,
     rt_nodes := [(child_id, sample_child_node), (''root'', sample_root_node\<lparr>rn_child_budget := units 10,
       rn_accepted_children := 1, rn_version := 2\<rparr>)],
     rt_accepted_proposals := {''p1''}, rt_receipts := [(''p1'', ''r1'')]\<rparr>"


lemma sample_admitted:
  "admit_child sample_platform sample_root sample_proposal =
     Ok (\<lparr>ra_node = sample_child_node, ra_parent_version = 2\<rparr>, sample_child)"
  by code_simp

definition sample_leased :: recursive_tree where
  "sample_leased = sample_child\<lparr>rt_version := 3, rt_active_leases := {''l1''},
     rt_nodes := bt_modify child_id (\<lambda>n. n\<lparr>rn_lease_id := Some ''l1'', rn_status := Leased, rn_version := 2\<rparr>)
       (rt_nodes sample_child)\<rparr>"

lemma sample_leased: "lease_node sample_platform sample_child child_id ''l1'' = Ok sample_leased"
  by code_simp

lemma sample_sound: "sound_authority sample_authority"
proof -
  have "validate_scope (rra_scope sample_authority) = Ok ()" by code_simp
  moreover have "bget (rra_tree_budget sample_authority) d < u64_max" for d
    by (cases d) (simp_all add: sample_authority_def units_def u64_max_def)
  ultimately show ?thesis by (simp add: sound_authority_def sample_authority_def sample_scope_def)
qed

lemma sample_parse:
  "parse_authority (sample_serde r) sample_metadata = Ok a \<Longrightarrow> sound_authority a"
  using sample_sound
  by (simp add: parse_authority_def sample_serde_def sample_metadata_def json_get_def map_err_def)

lemma sample_reach: "reachable sample_platform sample_root sample_child" "reachable sample_platform sample_root sample_leased"
proof -
  have new: "fresh_child sample_platform sample_root sample_proposal" "utf8_len (rp_proposal_id sample_proposal) \<le> 241"
    by code_simp+
  show child: "reachable sample_platform sample_root sample_child"
    by (rule reach_step [OF reach_start step_admit [OF sample_admitted new]])
  have "''l1'' \<notin> rt_active_leases sample_child" by code_simp
  with sample_leased show "reachable sample_platform sample_root sample_leased"
    by (intro reach_step [OF child step_lease])
qed

lemma sample_caps:
  "within_caps (\<lambda>t. Ok ''tree'') sample_leased"
proof -
  have "\<not> usage_receipts_bad sample_leased \<and> \<not> decisions_bad sample_leased \<and> \<not> MAX_RECURSIVE_TREE_BYTES < utf8_len ''tree''"
    by code_simp
  then show ?thesis by (simp add: within_caps_def)
qed

lemma sample_consistent: "consistent sample_platform sample_root" "consistent sample_platform sample_child"
    "consistent sample_platform sample_leased"
proof -
  show root: "consistent sample_platform sample_root"
    by (rule consistent_root_tree [OF sample_root_created sample_parse _ _ sample_hex]) simp_all
  show "consistent sample_platform sample_child" "consistent sample_platform sample_leased"
    using sample_reach reachable_consistent [OF _ sample_hex root] by blast+
qed

definition sample_db :: product_db where
  "sample_db = \<lparr>recursive_execution_trees = [], recursive_execution_nodes = [],
     workflow_runs = [(''run'', \<lparr>ru_workflow_id = ''workflow'', ru_boundaries_json = ''boundaries''\<rparr>)],
     workflow_run_nodes = [((''run'', ''root''), \<lparr>rr_task_type = ''agent_step'', rr_status = ''running'', rr_node_json = ''node'',
       rr_completed_at = None, rr_leased_at = None, rr_blocked_reason = None\<rparr>)]\<rparr>"

lemma sample_persisted:
  obtains db' where "persist_recursive_tree sample_platform (sample_serde (Ok sample_leased)) sample_db sample_leased ''now'' (Some 0) = Ok db'"
proof -
  have "case persist_recursive_tree sample_platform (sample_serde (Ok sample_leased)) sample_db sample_leased ''now'' (Some 0) of
    Inr db' \<Rightarrow> True | Inl e \<Rightarrow> False" by code_simp
  with that show ?thesis by (auto split: sum.splits)
qed

end
