(* ===== verification/Recursive_Theorems.thy ===== *)
theory Recursive_Theorems
  imports Recursive_Samples
begin

text \<open>
  The theorems on recursive execution: what every reachable tree satisfies, what an accepted snapshot
  guarantees, how admission narrows authority, what stopping a tree does, and how the store protects
  what it has written.
\<close>

section \<open>Reachable trees\<close>





section \<open>What an accepted snapshot guarantees\<close>

text \<open>C24. A snapshot that passes validation, wherever it comes from, is within the fixed bounds, every
  child in it has a parent in the tree one level above it whose capabilities, scope, tenant and workspace
  bound its own, and unless an over-budget receipt is on record its budgets are conserved. Authority can
  only narrow along a persisted tree.\<close>

theorem accepted_snapshot_narrows:
  assumes ok: "validate_tree_for_persistence pf tree_json t = Ok json"
  shows "length (rt_nodes t) \<le> 12 \<and> card (rt_active_leases t) \<le> 3 \<and> utf8_len json \<le> 131072 \<and>
    (\<forall>k n. bt_get (rt_nodes t) k = Some n \<longrightarrow> rn_depth n \<le> 2 \<and> rn_accepted_children n \<le> 3 \<and>
      (rn_node_id n \<noteq> rt_root_node_id t \<longrightarrow> (\<exists>pk p. rn_parent_node_id n = Some pk \<and> bt_get (rt_nodes t) pk = Some p \<and>
         rn_depth n = rn_depth p + 1 \<and> rn_capabilities n \<subseteq> rn_capabilities p \<and> is_subset_of (rn_scope n) (rn_scope p) \<and>
         rn_tenant_id n = rn_tenant_id p \<and> rn_workspace_id n = rn_workspace_id p))) \<and>
    (\<forall>limit. rt_root_budget_limit t = Some limit \<longrightarrow> \<not> recorded_overrun t \<longrightarrow>
      add_budget (rt_root_budget t) (add_budget (rt_spent_budget t) (rt_reserved_budget t)) = limit)"
proof -
  have "length (rt_nodes t) \<le> 12 \<and> card (rt_active_leases t) \<le> 3"
    using ok by (simp add: validate_tree_for_persistence_def recursive_limits not_less)
  moreover have "utf8_len json \<le> 131072"
    using ok by (auto simp: validate_tree_for_persistence_def closing_checks_def bind_result_Ok_iff
        MAX_RECURSIVE_TREE_BYTES_def not_less split: option.splits)
  moreover have "aggregate_check t = Ok ()"
    using ok by (auto simp: validate_tree_for_persistence_def bind_result_Ok_iff)
  moreover have node: "rn_depth n \<le> 2 \<and> rn_accepted_children n \<le> 3" if "bt_get (rt_nodes t) k = Some n" for k n
    using accepted_node [OF ok that] by (simp add: node_fine_def node_shape_bad_def recursive_limits)
  moreover have "\<exists>pk p. rn_parent_node_id n = Some pk \<and> bt_get (rt_nodes t) pk = Some p \<and>
      rn_depth n = rn_depth p + 1 \<and> rn_capabilities n \<subseteq> rn_capabilities p \<and> is_subset_of (rn_scope n) (rn_scope p) \<and>
      rn_tenant_id n = rn_tenant_id p \<and> rn_workspace_id n = rn_workspace_id p"
    if n: "bt_get (rt_nodes t) k = Some n" "rn_node_id n \<noteq> rt_root_node_id t" for k n
  proof -
    have fine: "node_fine pf t n" by (rule accepted_node [OF ok n(1)])
    then obtain pk where pk: "rn_parent_node_id n = Some pk" using n(2) by (auto simp: node_fine_def node_identity_bad_def)
    then obtain p where p: "bt_get (rt_nodes t) pk = Some p" "\<not> lineage_bad p n" using fine by (auto simp: node_fine_def)
    have "min (rn_depth p + 1) 255 = rn_depth p + 1" using node [OF p(1)] by simp
    then show ?thesis using pk p by (auto simp: lineage_bad_def)
  qed
  ultimately show ?thesis by (auto simp: aggregate_check_def Let_def)
qed

theorem accepted_snapshot_narrows_witness:
  "length (rt_nodes sample_leased) \<le> 12 \<and> card (rt_active_leases sample_leased) \<le> 3"
proof -
  have "validate_tree_for_persistence sample_platform (\<lambda>_. Ok ''tree'') sample_leased = Ok ''tree''" by code_simp
  from accepted_snapshot_narrows [OF this] show ?thesis by blast
qed

section \<open>Admission\<close>

text \<open>C8. An admitted child gets exactly the least of what it asked for, what its parent may still hand out
  and what the tree has left, in every dimension and never nothing; that amount is taken from both and
  reserved. It stands one level below its parent within the depth limit, its scope and capabilities are
  within its parent's, it never inherits \<^verbatim>\<open>handoff\<close>, and no node of the tree has its objective.\<close>

theorem admission_narrows:
  assumes con: "consistent pf t" and adm: "admit_child pf t p = Ok (a, t')"
  shows "\<exists>parent. bt_get (rt_nodes t) (rp_parent_node_id p) = Some parent \<and>
    (\<forall>d. bget (rn_budget (ra_node a)) d =
        min (min (bget (rp_budget p) d) (bget (rn_child_budget parent) d)) (bget (rt_root_budget t) d) \<and>
      0 < bget (rn_budget (ra_node a)) d \<and>
      bget (rt_root_budget t') d + bget (rn_budget (ra_node a)) d = bget (rt_root_budget t) d \<and>
      bget (rt_reserved_budget t') d = bget (rt_reserved_budget t) d + bget (rn_budget (ra_node a)) d) \<and>
    rn_depth (ra_node a) = rn_depth parent + 1 \<and> rn_depth (ra_node a) \<le> MAX_RECURSIVE_DEPTH \<and>
    rn_capabilities (ra_node a) \<subseteq> rn_capabilities parent - {''handoff''} \<and>
    is_subset_of (rn_scope (ra_node a)) (rn_scope parent) \<and>
    (\<forall>n \<in> set (bt_values (rt_nodes t)). rn_objective_fingerprint n \<noteq> rn_objective_fingerprint (ra_node a))"
proof (rule admit_child_OkE [OF adm])
  fix parent
  assume parent: "bt_get (rt_nodes t) (rp_parent_node_id p) = Some parent" "rn_depth parent < MAX_RECURSIVE_DEPTH"
    "rp_requested_capabilities p \<subseteq> rn_capabilities parent" "is_subset_of (rp_requested_scope p) (rn_scope parent)"
    "\<forall>n \<in> set (bt_values (rt_nodes t)). rn_objective_fingerprint n \<noteq> objective_fingerprint pf (rp_objective p)"
    and nz: "is_nonzero (effective_budget t parent p)"
    and a: "a = \<lparr>ra_node = child_node pf t parent p, ra_parent_version = inc_u64 (rn_version parent)\<rparr>"
    and t': "t' = admitted_tree pf t parent p"
  have caps: "scope_capabilities (rp_requested_scope p) = rp_requested_capabilities p"
    using adm by (auto simp: admit_child_def bind_result_Ok_iff Let_def split: option.splits if_splits)
  have heritable: "heritable_recursive_capabilities c = c - {''handoff''}" for c
    by (auto simp: heritable_recursive_capabilities_def RECURSIVE_NON_HERITABLE_CAPABILITIES_def)
  let ?e = "effective_budget t parent p"
  have money: "bget ?e d = min (min (bget (rp_budget p) d) (bget (rn_child_budget parent) d)) (bget (rt_root_budget t) d) \<and>
      0 < bget ?e d \<and> bget (rt_root_budget t') d + bget ?e d = bget (rt_root_budget t) d \<and>
      bget (rt_reserved_budget t') d = bget (rt_reserved_budget t) d + bget ?e d" for d
  proof -
    have e: "bget ?e d = min (min (bget (rp_budget p) d) (bget (rn_child_budget parent) d)) (bget (rt_root_budget t) d)"
      by (simp add: effective_budget_def bget_bounded)
    moreover have "0 < bget ?e d" using nz by (simp add: is_nonzero_iff)
    moreover have "bget ?e d \<le> bget (rt_root_budget t) d" by (simp add: e)
    moreover from this have "bget (rt_reserved_budget t) d + bget ?e d \<le> u64_max"
      using accounting_totals [OF consistentD(2) [OF con], of d] unfolding totals_def by linarith
    ultimately show ?thesis by (simp add: t' admitted_tree_def Let_def budget_simps saturating_add_exact)
  qed
  have child: "rn_budget (child_node pf t parent p) = ?e" "rn_depth (child_node pf t parent p) = rn_depth parent + 1"
    "rn_capabilities (child_node pf t parent p) = rp_requested_capabilities p - {''handoff''}"
    "rn_scope (child_node pf t parent p) = (rp_requested_scope p)\<lparr>scope_capabilities := rp_requested_capabilities p - {''handoff''}\<rparr>"
    "rn_objective_fingerprint (child_node pf t parent p) = objective_fingerprint pf (rp_objective p)"
    by (simp_all add: child_node_def Let_def heritable)
  have "is_subset_of (rn_scope (child_node pf t parent p)) (rn_scope parent)"
    using parent(4) caps by (auto simp: child heritable is_subset_of_def)
  moreover have "rn_capabilities (child_node pf t parent p) \<subseteq> rn_capabilities parent - {''handoff''}"
    using parent(3) by (auto simp: child heritable)
  moreover have "rn_depth (child_node pf t parent p) \<le> MAX_RECURSIVE_DEPTH" using parent(2) by (simp add: child)
  moreover have "ra_node a = child_node pf t parent p" by (simp add: a)
  ultimately show ?thesis
    using parent(1,5) money unfolding child(1) [symmetric] child(5) [symmetric] by (metis child(2))
qed

theorem admission_narrows_witness:
  "\<exists>parent. bt_get (rt_nodes sample_root) (rp_parent_node_id sample_proposal) = Some parent \<and>
     is_subset_of (rn_scope sample_child_node) (rn_scope parent) \<and> rn_depth sample_child_node = rn_depth parent + 1"
  using admission_narrows [OF sample_consistent(1) sample_admitted] by auto

section \<open>Stopping and pausing\<close>

text \<open>C12. Stopping a tree stops it: when an operator's kill, an exhausted budget or a terminal failure
  takes effect, no node stays leased, no child stays ready, the lease index is empty, and the tree is still
  consistent, so the stop can be written down.\<close>

theorem stop_is_complete:
  assumes "consistent pf t"
    and "effective_state paused reason t \<in> {KillStopped, BudgetExhausted, TerminalFailed}"
    and "control_tree paused reason t = (ids, t')"
  shows "rt_active_leases t' = {} \<and> consistent pf t' \<and>
    (\<forall>k n. bt_get (rt_nodes t') k = Some n \<longrightarrow> rn_status n \<noteq> Leased \<and> (k \<noteq> rt_root_node_id t \<longrightarrow> \<not> is_live n))"
  using control_no_lease [OF assms(1,2)] consistent_control [OF assms(1), of paused reason]
    control_stops [OF consistentD(6,3) [OF assms(1)] assms(2)] assms(3) by simp

theorem stop_is_complete_witness:
  "rt_active_leases (snd (control_tree True (Some (reason_str RecursiveKillSwitchActive)) sample_leased)) = {}"
proof -
  have "effective_state True (Some (reason_str RecursiveKillSwitchActive)) sample_leased = KillStopped" by code_simp
  with stop_is_complete [OF sample_consistent(3)] show ?thesis by (metis insertI1 prod.collapse)
qed

text \<open>A pause, in contrast, only changes the state: every node, every lease and every reservation is
  kept, so leased nodes outlive the pause.\<close>

lemma pause_keeps_leases:
  assumes "effective_state True reason t = OperatorPaused"
  shows "\<exists>v. control_tree True reason t = ([], t\<lparr>rt_execution_state := OperatorPaused, rt_version := v\<rparr>)"
  using assms by (cases "rt_execution_state t = OperatorPaused")
    (auto simp: control_tree_def Let_def intro: exI [of _ "rt_version t"])

lemma pause_keeps_leases_example:
  "rt_active_leases (snd (control_tree True None sample_leased)) = {''l1''}"
proof -
  have "effective_state True None sample_leased = OperatorPaused" by code_simp
  then obtain v where "control_tree True None sample_leased = ([], sample_leased\<lparr>rt_execution_state := OperatorPaused, rt_version := v\<rparr>)"
    using pause_keeps_leases by blast
  then show ?thesis by (simp add: sample_leased_def)
qed

section \<open>Failure reaches exactly the descendants\<close>

text \<open>C25. The walk up the parent chain by which a failed node finds its descendants always ends, within as
  many steps as the node is deep, and finds exactly the live nodes below it.\<close>

theorem cascade_finds_descendants:
  assumes "consistent pf t"
  shows "(\<forall>k n. bt_get (rt_nodes t) k = Some n \<longrightarrow>
      ancestor_walk (rn_depth n) (rt_nodes t) i (rn_parent_node_id n) = Some ((i, k) \<in> (parent_of t)\<^sup>+)) \<and>
    set (live_descendants t i) =
      {k. \<exists>n. bt_get (rt_nodes t) k = Some n \<and> is_live n \<and> (i, k) \<in> (parent_of t)\<^sup>+}"
  using ancestor_walk_exact [OF consistentD(6) [OF assms]] descendants_exact [OF consistentD(6,7) [OF assms]]
  by auto

theorem cascade_finds_descendants_witness:
  "child_id \<in> set (live_descendants sample_leased ''root'') \<and> (''root'', child_id) \<in> (parent_of sample_leased)\<^sup>+"
proof -
  have "child_id \<in> set (live_descendants sample_leased ''root'')" by code_simp
  with cascade_finds_descendants [OF sample_consistent(3), of "''root''"] show ?thesis by blast
qed

section \<open>Usage\<close>

lemma late_receipt:
  assumes first: "record_late_usage pf t k r u = Ok (b, t')" and f: "usage_json pf u = Some f"
  shows "bt_get (rt_usage_receipts t') r = Some ((if b then ''1:'' else ''0:'') @ f)"
proof (cases "bt_get (rt_usage_receipts t) r")
  case (Some previous)
  then show ?thesis
    using first f by (auto simp: record_late_usage_def bind_result_Ok_iff replayed_receipt_def strip_prefix_iff
        split: option.splits if_splits)
next
  case None
  then show ?thesis
    using first f
    by (auto simp: record_late_usage_def bind_result_Ok_iff record_usage_def record_usage_internal_def Let_def
        late_overrun_def map_laws split: option.splits if_splits)
qed

text \<open>C18. A usage receipt is charged once. Reporting late usage again under the same receipt changes
  nothing and repeats the first answer when the usage is the same; any other usage under that receipt is a
  conflict.\<close>

theorem late_usage_charged_once:
  assumes first: "record_late_usage pf t k r u = Ok (b, t')"
  shows "record_late_usage pf t' k' r u' =
    (if usage_json pf u' = usage_json pf u then Ok (b, t') else Err ReceiptConflict)"
proof -
  obtain f where f: "usage_json pf u = Some f" using first by (auto simp: record_late_usage_def split: option.splits)
  have "bt_get (rt_usage_receipts t') r = Some ((if b then ''1:'' else ''0:'') @ f)"
    by (rule late_receipt [OF first f])
  then show ?thesis using f by (auto simp: record_late_usage_def replayed_receipt_def split: option.splits)
qed


theorem late_usage_charged_once_witness:
  "(case record_late_usage sample_platform sample_leased child_id ''u1'' (units 3) of
      Inr (b, t) \<Rightarrow> b \<and> record_late_usage sample_platform t child_id ''u1'' (units 3) = Ok (b, t) \<and>
        record_late_usage sample_platform t child_id ''u1'' (units 4) = Err ReceiptConflict
    | Inl _ \<Rightarrow> False)"
proof -
  have "case record_late_usage sample_platform sample_leased child_id ''u1'' (units 3) of
      Inr (b, t) \<Rightarrow> b | Inl _ \<Rightarrow> False" by code_simp
  then obtain t where first: "record_late_usage sample_platform sample_leased child_id ''u1'' (units 3) = Ok (True, t)"
    by (auto split: sum.splits prod.splits)
  have "usage_json sample_platform (units 4) \<noteq> usage_json sample_platform (units 3)" by code_simp
  then show ?thesis using late_usage_charged_once [OF first] first by simp
qed

text \<open>C26. A child that reports more than its own grant while the tree can still pay is settled with a
  receipt marked as within budget, and validation then refuses the resulting tree: the completion is
  computed but can never be persisted, whatever else is in the tree.\<close>

theorem child_overrun_unpersistable:
  assumes "consistent pf t" and "k \<noteq> rt_root_node_id t" and "bt_get (rt_nodes t) k = Some n" and "is_live n"
    and "bt_get (rt_usage_receipts t) r = None" and "\<not> recorded_overrun t"
    and "\<not> can_spend (rn_budget n) u" and "within_tree_budget t u True"
    and "completion_tree pf t k l r success retry u = Ok t'"
  shows "validate_tree_for_persistence pf tree_json t' \<noteq> Ok json"
  by (rule overrun_refused [OF assms(1,2,9,5,3,4,7,8,6)])

theorem child_overrun_unpersistable_witness:
  "\<exists>t'. completion_tree sample_platform sample_leased child_id ''l1'' ''u1'' True False (units 15) = Ok t' \<and>
     (\<forall>json. validate_tree_for_persistence sample_platform (\<lambda>_. Ok ''tree'') t' \<noteq> Ok json)"
proof -
  let ?n = "the (bt_get (rt_nodes sample_leased) child_id)"
  have n: "bt_get (rt_nodes sample_leased) child_id = Some ?n" "child_id \<noteq> rt_root_node_id sample_leased" "is_live ?n"
    "bt_get (rt_usage_receipts sample_leased) ''u1'' = None" "\<not> recorded_overrun sample_leased"
    "\<not> can_spend (rn_budget ?n) (units 15)" "within_tree_budget sample_leased (units 15) True"
    by code_simp+
  have "case completion_tree sample_platform sample_leased child_id ''l1'' ''u1'' True False (units 15) of
      Inr t \<Rightarrow> True | Inl e \<Rightarrow> False" by code_simp
  then obtain t' where "completion_tree sample_platform sample_leased child_id ''l1'' ''u1'' True False (units 15) = Ok t'"
    by (auto split: sum.splits)
  with child_overrun_unpersistable [OF sample_consistent(3) n(2,1,3-7)] show ?thesis by blast
qed

text \<open>Late usage for a child that was already settled and released is computed as an in-budget charge,
  but the tree it leaves is refused by validation, so the charge is lost.\<close>

lemma released_late_usage_refused:
  "(case completion_tree sample_platform sample_leased child_id ''l1'' ''u1'' True False (units 3) of
      Inr t \<Rightarrow> (case record_late_usage sample_platform t child_id ''u2'' (units 2) of
        Inr (b, t') \<Rightarrow> b \<and> validate_tree_for_persistence sample_platform (\<lambda>_. Ok ''tree'') t =  Ok ''tree'' \<and>
          validate_tree_for_persistence sample_platform (\<lambda>_. Ok ''tree'') t' =
            Err ''recursive tree aggregate budget is not conserved''
      | Inl _ \<Rightarrow> False)
    | Inl _ \<Rightarrow> False)"
  by code_simp

section \<open>The store\<close>

lemma persist_recursive_treeE:
  assumes "persist_recursive_tree pf sd db t now v = Ok db'"
  obtains json where "validate_tree_for_persistence pf (tree_to_json sd) t = Ok json" "tree_to_json sd t = Ok json"
    "case v of None \<Rightarrow> True | Some e \<Rightarrow> check_expected db (rt_root_run_id t) e = Ok ()"
    "check_workflow_binding pf sd db t = Ok ()"
    "db' = db\<lparr>recursive_execution_trees := hm_put (rt_root_run_id t) (tree_row_of db t json now) (recursive_execution_trees db),
       recursive_execution_nodes := index_nodes t now (recursive_execution_nodes db)\<rparr>"
proof -
  obtain json where v: "validate_tree_for_persistence pf (tree_to_json sd) t = Ok json"
    using assms by (auto simp: persist_recursive_tree_def persist_recursive_tree_inner_def bind_result_Ok_iff)
  moreover have "tree_to_json sd t = Ok json"
    using v by (auto simp: validate_tree_for_persistence_def closing_checks_def bind_result_Ok_iff split: option.splits)
  ultimately show ?thesis
    using assms by (intro that) (auto simp: persist_recursive_tree_def persist_recursive_tree_inner_def bind_result_Ok_iff
        split: option.splits)
qed

lemma binding_cong:
  assumes "workflow_runs db' = workflow_runs db" "workflow_run_nodes db' = workflow_run_nodes db"
  shows "check_workflow_binding pf sd db' t = check_workflow_binding pf sd db t"
  using assms by (simp add: check_workflow_binding_def)

text \<open>C27. What was persisted is what is loaded: once a tree has been written, reading its run back passes
  every identity, schema, binding and validation check and returns that tree, provided that serde reads
  back what it wrote.\<close>

theorem persist_load_roundtrip:
  assumes ok: "persist_recursive_tree pf sd db t now v = Ok db'"
    and serde: "\<And>s. tree_to_json sd t = Ok s \<Longrightarrow> tree_from_json sd s = Ok t"
    and limit: "rt_root_budget_limit t \<noteq> None"
  shows "load_recursive_tree pf sd db' (rt_root_run_id t) = Ok (Some t)"
proof (rule persist_recursive_treeE [OF ok])
  fix json
  assume v: "validate_tree_for_persistence pf (tree_to_json sd) t = Ok json" "tree_to_json sd t = Ok json"
    and b: "check_workflow_binding pf sd db t = Ok ()"
    and db': "db' = db\<lparr>recursive_execution_trees := hm_put (rt_root_run_id t) (tree_row_of db t json now) (recursive_execution_trees db),
       recursive_execution_nodes := index_nodes t now (recursive_execution_nodes db)\<rparr>"
  have "check_workflow_binding pf sd db' t = Ok ()" using b by (subst binding_cong) (simp_all add: db')
  moreover have "rt_schema_version t = RECURSIVE_SCHEMA_VERSION"
    using v(1) by (simp add: validate_tree_for_persistence_def)
  moreover have "normalize_loaded_tree t = t" using limit by (simp add: normalize_loaded_tree_def)
  moreover have "hm_get (recursive_execution_trees db') (rt_root_run_id t) = Some (tree_row_of db t json now)"
    by (simp add: db' map_laws)
  ultimately show ?thesis
    using v serde by (simp add: load_recursive_tree_def tree_row_of_def reject_if_def)
qed

theorem persist_load_roundtrip_witness:
  "\<exists>db'. persist_recursive_tree sample_platform (sample_serde (Ok sample_leased)) sample_db sample_leased ''now'' (Some 0) = Ok db' \<and>
     load_recursive_tree sample_platform (sample_serde (Ok sample_leased)) db' ''run'' = Ok (Some sample_leased)"
proof -
  obtain db' where db': "persist_recursive_tree sample_platform (sample_serde (Ok sample_leased)) sample_db sample_leased
      ''now'' (Some 0) = Ok db'" by (rule sample_persisted)
  have "tree_from_json (sample_serde (Ok sample_leased)) s = Ok sample_leased" for s by (simp add: sample_serde_def)
  moreover have "rt_root_budget_limit sample_leased \<noteq> None" "rt_root_run_id sample_leased = ''run''" by code_simp+
  ultimately show ?thesis using persist_load_roundtrip [OF db'] db' by metis
qed

lemma u64_as_i64_inj: "a \<le> u64_max \<Longrightarrow> b \<le> u64_max \<Longrightarrow> u64_as_i64 a = u64_as_i64 b \<longleftrightarrow> a = b"
  by (auto simp: u64_as_i64_def u64_max_def)

text \<open>C14. No update is lost: of two writers that started from the same version of a run's tree, once one has
  written a newer version the other one cannot write, and the trees of other runs and the workflow tables
  are untouched by the write.\<close>

theorem no_lost_update:
  assumes first: "persist_recursive_tree pf sd db t1 now (Some v) = Ok db1"
    and "rt_root_run_id t2 = rt_root_run_id t1" and "rt_version t1 \<noteq> v" and "rt_version t1 \<le> u64_max" and "v \<le> u64_max"
  shows "(\<forall>db2. persist_recursive_tree pf sd db1 t2 later (Some v) \<noteq> Ok db2) \<and>
    (\<forall>run. run \<noteq> rt_root_run_id t1 \<longrightarrow>
      hm_get (recursive_execution_trees db1) run = hm_get (recursive_execution_trees db) run) \<and>
    workflow_runs db1 = workflow_runs db \<and> workflow_run_nodes db1 = workflow_run_nodes db"
proof (rule persist_recursive_treeE [OF first])
  fix json
  assume db1: "db1 = db\<lparr>recursive_execution_trees := hm_put (rt_root_run_id t1) (tree_row_of db t1 json now) (recursive_execution_trees db),
       recursive_execution_nodes := index_nodes t1 now (recursive_execution_nodes db)\<rparr>"
  have "tw_version (tree_row_of db t1 json now) = u64_as_i64 (rt_version t1)" by (simp add: tree_row_of_def)
  then have "check_expected db1 (rt_root_run_id t2) v \<noteq> Ok ()"
    using u64_as_i64_inj [OF assms(4,5)] assms(2,3) by (auto simp: check_expected_def db1 map_laws Let_def split: if_splits)
  then have "persist_recursive_tree pf sd db1 t2 later (Some v) \<noteq> Ok db2" for db2
    by (auto elim: persist_recursive_treeE)
  then show ?thesis by (simp add: db1 map_laws)
qed

theorem no_lost_update_witness:
  "\<exists>db1. persist_recursive_tree sample_platform (sample_serde (Ok sample_leased)) sample_db sample_leased ''now'' (Some 0) = Ok db1 \<and>
     (\<forall>db2. persist_recursive_tree sample_platform (sample_serde (Ok sample_leased)) db1 sample_leased ''later'' (Some 0) \<noteq> Ok db2)"
proof -
  obtain db1 where db1: "persist_recursive_tree sample_platform (sample_serde (Ok sample_leased)) sample_db sample_leased
      ''now'' (Some 0) = Ok db1" by (rule sample_persisted)
  have "rt_version sample_leased = 3" by code_simp
  then have "rt_version sample_leased \<noteq> 0" "rt_version sample_leased \<le> u64_max" by (simp_all add: u64_max_def)
  with no_lost_update [OF db1 refl] db1 show ?thesis by blast
qed

end
