(* ===== verification/Concurrency_Controller.thy ===== *)
theory Concurrency_Controller
  imports Json_Value "HOL-Library.Multiset"
begin

text \<open>
  The concurrency controller of src/engine/src/workflow/concurrency: from the items that are ready, a
  batch that may run at the same time, given the dependencies of the DAG and the files that are claimed.
  An item is a JSON value, as in the source; identifiers and file lists are read from it.
\<close>

section \<open>Data\<close>

record file_overlap =
  item_a_id :: string
  item_b_id :: string
  overlap_files :: "string list"

record schedule_batch =
  scheduled_items :: "json list"
  blocked_items :: "json list"
  file_overlaps :: "file_overlap list"
  batch_warnings :: "string list"

definition default_batch :: schedule_batch where
  "default_batch = \<lparr>scheduled_items = [], blocked_items = [], file_overlaps = [], batch_warnings = []\<rparr>"

record cc_dag_node =
  ccn_node_id :: string
  ccn_task_id :: "string option"
  ccn_node_type :: string
  ccn_status :: string
  ccn_tier :: string
  ccn_metadata :: json

record cc_dag_edge =
  cce_edge_id :: string
  cce_from_node :: string
  cce_to_node :: string
  cce_dependency_type :: string
  cce_status :: string

record cc_dag_state =
  ccs_dag_id :: string
  ccs_version :: int
  ccs_nodes :: "cc_dag_node list"
  ccs_edges :: "cc_dag_edge list"
  ccs_created_at :: string
  ccs_updated_at :: string

definition default_cc_dag_state :: cc_dag_state where
  "default_cc_dag_state = \<lparr>ccs_dag_id = [], ccs_version = 0, ccs_nodes = [], ccs_edges = [],
     ccs_created_at = [], ccs_updated_at = []\<rparr>"

section \<open>Reading an item\<close>

text \<open>The first of the three keys that holds a non-empty string, else the item itself as a string.\<close>

definition item_id :: "json \<Rightarrow> string" where
  "item_id item =
     (case Option.bind (as_object item) (\<lambda>obj.
         List.find (\<lambda>v. v \<noteq> []) (List.map_filter (\<lambda>key. Option.bind (bt_get obj key) as_str)
           [''node_id'', ''task_id'', ''item_id''])) of
        Some v \<Rightarrow> v
      | None \<Rightarrow> unwrap_or (as_str item) [])"

definition item_ids :: "schedule_batch \<Rightarrow> string list" where
  "item_ids batch = map item_id (scheduled_items batch)"

definition item_metadata :: "json \<Rightarrow> json" where
  "item_metadata item = unwrap_or (Option.bind (as_object item) (\<lambda>obj. bt_get obj ''metadata'')) item"

definition read_files :: "json \<Rightarrow> string list" where
  "read_files item = sort (string_array (json_get (item_metadata item) ''read_files''))"

definition write_files :: "json \<Rightarrow> string list" where
  "write_files item = sort (string_array (json_get (item_metadata item) ''write_files''))"

definition conflicting_files :: "json \<Rightarrow> json \<Rightarrow> string list" where
  "conflicting_files a b =
     (let a_writes = set (write_files a); b_writes = set (write_files b);
          a_reads = set (read_files a); b_reads = set (read_files b)
      in sorted_list_of_set ({f \<in> a_writes. f \<in> b_writes \<or> f \<in> b_reads} \<union> {f \<in> b_writes. f \<in> a_reads}))"

section \<open>What blocks an item\<close>

definition edge_blocks :: "cc_dag_edge \<Rightarrow> json \<Rightarrow> (string, string) hash_map \<Rightarrow> bool" where
  "edge_blocks edge item node_status =
     (if cce_dependency_type edge = ''soft'' then False
      else if cce_status edge = ''satisfied'' then False
      else if cce_dependency_type edge = ''artifact'' then
        let verified = set (string_array (json_get (item_metadata item) ''verified_artifacts''))
        in cce_edge_id edge \<notin> verified \<and> cce_from_node edge \<notin> verified
      else hm_get node_status (cce_from_node edge) \<noteq> Some ''completed'')"

definition active_files :: "json list \<Rightarrow> string set" where
  "active_files active_claims = set (List.map_filter (\<lambda>claim.
     Option.bind (as_object claim) (\<lambda>obj.
       if unwrap_or (Option.bind (bt_get obj ''released'') as_bool) False then None
       else Option.bind (bt_get obj ''file_path'') as_str)) active_claims) - {[]}"

definition blocking_reason :: "json \<Rightarrow> cc_dag_state \<Rightarrow> json list \<Rightarrow> string option" where
  "blocking_reason item dag active_claims =
     (let id = item_id item;
          incoming = sort_key cce_edge_id (filter (\<lambda>e. cce_to_node e = id) (ccs_edges dag));
          node_status = fold (\<lambda>n. hm_put (ccn_node_id n) (ccn_status n)) (ccs_nodes dag) []
      in case List.find (\<lambda>edge. edge_blocks edge item node_status) incoming of
           Some edge \<Rightarrow> Some (id @ '' blocked by '' @ cce_dependency_type edge @ '' dependency '' @ cce_edge_id edge)
         | None \<Rightarrow>
             (case sorted_list_of_set (active_files active_claims \<inter> set (write_files item)) of
                first # _ \<Rightarrow> Some (id @ '' blocked by active write claim on '' @ first)
              | [] \<Rightarrow> None))"

section \<open>The controller\<close>

text \<open>A controller is its limit; the constructor panics below one.\<close>

record concurrency_controller =
  max_concurrent :: nat

definition default_controller :: concurrency_controller where
  "default_controller = \<lparr>max_concurrent = 4\<rparr>"

definition new_controller :: "nat \<Rightarrow> concurrency_controller option" where
  "new_controller limit = (if limit < 1 then None else Some \<lparr>max_concurrent = limit\<rparr>)"

fun overlap_pairs :: "json list \<Rightarrow> file_overlap list" where
  "overlap_pairs [] = []"
| "overlap_pairs (item_a # items) =
     List.map_filter (\<lambda>item_b. let files = conflicting_files item_a item_b
       in if files = [] then None
          else Some \<lparr>item_a_id = item_id item_a, item_b_id = item_id item_b, overlap_files = files\<rparr>) items @
     overlap_pairs items"

definition detect_file_overlaps :: "json list \<Rightarrow> file_overlap list" where
  "detect_file_overlaps items = overlap_pairs (sort_key item_id items)"

definition can_run_parallel :: "json \<Rightarrow> json \<Rightarrow> file_overlap list \<Rightarrow> bool" where
  "can_run_parallel item_a item_b overlaps =
     (let pair = sort [item_id item_a, item_id item_b]
      in \<not> list_ex (\<lambda>overlap. pair = sort [item_a_id overlap, item_b_id overlap]) overlaps)"

text \<open>The first loop splits off what is blocked; the second one fills the batch.\<close>

fun split_blocked :: "cc_dag_state \<Rightarrow> json list \<Rightarrow> json list \<Rightarrow> json list \<times> json list \<times> string list" where
  "split_blocked dag claims [] = ([], [], [])"
| "split_blocked dag claims (item # items) =
     (let (blocked, eligible, warnings) = split_blocked dag claims items
      in case blocking_reason item dag claims of
           Some reason \<Rightarrow> (item # blocked, eligible, reason # warnings)
         | None \<Rightarrow> (blocked, item # eligible, warnings))"

fun fill_batch :: "nat \<Rightarrow> file_overlap list \<Rightarrow> json list \<Rightarrow> schedule_batch \<Rightarrow> schedule_batch" where
  "fill_batch limit overlaps [] batch = batch"
| "fill_batch limit overlaps (item # items) batch =
     fill_batch limit overlaps items
       (if length (scheduled_items batch) \<ge> limit
        then batch\<lparr>batch_warnings := batch_warnings batch @ [item_id item @ '' exceeds max_concurrent''],
                   blocked_items := blocked_items batch @ [item]\<rparr>
        else if list_all (\<lambda>existing. can_run_parallel existing item overlaps) (scheduled_items batch)
        then batch\<lparr>scheduled_items := scheduled_items batch @ [item]\<rparr>
        else batch\<lparr>batch_warnings := batch_warnings batch @ [item_id item @ '' conflicts with scheduled file claims''],
                   blocked_items := blocked_items batch @ [item]\<rparr>)"

definition schedule :: "concurrency_controller \<Rightarrow> json list \<Rightarrow> cc_dag_state \<Rightarrow> json list \<Rightarrow> schedule_batch" where
  "schedule c ready_items dag active_claims =
     (if ready_items = [] then default_batch
      else
        let overlaps = detect_file_overlaps ready_items;
            (blocked, eligible, warnings) = split_blocked dag active_claims (sort_key item_id ready_items)
        in fill_batch (max_concurrent c) overlaps eligible
             \<lparr>scheduled_items = [], blocked_items = blocked, file_overlaps = overlaps, batch_warnings = warnings\<rparr>)"

section \<open>Conflicts\<close>

lemma conflicting_files_sym: "conflicting_files a b = conflicting_files b a"
  unfolding conflicting_files_def Let_def by (rule arg_cong [of _ _ sorted_list_of_set]) auto

lemma map_filter_memI: "x \<in> set xs \<Longrightarrow> f x = Some y \<Longrightarrow> y \<in> set (List.map_filter f xs)"
  by (induction xs) (auto simp: List.map_filter_def)

lemma overlap_pairs_complete:
  "i < j \<Longrightarrow> j < length items \<Longrightarrow> conflicting_files (items ! i) (items ! j) \<noteq> [] \<Longrightarrow>
   \<exists>o' \<in> set (overlap_pairs items). item_a_id o' = item_id (items ! i) \<and> item_b_id o' = item_id (items ! j)"
proof (induction items arbitrary: i j)
  case Nil
  then show ?case by simp
next
  case (Cons a items)
  obtain j' where j: "j = Suc j'" using Cons.prems(1) by (cases j) auto
  show ?case
  proof (cases i)
    case 0
    let ?o = "\<lparr>item_a_id = item_id a, item_b_id = item_id (items ! j'), overlap_files = conflicting_files a (items ! j')\<rparr>"
    have "conflicting_files a (items ! j') \<noteq> []" "items ! j' \<in> set items" using Cons.prems j 0 by auto
    then have "?o \<in> set (overlap_pairs (a # items))" by (auto intro!: map_filter_memI [of "items ! j'"])
    then show ?thesis using 0 j by (auto intro: bexI [of _ ?o])
  next
    case (Suc i')
    then have "\<exists>o' \<in> set (overlap_pairs items). item_a_id o' = item_id (items ! i') \<and> item_b_id o' = item_id (items ! j')"
      using Cons.IH [of i' j'] Cons.prems j by simp
    then show ?thesis using Suc j by auto
  qed
qed

lemma sort_pair: "sort [a, b] = sort [b, a :: 'a :: linorder]"
  by (simp add: insort_key_def) auto

text \<open>Two occurrences of items of the list that may run in parallel do not conflict.\<close>

lemma parallel_no_conflict:
  assumes "i < length items" "j < length items" "i \<noteq> j" "can_run_parallel (items ! i) (items ! j) (overlap_pairs items)"
  shows "conflicting_files (items ! i) (items ! j) = []"
proof (rule ccontr)
  assume c: "conflicting_files (items ! i) (items ! j) \<noteq> []"
  have "\<exists>o' \<in> set (overlap_pairs items). sort [item_a_id o', item_b_id o'] = sort [item_id (items ! i), item_id (items ! j)]"
  proof (cases "i < j")
    case True
    then show ?thesis using overlap_pairs_complete [OF True assms(2) c] by metis
  next
    case False
    then have "j < i" using assms(3) by simp
    from overlap_pairs_complete [OF this assms(1)] c conflicting_files_sym show ?thesis by (metis sort_pair)
  qed
  then show False using assms(4) by (auto simp: can_run_parallel_def Let_def list_ex_iff)
qed

section \<open>The two loops\<close>

lemma split_blocked_spec:
  "split_blocked dag claims items = (filter (\<lambda>i. blocking_reason i dag claims \<noteq> None) items,
     filter (\<lambda>i. blocking_reason i dag claims = None) items,
     List.map_filter (\<lambda>i. blocking_reason i dag claims) items)"
  by (induction items) (auto simp: List.map_filter_def split: option.splits)

text \<open>Choosing indices instead of items keeps equal items apart.\<close>

fun fill_indices :: "nat \<Rightarrow> (nat \<Rightarrow> nat \<Rightarrow> bool) \<Rightarrow> nat list \<Rightarrow> nat list \<Rightarrow> nat list" where
  "fill_indices limit ok [] chosen = chosen"
| "fill_indices limit ok (i # is) chosen = fill_indices limit ok is
     (if length chosen < limit \<and> list_all (\<lambda>j. ok j i) chosen then chosen @ [i] else chosen)"

lemma fill_batch_indices:
  "fill_batch limit ov (map f is) b = b' \<Longrightarrow> scheduled_items b = map f chosen \<Longrightarrow>
   scheduled_items b' = map f (fill_indices limit (\<lambda>j i. can_run_parallel (f j) (f i) ov) is chosen)"
  by (induction "is" arbitrary: b chosen) (auto simp: list_all_iff)

lemma fill_indices_spec:
  assumes "distinct (chosen @ is)" "length chosen \<le> limit" "\<forall>i \<in> set chosen. \<forall>j \<in> set chosen. i \<noteq> j \<longrightarrow> ok i j \<or> ok j i"
  shows "distinct (fill_indices limit ok is chosen) \<and> set (fill_indices limit ok is chosen) \<subseteq> set chosen \<union> set is \<and>
    set chosen \<subseteq> set (fill_indices limit ok is chosen) \<and>
    length (fill_indices limit ok is chosen) \<le> limit \<and>
    (\<forall>i \<in> set (fill_indices limit ok is chosen). \<forall>j \<in> set (fill_indices limit ok is chosen). i \<noteq> j \<longrightarrow> ok i j \<or> ok j i) \<and>
    (length (fill_indices limit ok is chosen) < limit \<longrightarrow> (\<forall>i \<in> set is. i \<in> set (fill_indices limit ok is chosen) \<or>
       (\<exists>j \<in> set (fill_indices limit ok is chosen). \<not> ok j i)))"
  using assms
proof (induction "is" arbitrary: chosen)
  case Nil
  then show ?case by simp
next
  case (Cons i "is")
  show ?case
  proof (cases "length chosen < limit \<and> list_all (\<lambda>j. ok j i) chosen")
    case True
    have "distinct ((chosen @ [i]) @ is)" "length (chosen @ [i]) \<le> limit"
      "\<forall>x \<in> set (chosen @ [i]). \<forall>y \<in> set (chosen @ [i]). x \<noteq> y \<longrightarrow> ok x y \<or> ok y x"
      using Cons.prems True by (auto simp: list_all_iff)
    from Cons.IH [OF this] True show ?thesis by auto
  next
    case False
    have "distinct (chosen @ is)" using Cons.prems(1) by auto
    note IH = Cons.IH [OF this Cons.prems(2,3)]
    have "\<exists>j \<in> set (fill_indices limit ok is chosen). \<not> ok j i" if "length (fill_indices limit ok is chosen) < limit"
    proof -
      have "card (set chosen) \<le> card (set (fill_indices limit ok is chosen))" using IH by (intro card_mono) auto
      then have "length chosen \<le> length (fill_indices limit ok is chosen)"
        using IH Cons.prems(1) by (simp add: distinct_card)
      then have "\<not> list_all (\<lambda>j. ok j i) chosen" using False that by auto
      then show ?thesis using IH by (auto simp: list_all_iff)
    qed
    then show ?thesis using False IH by auto
  qed
qed

text \<open>What an unblocked item may rely on.\<close>

definition unblocked :: "cc_dag_state \<Rightarrow> json list \<Rightarrow> json \<Rightarrow> bool" where
  "unblocked dag claims item \<longleftrightarrow>
     (\<forall>e \<in> set (ccs_edges dag). cce_to_node e = item_id item \<longrightarrow>
        \<not> edge_blocks e item (fold (\<lambda>n. hm_put (ccn_node_id n) (ccn_status n)) (ccs_nodes dag) [])) \<and>
     active_files claims \<inter> set (write_files item) = {}"

lemma blocking_reason_iff: "blocking_reason item dag claims = None \<longleftrightarrow> unblocked dag claims item"
proof -
  have fin: "finite (active_files claims \<inter> set (write_files item))" by simp
  have "(case sorted_list_of_set (active_files claims \<inter> set (write_files item)) of
      first # _ \<Rightarrow> Some (w first) | [] \<Rightarrow> None) = None \<longleftrightarrow> active_files claims \<inter> set (write_files item) = {}" for w :: "string \<Rightarrow> string"
    using sorted_list_of_set_eq_Nil_iff [OF fin] by (auto split: list.splits)
  note claim = this
  let ?st = "fold (\<lambda>n. hm_put (ccn_node_id n) (ccn_status n)) (ccs_nodes dag) []"
  let ?found = "List.find (\<lambda>edge. edge_blocks edge item ?st)
    (sort_key cce_edge_id (filter (\<lambda>e. cce_to_node e = item_id item) (ccs_edges dag)))"
  have "?found = None \<longleftrightarrow> (\<forall>e \<in> set (ccs_edges dag). cce_to_node e = item_id item \<longrightarrow> \<not> edge_blocks e item ?st)"
    by (auto simp: find_None_iff)
  then show ?thesis by (cases ?found) (simp_all add: blocking_reason_def unblocked_def claim)
qed

text \<open>The batch as a choice of positions in the sorted list of ready items.\<close>

lemma fill_batch_counts:
  "mset (scheduled_items (fill_batch limit ov items b)) + mset (blocked_items (fill_batch limit ov items b)) =
     mset (scheduled_items b) + mset (blocked_items b) + mset items \<and>
   length (batch_warnings (fill_batch limit ov items b)) + length (blocked_items b) =
     length (batch_warnings b) + length (blocked_items (fill_batch limit ov items b))"
  by (induction limit ov items b rule: fill_batch.induct) (auto simp: Let_def)

lemma filter_nth_upt: "filter P xs = map ((!) xs) (filter (\<lambda>i. P (xs ! i)) [0..<length xs])"
proof -
  have "filter P xs = filter P (map ((!) xs) [0..<length xs])" by (simp only: map_nth)
  then show ?thesis by (simp add: filter_map comp_def)
qed

lemma scheduleE:
  assumes b: "b = schedule c ready dag claims"
  obtains items chosen where "items = sort_key item_id ready" "scheduled_items b = map ((!) items) chosen" "distinct chosen"
    "set chosen \<subseteq> {i. i < length items \<and> unblocked dag claims (items ! i)}" "length chosen \<le> max_concurrent c"
    "\<And>i j. i \<in> set chosen \<Longrightarrow> j \<in> set chosen \<Longrightarrow> i \<noteq> j \<Longrightarrow> can_run_parallel (items ! i) (items ! j) (detect_file_overlaps ready)"
    "\<And>i. length chosen < max_concurrent c \<Longrightarrow> i < length items \<Longrightarrow> unblocked dag claims (items ! i) \<Longrightarrow>
       i \<in> set chosen \<or> (\<exists>j \<in> set chosen. \<not> can_run_parallel (items ! j) (items ! i) (detect_file_overlaps ready))"
proof -
  define items where "items = sort_key item_id ready"
  define elig where "elig = filter (\<lambda>i. unblocked dag claims (items ! i)) [0..<length items]"
  let ?ov = "detect_file_overlaps ready"
  let ?ok = "\<lambda>j i. can_run_parallel (items ! j) (items ! i) ?ov"
  define chosen where "chosen = fill_indices (max_concurrent c) ?ok elig []"
  have eligible: "filter (\<lambda>i. blocking_reason i dag claims = None) items = map ((!) items) elig"
    unfolding elig_def blocking_reason_iff by (rule filter_nth_upt)
  have sym: "can_run_parallel x y ov = can_run_parallel y x ov" for x y ov
    by (simp only: can_run_parallel_def sort_pair [of "item_id x" "item_id y"])
  have spec: "distinct chosen \<and> set chosen \<subseteq> set [] \<union> set elig \<and> set [] \<subseteq> set chosen \<and> length chosen \<le> max_concurrent c \<and>
    (\<forall>i \<in> set chosen. \<forall>j \<in> set chosen. i \<noteq> j \<longrightarrow> ?ok i j \<or> ?ok j i) \<and>
    (length chosen < max_concurrent c \<longrightarrow> (\<forall>i \<in> set elig. i \<in> set chosen \<or> (\<exists>j \<in> set chosen. \<not> ?ok j i)))"
    unfolding chosen_def by (rule fill_indices_spec) (simp_all add: elig_def)
  have "scheduled_items b = map ((!) items) chosen"
  proof (cases "ready = []")
    case True
    then show ?thesis by (simp add: b schedule_def default_batch_def chosen_def elig_def items_def)
  next
    case False
    have "b = fill_batch (max_concurrent c) ?ov (map ((!) items) elig)
       \<lparr>scheduled_items = [], blocked_items = filter (\<lambda>i. blocking_reason i dag claims \<noteq> None) items, file_overlaps = ?ov,
        batch_warnings = List.map_filter (\<lambda>i. blocking_reason i dag claims) items\<rparr>"
      using False by (simp add: b schedule_def split_blocked_spec eligible items_def [symmetric] Let_def)
    from fill_batch_indices [OF this [symmetric], of "[]"] show ?thesis by (simp add: chosen_def)
  qed
  then show ?thesis
    using spec sym by (intro that [OF items_def]) (auto simp: elig_def)
qed


text \<open>Two items that share a file.\<close>

definition writer :: json where
  "writer = JObject [(''metadata'', JObject [(''write_files'', JArray [JString ''shared''])]), (''node_id'', JString ''a'')]"

definition reader :: json where
  "reader = JObject [(''metadata'', JObject [(''read_files'', JArray [JString ''shared''])]), (''node_id'', JString ''b'')]"

section \<open>Theorems\<close>

text \<open>C6. A batch is safe to run: it holds at most the limit of items, each of them is a ready item whose
  dependencies are satisfied and whose written files nobody has claimed, and no two of them touch a file
  that one of them writes. Nothing is lost: every ready item is either scheduled or blocked, and each
  blocked item comes with a warning.\<close>

theorem schedule_safe:
  assumes b: "b = schedule c ready dag claims"
  shows "length (scheduled_items b) \<le> max_concurrent c \<and>
    mset (scheduled_items b) + mset (blocked_items b) = mset ready \<and>
    length (batch_warnings b) = length (blocked_items b) \<and>
    (\<forall>item \<in> set (scheduled_items b). unblocked dag claims item) \<and>
    (\<forall>p q. p < length (scheduled_items b) \<longrightarrow> q < length (scheduled_items b) \<longrightarrow> p \<noteq> q \<longrightarrow>
       conflicting_files (scheduled_items b ! p) (scheduled_items b ! q) = [])"
proof (rule scheduleE [OF b])
  fix items chosen
  assume items: "items = sort_key item_id ready" and sched: "scheduled_items b = map ((!) items) chosen"
    and dist: "distinct chosen" and sub: "set chosen \<subseteq> {i. i < length items \<and> unblocked dag claims (items ! i)}"
    and len: "length chosen \<le> max_concurrent c"
    and par: "\<And>i j. i \<in> set chosen \<Longrightarrow> j \<in> set chosen \<Longrightarrow> i \<noteq> j \<Longrightarrow>
      can_run_parallel (items ! i) (items ! j) (detect_file_overlaps ready)"
  have "conflicting_files (items ! (chosen ! p)) (items ! (chosen ! q)) = []"
    if "p < length chosen" "q < length chosen" "p \<noteq> q" for p q
  proof (rule parallel_no_conflict)
    have in_chosen: "chosen ! p \<in> set chosen" "chosen ! q \<in> set chosen" using that by simp_all
    then show "chosen ! p < length items" "chosen ! q < length items" using sub by blast+
    show ne: "chosen ! p \<noteq> chosen ! q" using dist that by (simp add: nth_eq_iff_index_eq)
    show "can_run_parallel (items ! (chosen ! p)) (items ! (chosen ! q)) (overlap_pairs items)"
      using par [OF in_chosen ne] by (simp add: detect_file_overlaps_def items)
  qed
  moreover have "mset (scheduled_items b) + mset (blocked_items b) = mset ready \<and>
      length (batch_warnings b) = length (blocked_items b)"
  proof -
    have "length (List.map_filter f xs) = length (filter (\<lambda>x. f x \<noteq> None) xs)" for f :: "json \<Rightarrow> string option" and xs
      by (simp add: List.map_filter_def)
    moreover have "mset (filter P xs) + mset (filter (\<lambda>x. \<not> P x) xs) = mset xs" for P and xs :: "json list"
      by (induction xs) auto
    moreover define b0 where "b0 = \<lparr>scheduled_items = [],
        blocked_items = filter (\<lambda>i. blocking_reason i dag claims \<noteq> None) items,
        file_overlaps = detect_file_overlaps ready, batch_warnings = List.map_filter (\<lambda>i. blocking_reason i dag claims) items\<rparr>"
    moreover have "b = fill_batch (max_concurrent c) (detect_file_overlaps ready)
        (filter (\<lambda>i. blocking_reason i dag claims = None) items) b0" if "ready \<noteq> []"
      using that by (simp add: b schedule_def split_blocked_spec Let_def items b0_def)
    ultimately show ?thesis
      using fill_batch_counts [of "max_concurrent c" "detect_file_overlaps ready"
          "filter (\<lambda>i. blocking_reason i dag claims = None) items" b0]
      by (cases "ready = []") (auto simp: b schedule_def default_batch_def items union_commute)
  qed
  moreover have "\<forall>item \<in> set (scheduled_items b). unblocked dag claims item" using sub by (auto simp: sched)
  ultimately show ?thesis using len by (simp add: sched)
qed

theorem schedule_safe_witness:
  "item_ids (schedule default_controller [writer, reader] default_cc_dag_state []) = [''a''] \<and>
   mset (scheduled_items (schedule default_controller [writer, reader] default_cc_dag_state [])) +
     mset (blocked_items (schedule default_controller [writer, reader] default_cc_dag_state [])) = mset [writer, reader]"
proof -
  have "item_ids (schedule default_controller [writer, reader] default_cc_dag_state []) = [''a'']" by code_simp
  with schedule_safe [OF refl, of default_controller "[writer, reader]" default_cc_dag_state "[]"] show ?thesis by blast
qed

text \<open>C28. The batch is maximal: while the limit is not reached, every ready item that is not blocked is
  scheduled unless it overlaps with a scheduled item, and a positive limit with an unblocked item never
  gives an empty batch.\<close>

theorem schedule_maximal:
  assumes b: "b = schedule c ready dag claims" and item: "item \<in> set ready" and free: "unblocked dag claims item"
  shows "(length (scheduled_items b) < max_concurrent c \<longrightarrow> item \<in> set (scheduled_items b) \<or>
      (\<exists>s \<in> set (scheduled_items b). \<not> can_run_parallel s item (detect_file_overlaps ready))) \<and>
    (0 < max_concurrent c \<longrightarrow> scheduled_items b \<noteq> [])"
proof (rule scheduleE [OF b])
  fix items chosen
  assume items: "items = sort_key item_id ready" and sched: "scheduled_items b = map ((!) items) chosen"
    and max: "\<And>i. length chosen < max_concurrent c \<Longrightarrow> i < length items \<Longrightarrow> unblocked dag claims (items ! i) \<Longrightarrow>
       i \<in> set chosen \<or> (\<exists>j \<in> set chosen. \<not> can_run_parallel (items ! j) (items ! i) (detect_file_overlaps ready))"
  obtain i where i: "i < length items" "items ! i = item"
    using item by (metis in_set_conv_nth items set_sort)
  have "item \<in> set (scheduled_items b) \<or>
      (\<exists>s \<in> set (scheduled_items b). \<not> can_run_parallel s item (detect_file_overlaps ready))"
    if "length (scheduled_items b) < max_concurrent c"
    using max [OF _ i(1)] that free i by (auto simp: sched)
  then show ?thesis by fastforce
qed

theorem schedule_maximal_witness:
  "scheduled_items (schedule default_controller [writer, reader] default_cc_dag_state []) \<noteq> []"
proof -
  have "unblocked default_cc_dag_state [] writer"
    by (simp add: unblocked_def default_cc_dag_state_def active_files_def List.map_filter_def)
  from schedule_maximal [OF refl _ this, of "[writer, reader]" default_controller] show ?thesis
    by (simp add: default_controller_def)
qed

end
