(* ===== verification/Circuit_Breaker.thy ===== *)
theory Circuit_Breaker
  imports Harness_Prelude
begin

text \<open>
  The circuit breaker of src/engine/src/infrastructure/circuit_breaker.rs and its two clients: the
  breaker's own \<^verbatim>\<open>call\<close>, and \<^verbatim>\<open>invoke\<close> of the wrapper in src/engine/src/provider/circuit_breaker_provider.rs.

  The atomics and the mutex of the source are the fields of one record. Time is an argument: an
  \<^verbatim>\<open>Instant\<close> is a \<open>nat\<close> of nanoseconds. Calls of several threads overlap, so a call is split at the
  point where the protected operation runs: \<open>cb_enter\<close> before it, \<open>record_success\<close> or \<open>record_failure\<close>
  after it, and a history is any sequence of these steps. One step is taken to be indivisible.
\<close>

section \<open>Data\<close>

datatype circuit_state = Closed | Open | HalfOpen

fun as_u8 :: "circuit_state \<Rightarrow> nat" where
  "as_u8 Closed = 0"
| "as_u8 Open = 1"
| "as_u8 HalfOpen = 2"

definition from_u8 :: "nat \<Rightarrow> circuit_state" where
  "from_u8 v = (if v = 0 then Closed else if v = 1 then Open else if v = 2 then HalfOpen else Closed)"

datatype 'e circuit_breaker_error = CircuitOpen | Inner 'e

record circuit_breaker =
  cb_name :: string
  cb_state :: nat
  failure_count :: nat
  success_count :: nat
  total_calls :: nat
  failure_threshold :: nat
  recovery_timeout_ms :: nat
  last_failure_at :: "nat option"
  consecutive_successes :: nat

definition new_breaker :: "string \<Rightarrow> nat \<Rightarrow> nat \<Rightarrow> circuit_breaker" where
  "new_breaker name threshold timeout =
     \<lparr>cb_name = name, cb_state = as_u8 Closed, failure_count = 0, success_count = 0, total_calls = 0,
      failure_threshold = threshold, recovery_timeout_ms = timeout, last_failure_at = None,
      consecutive_successes = 0\<rparr>"

section \<open>Operations\<close>

definition breaker_state :: "circuit_breaker \<Rightarrow> circuit_state" where
  "breaker_state b = from_u8 (cb_state b)"

definition transition_to :: "circuit_state \<Rightarrow> circuit_breaker \<Rightarrow> circuit_breaker" where
  "transition_to s b = b\<lparr>cb_state := as_u8 s\<rparr>"

text \<open>
  \<^verbatim>\<open>t.elapsed().as_millis() as u64\<close> at the instant \<open>now\<close>: zero when \<open>t\<close> is later, whole milliseconds,
  cut to 64 bits.
\<close>

definition elapsed_ms :: "nat \<Rightarrow> nat \<Rightarrow> nat" where
  "elapsed_ms now t = ((now - t) div 1000000) mod 2 ^ 64"

definition should_try_reset :: "nat \<Rightarrow> circuit_breaker \<Rightarrow> bool" where
  "should_try_reset now b =
     (case last_failure_at b of
        Some t \<Rightarrow> recovery_timeout_ms b \<le> elapsed_ms now t
      | None \<Rightarrow> True)"

definition record_call :: "circuit_breaker \<Rightarrow> circuit_breaker" where
  "record_call b = b\<lparr>total_calls := inc_u64 (total_calls b)\<rparr>"

definition record_success :: "circuit_breaker \<Rightarrow> circuit_breaker" where
  "record_success b =
     (let b1 = b\<lparr>success_count := inc_u64 (success_count b), failure_count := 0\<rparr> in
      case breaker_state b1 of
        HalfOpen \<Rightarrow>
          let consec = inc_u64 (consecutive_successes b1);
              b2 = b1\<lparr>consecutive_successes := consec\<rparr>
          in if 2 \<le> consec then (transition_to Closed b2)\<lparr>consecutive_successes := 0\<rparr> else b2
      | Closed \<Rightarrow> b1
      | Open \<Rightarrow> b1)"

definition record_failure :: "nat \<Rightarrow> circuit_breaker \<Rightarrow> circuit_breaker" where
  "record_failure now b =
     (let count = inc_u64 (failure_count b);
          b1 = b\<lparr>failure_count := count, success_count := 0, last_failure_at := Some now\<rparr> in
      case breaker_state b1 of
        Closed \<Rightarrow> if failure_threshold b1 \<le> count then transition_to Open b1 else b1
      | HalfOpen \<Rightarrow> (transition_to Open b1)\<lparr>consecutive_successes := 0\<rparr>
      | Open \<Rightarrow> b1)"

definition reset_breaker :: "circuit_breaker \<Rightarrow> circuit_breaker" where
  "reset_breaker b =
     (transition_to Closed b)\<lparr>failure_count := 0, success_count := 0, consecutive_successes := 0,
        last_failure_at := None\<rparr>"

text \<open>The check before the protected operation: \<open>None\<close> when the call is refused.\<close>

definition cb_enter :: "nat \<Rightarrow> circuit_breaker \<Rightarrow> circuit_breaker option" where
  "cb_enter now b =
     (case breaker_state b of
        Open \<Rightarrow> if should_try_reset now b then Some (record_call (transition_to HalfOpen b)) else None
      | HalfOpen \<Rightarrow> Some (record_call b)
      | Closed \<Rightarrow> Some (record_call b))"

definition cb_finish :: "nat \<Rightarrow> ('e, 'a) result \<Rightarrow> circuit_breaker \<Rightarrow> circuit_breaker" where
  "cb_finish now r b = (case r of Inr _ \<Rightarrow> record_success b | Inl _ \<Rightarrow> record_failure now b)"

text \<open>
  A call that no other overlaps: it enters at \<open>now\<close>, and the closure returns \<open>r\<close> at \<open>fin\<close>.
\<close>

definition cb_call ::
  "nat \<Rightarrow> nat \<Rightarrow> ('e, 'a) result \<Rightarrow> circuit_breaker \<Rightarrow>
     ('e circuit_breaker_error, 'a) result \<times> circuit_breaker" where
  "cb_call now fin r b =
     (case cb_enter now b of
        None \<Rightarrow> (Err CircuitOpen, b)
      | Some b1 \<Rightarrow>
          (case r of
             Inr v \<Rightarrow> (Ok v, record_success b1)
           | Inl e \<Rightarrow> (Err (Inner e), record_failure fin b1)))"

record provider_error =
  pe_schema_version :: string
  pe_provider_id :: string
  pe_error_domain :: string
  pe_message :: string
  pe_retryable :: bool

definition circuit_open_error :: "string \<Rightarrow> provider_error" where
  "circuit_open_error provider_id =
     \<lparr>pe_schema_version = ''provider_error.v1'', pe_provider_id = provider_id,
      pe_error_domain = ''provider_circuit_open'',
      pe_message = ''circuit breaker is open; provider calls are temporarily blocked'',
      pe_retryable = False\<rparr>"

definition provider_invoke ::
  "string \<Rightarrow> nat \<Rightarrow> nat \<Rightarrow> (provider_error, 'a) result \<Rightarrow> circuit_breaker \<Rightarrow>
     (provider_error, 'a) result \<times> circuit_breaker" where
  "provider_invoke provider_id now fin r b =
     (let proceed = (\<lambda>b0. case r of
                        Inr v \<Rightarrow> (Ok v, record_success (record_call b0))
                      | Inl e \<Rightarrow> (Err e, record_failure fin (record_call b0))) in
      case breaker_state b of
        Open \<Rightarrow>
          if \<not> should_try_reset now b then (Err (circuit_open_error provider_id), b)
          else proceed (transition_to HalfOpen b)
      | HalfOpen \<Rightarrow> proceed b
      | Closed \<Rightarrow> proceed b)"

section \<open>Status reporting\<close>

record circuit_breaker_snapshot =
  snap_name :: string
  snap_state :: circuit_state
  snap_failure_count :: nat
  snap_success_count :: nat
  snap_total_calls :: nat
  snap_failure_threshold :: nat
  snap_recovery_timeout_ms :: nat
  snap_last_failure_at :: "string option"
  snap_consecutive_successes :: nat

text \<open>
  \<open>secs\<close> renders a duration, given in nanoseconds, as seconds with one digit after the point
  (\<^verbatim>\<open>{:.1}\<close> of \<^verbatim>\<open>as_secs_f64\<close>).
\<close>

definition cb_snapshot :: "(nat \<Rightarrow> string) \<Rightarrow> nat \<Rightarrow> circuit_breaker \<Rightarrow> circuit_breaker_snapshot" where
  "cb_snapshot secs now b =
     \<lparr>snap_name = cb_name b, snap_state = breaker_state b, snap_failure_count = failure_count b,
      snap_success_count = success_count b, snap_total_calls = total_calls b,
      snap_failure_threshold = failure_threshold b, snap_recovery_timeout_ms = recovery_timeout_ms b,
      snap_last_failure_at = map_option (\<lambda>t. secs (now - t) @ ''s ago'') (last_failure_at b),
      snap_consecutive_successes = consecutive_successes b\<rparr>"

type_synonym circuit_breaker_registry = "circuit_breaker list"

definition register_breaker :: "circuit_breaker \<Rightarrow> circuit_breaker_registry \<Rightarrow> circuit_breaker_registry" where
  "register_breaker b reg = reg @ [b]"

definition registry_snapshots ::
  "(nat \<Rightarrow> string) \<Rightarrow> nat \<Rightarrow> circuit_breaker_registry \<Rightarrow> circuit_breaker_snapshot list" where
  "registry_snapshots secs now reg = map (cb_snapshot secs now) reg"

section \<open>Invariant\<close>

text \<open>
  The stored byte is the code of a state; a closed breaker has counted fewer failures than its
  threshold; an open one knows its last failure; successes are only counted in the half-open state,
  and at most one of them.
\<close>

definition breaker_inv :: "circuit_breaker \<Rightarrow> bool" where
  "breaker_inv b \<longleftrightarrow>
     as_u8 (breaker_state b) = cb_state b \<and>
     failure_threshold b \<le> u64_max \<and> recovery_timeout_ms b \<le> u64_max \<and>
     failure_count b \<le> u64_max \<and> success_count b \<le> u64_max \<and> total_calls b \<le> u64_max \<and>
     (breaker_state b = Closed \<longrightarrow> failure_count b < max 1 (failure_threshold b)) \<and>
     (breaker_state b = Open \<longrightarrow> last_failure_at b \<noteq> None) \<and>
     consecutive_successes b \<le> (if breaker_state b = HalfOpen then 1 else 0)"

lemma from_as_u8 [simp]: "from_u8 (as_u8 s) = s"
  by (cases s) (simp_all add: from_u8_def)

lemma breaker_state_simps [simp]:
  "breaker_state (transition_to s b) = s"
  "breaker_state (b\<lparr>failure_count := n\<rparr>) = breaker_state b"
  "breaker_state (b\<lparr>success_count := n\<rparr>) = breaker_state b"
  "breaker_state (b\<lparr>total_calls := n\<rparr>) = breaker_state b"
  "breaker_state (b\<lparr>consecutive_successes := n\<rparr>) = breaker_state b"
  "breaker_state (b\<lparr>last_failure_at := w\<rparr>) = breaker_state b"
  "breaker_state (record_call b) = breaker_state b"
  by (simp_all add: breaker_state_def transition_to_def record_call_def)

lemma transition_to_fields [simp]:
  "cb_state (transition_to s b) = as_u8 s"
  "failure_count (transition_to s b) = failure_count b"
  "success_count (transition_to s b) = success_count b"
  "total_calls (transition_to s b) = total_calls b"
  "failure_threshold (transition_to s b) = failure_threshold b"
  "recovery_timeout_ms (transition_to s b) = recovery_timeout_ms b"
  "last_failure_at (transition_to s b) = last_failure_at b"
  "consecutive_successes (transition_to s b) = consecutive_successes b"
  by (simp_all add: transition_to_def)

lemma record_call_fields [simp]:
  "cb_state (record_call b) = cb_state b"
  "failure_count (record_call b) = failure_count b"
  "success_count (record_call b) = success_count b"
  "failure_threshold (record_call b) = failure_threshold b"
  "recovery_timeout_ms (record_call b) = recovery_timeout_ms b"
  "last_failure_at (record_call b) = last_failure_at b"
  "consecutive_successes (record_call b) = consecutive_successes b"
  "total_calls (record_call b) = inc_u64 (total_calls b)"
  by (simp_all add: record_call_def)

lemma inc_u64_exact: "v < u64_max \<Longrightarrow> inc_u64 v = Suc v"
  by (simp add: inc_u64_def u64_max_def)

lemma inc_u64_small: "v \<le> 1 \<Longrightarrow> inc_u64 v = Suc v"
  by (simp add: inc_u64_def)

lemma inv_new: "\<lbrakk>threshold \<le> u64_max; timeout \<le> u64_max\<rbrakk> \<Longrightarrow> breaker_inv (new_breaker name threshold timeout)"
  by (simp add: breaker_inv_def new_breaker_def breaker_state_def from_u8_def)

lemma inv_record_call: "breaker_inv b \<Longrightarrow> breaker_inv (record_call b)"
  by (simp add: breaker_inv_def)

lemma inv_record_success: "breaker_inv b \<Longrightarrow> breaker_inv (record_success b)"
  by (auto simp: breaker_inv_def record_success_def Let_def inc_u64_small split: circuit_state.split)

lemma inv_record_failure: "breaker_inv b \<Longrightarrow> breaker_inv (record_failure now b)"
  by (auto simp: breaker_inv_def record_failure_def Let_def not_le split: circuit_state.split)

lemma inv_enter: "\<lbrakk>breaker_inv b; cb_enter now b = Some b'\<rbrakk> \<Longrightarrow> breaker_inv b'"
  by (auto simp: breaker_inv_def cb_enter_def split: circuit_state.splits if_splits)



section \<open>Histories\<close>

datatype cb_event = Enter nat | Succeed | Fail nat | Reset

fun cb_apply :: "cb_event \<Rightarrow> circuit_breaker \<Rightarrow> circuit_breaker" where
  "cb_apply (Enter now) b = (case cb_enter now b of Some b1 \<Rightarrow> b1 | None \<Rightarrow> b)"
| "cb_apply Succeed b = record_success b"
| "cb_apply (Fail now) b = record_failure now b"
| "cb_apply Reset b = reset_breaker b"



text \<open>
  An event that cannot end the window that a failure at \<open>t\<close> opened: no reset, no attempt to enter
  after the window of \<open>w\<close> milliseconds, no failure recorded before \<open>t\<close>.
\<close>

fun in_window :: "nat \<Rightarrow> nat \<Rightarrow> cb_event \<Rightarrow> bool" where
  "in_window t w (Enter now) \<longleftrightarrow> (now - t) div 1000000 < w"
| "in_window t w Succeed \<longleftrightarrow> True"
| "in_window t w (Fail now) \<longleftrightarrow> t \<le> now"
| "in_window t w Reset \<longleftrightarrow> False"

definition tripped :: "nat \<Rightarrow> nat \<Rightarrow> nat \<Rightarrow> circuit_breaker \<Rightarrow> bool" where
  "tripped t w n b \<longleftrightarrow>
     breaker_state b = Open \<and> recovery_timeout_ms b = w \<and> total_calls b = n \<and>
     (\<exists>t'. last_failure_at b = Some t' \<and> t \<le> t')"

lemma elapsed_ms_mono: "t \<le> t' \<Longrightarrow> elapsed_ms now t' \<le> (now - t) div 1000000"
  unfolding elapsed_ms_def by (rule order_trans [OF mod_less_eq_dividend div_le_mono]) simp

lemma tripped_refuses:
  assumes "tripped t w n b" and "(now - t) div 1000000 < w"
  shows "cb_enter now b = None"
  using assms elapsed_ms_mono [of t _ now]
  by (fastforce simp: tripped_def cb_enter_def should_try_reset_def)

lemma tripped_apply: "\<lbrakk>tripped t w n b; in_window t w e\<rbrakk> \<Longrightarrow> tripped t w n (cb_apply e b)"
  by (cases e) (auto simp: tripped_refuses, auto simp: tripped_def record_success_def record_failure_def Let_def)

lemma tripped_history:
  "\<lbrakk>tripped t w n b; list_all (in_window t w) es\<rbrakk> \<Longrightarrow> tripped t w n (fold cb_apply es b)"
  by (induction es arbitrary: b) (simp_all add: tripped_apply)

lemma half_open_enter:
  assumes "breaker_state b = HalfOpen"
  shows "cb_enter now b = Some (record_call b)"
  using assms by (simp add: cb_enter_def)

text \<open>In the half-open state every attempt is let through, not one probe only.\<close>

lemma half_open_admits_every_call:
  "breaker_state b = HalfOpen \<Longrightarrow>
     fold cb_apply (map Enter ts) b = (record_call ^^ length ts) b \<and>
     breaker_state (fold cb_apply (map Enter ts) b) = HalfOpen"
proof (induction ts arbitrary: b)
  case (Cons t ts)
  then show ?case
    using Cons.IH [of "record_call b"] by (simp add: half_open_enter funpow_swap1)
qed simp

section \<open>The clients\<close>

text \<open>
  What both clients promise: a refused attempt leaves the breaker alone and reports the refusal, an
  admitted one passes the outcome on and records it.
\<close>

locale breaker_client =
  fixes run :: "nat \<Rightarrow> nat \<Rightarrow> ('e, 'a) result \<Rightarrow> circuit_breaker \<Rightarrow> ('f, 'a) result \<times> circuit_breaker"
    and refusal :: 'f
    and wrap :: "'e \<Rightarrow> 'f"
  assumes refused: "cb_enter now b = None \<Longrightarrow> run now fin r b = (Err refusal, b)"
    and admitted: "cb_enter now b = Some b1 \<Longrightarrow> run now fin r b = (map_sum wrap id r, cb_finish fin r b1)"
begin

lemma run_inv: "breaker_inv b \<Longrightarrow> breaker_inv (snd (run now fin r b))"
  by (cases "cb_enter now b")
    (auto simp: refused admitted cb_finish_def split: sum.split
      intro: inv_record_success inv_record_failure dest: inv_enter)

lemma run_closed_failure:
  assumes "breaker_inv b" and "breaker_state b = Closed" and "\<not> is_Ok r"
  shows "breaker_state (snd (run now fin r b)) =
           (if failure_threshold b \<le> Suc (failure_count b) then Open else Closed)"
    and "failure_count (snd (run now fin r b)) = Suc (failure_count b)"
    and "failure_threshold (snd (run now fin r b)) = failure_threshold b"
proof -
  have enter: "cb_enter now b = Some (record_call b)"
    using assms(2) by (simp add: cb_enter_def)
  have small: "inc_u64 (failure_count b) = Suc (failure_count b)"
    using assms(1,2) by (auto simp: breaker_inv_def u64_max_def intro!: inc_u64_exact)
  obtain e where r: "r = Err e" using assms(3) by (cases r) auto
  show "breaker_state (snd (run now fin r b)) =
           (if failure_threshold b \<le> Suc (failure_count b) then Open else Closed)"
    and "failure_count (snd (run now fin r b)) = Suc (failure_count b)"
    and "failure_threshold (snd (run now fin r b)) = failure_threshold b"
    using assms(2) by (simp_all add: admitted [OF enter] cb_finish_def r record_failure_def small Let_def)
qed

lemma run_open_failure:
  assumes "breaker_state b = Open" and "\<not> is_Ok r"
  shows "breaker_state (snd (run now fin r b)) = Open"
proof (cases "cb_enter now b")
  case None
  then show ?thesis using assms by (simp add: refused)
next
  case (Some b1)
  then have "breaker_state b1 = HalfOpen"
    using assms by (auto simp: cb_enter_def split: if_splits)
  then show ?thesis
    using assms(2) by (cases r) (simp_all add: admitted [OF Some] cb_finish_def record_failure_def Let_def)
qed

lemma failures_keep_open:
  "\<lbrakk>breaker_state b = Open; list_all (\<lambda>(now, fin, r). \<not> is_Ok r) calls\<rbrakk> \<Longrightarrow>
     breaker_state (fold (\<lambda>(now, fin, r) b. snd (run now fin r b)) calls b) = Open"
  by (induction calls arbitrary: b) (auto simp: run_open_failure)

lemma failures_trip:
  "\<lbrakk>breaker_inv b; breaker_state b = Closed; calls \<noteq> []; list_all (\<lambda>(now, fin, r). \<not> is_Ok r) calls\<rbrakk> \<Longrightarrow>
     breaker_state (fold (\<lambda>(now, fin, r) b. snd (run now fin r b)) calls b) =
       (if failure_threshold b \<le> failure_count b + length calls then Open else Closed)"
proof (induction calls arbitrary: b)
  case (Cons c calls)
  obtain now fin r where c: "c = (now, fin, r)" by (cases c)
  have r: "\<not> is_Ok r" and rest: "list_all (\<lambda>(now, fin, r). \<not> is_Ok r) calls"
    using Cons.prems(4) by (simp_all add: c)
  let ?b = "snd (run now fin r b)"
  note one = run_closed_failure [OF Cons.prems(1,2) r, of now fin]
  show ?case
  proof (cases "failure_threshold b \<le> Suc (failure_count b)")
    case True
    then show ?thesis using failures_keep_open [OF _ rest, of ?b] one(1) by (simp add: c)
  next
    case False
    then have closed: "breaker_state ?b = Closed" using one(1) by simp
    show ?thesis
    proof (cases "calls = []")
      case True
      then show ?thesis using one(1) by (simp add: c)
    next
      case more: False
      show ?thesis
        using Cons.IH [OF run_inv [OF Cons.prems(1)] closed more rest] one(2,3) by (simp add: c)
    qed
  qed
qed simp

lemma recovery:
  assumes "breaker_inv b" and "breaker_state b = Open" and "should_try_reset now b"
  shows "fst (run now fin r b) = map_sum wrap id r"
    and "breaker_state (snd (run now fin r b)) = (if is_Ok r then HalfOpen else Open)"
    and "\<lbrakk>is_Ok r; is_Ok r'\<rbrakk> \<Longrightarrow> breaker_state (snd (run now' fin' r' (snd (run now fin r b)))) = Closed"
    and "\<lbrakk>is_Ok r; is_Ok r'\<rbrakk> \<Longrightarrow> failure_count (snd (run now' fin' r' (snd (run now fin r b)))) = 0"
proof -
  let ?b1 = "record_call (transition_to HalfOpen b)"
  have enter: "cb_enter now b = Some ?b1"
    using assms by (simp add: cb_enter_def)
  have none: "consecutive_successes b = 0" using assms by (simp add: breaker_inv_def)
  show "fst (run now fin r b) = map_sum wrap id r"
    and state: "breaker_state (snd (run now fin r b)) = (if is_Ok r then HalfOpen else Open)"
    by (cases r; simp add: admitted [OF enter] cb_finish_def record_success_def record_failure_def
        none inc_u64_small Let_def)+
  assume ok: "is_Ok r" "is_Ok r'"
  have half: "breaker_state (snd (run now fin r b)) = HalfOpen" using state ok by simp
  have one: "consecutive_successes (snd (run now fin r b)) = 1"
    using ok(1) by (cases r) (simp_all add: admitted [OF enter] cb_finish_def record_success_def none inc_u64_small Let_def)
  show "breaker_state (snd (run now' fin' r' (snd (run now fin r b)))) = Closed"
    and "failure_count (snd (run now' fin' r' (snd (run now fin r b)))) = 0"
    using ok(2) half one
    by (cases r'; simp add: admitted [OF half_open_enter [OF half]] cb_finish_def record_success_def
        inc_u64_small Let_def)+
qed

end

interpretation call_client: breaker_client cb_call CircuitOpen Inner
  by unfold_locales (auto simp: cb_call_def cb_finish_def split: sum.split)

interpretation invoke_client: breaker_client "provider_invoke provider_id" "circuit_open_error provider_id" "\<lambda>e. e"
  for provider_id
  by unfold_locales
    (auto simp: provider_invoke_def cb_enter_def cb_finish_def Let_def split: sum.split circuit_state.splits if_splits)


section \<open>Properties\<close>



text \<open>C11. An open breaker fails fast. From an open state whose last failure was at \<open>t\<close>, through any
  overlapping attempts, late successes and late failures, as long as nobody resets it and no attempt
  comes \<open>recovery_timeout_ms\<close> or more after \<open>t\<close>, the breaker stays open, no protected operation is
  started, and both clients answer a call in that window with their refusal and an unchanged breaker.
\<close>

theorem open_fails_fast:
  assumes "breaker_state b = Open" and "last_failure_at b = Some t"
    and "list_all (in_window t (recovery_timeout_ms b)) es"
    and "(now - t) div 1000000 < recovery_timeout_ms b"
  defines "b' \<equiv> fold cb_apply es b"
  shows "breaker_state b' = Open \<and> total_calls b' = total_calls b \<and>
         cb_call now fin r b' = (Err CircuitOpen, b') \<and>
         provider_invoke provider_id now fin r' b' = (Err (circuit_open_error provider_id), b')"
proof -
  have "tripped t (recovery_timeout_ms b) (total_calls b) b"
    using assms(1,2) by (simp add: tripped_def)
  then have trip: "tripped t (recovery_timeout_ms b) (total_calls b) b'"
    using assms(3) unfolding b'_def by (rule tripped_history)
  note refused = tripped_refuses [OF trip assms(4)]
  show ?thesis
    using trip by (simp add: tripped_def call_client.refused [OF refused] invoke_client.refused [OF refused])
qed

theorem open_fails_fast_witness:
  "let b = record_failure 7000000 (new_breaker ''p'' 1 5);
       b' = fold cb_apply [Enter 8000000, Fail 9000000, Succeed] b
   in breaker_state b' = Open \<and> total_calls b' = total_calls b \<and>
      cb_call 11000000 12000000 (Ok () :: (string, unit) result) b' = (Err CircuitOpen, b') \<and>
      provider_invoke ''p'' 11000000 12000000 (Ok ()) b' = (Err (circuit_open_error ''p''), b')"
  unfolding Let_def
  by (rule open_fails_fast [where t = 7000000])
    (simp_all add: record_failure_def new_breaker_def breaker_state_def from_u8_def transition_to_def
      inc_u64_def Let_def)

text \<open>C30. Consecutive failures trip a closed breaker at its threshold and not before: after one or more
  calls that all fail, made through either client and at any times, the breaker is open exactly when
  the failures counted so far and these calls reach the threshold. (It stays open when more failing
  calls follow, some refused and some let through as probes.)
\<close>

theorem failures_trip_at_threshold:
  assumes "breaker_inv b" and "breaker_state b = Closed" and "calls \<noteq> []" and "calls' \<noteq> []"
    and "list_all (\<lambda>(now, fin, r). \<not> is_Ok r) calls"
    and "list_all (\<lambda>(now, fin, r). \<not> is_Ok r) calls'"
  shows "breaker_state (fold (\<lambda>(now, fin, r) b. snd (cb_call now fin r b)) calls b) =
           (if failure_threshold b \<le> failure_count b + length calls then Open else Closed) \<and>
         breaker_state (fold (\<lambda>(now, fin, r) b. snd (provider_invoke provider_id now fin r b)) calls' b) =
           (if failure_threshold b \<le> failure_count b + length calls' then Open else Closed)"
  using call_client.failures_trip [OF assms(1,2,3,5)] invoke_client.failures_trip [OF assms(1,2,4,6)]
  by simp

theorem failures_trip_at_threshold_witness:
  "breaker_state (fold (\<lambda>(now, fin, r) b. snd (cb_call now fin r b))
      [(0, 1, Err ''a'' :: (string, unit) result), (2, 3, Err ''b'')] (new_breaker ''p'' 2 5)) = Open \<and>
   breaker_state (fold (\<lambda>(now, fin, r) b. snd (provider_invoke ''q'' now fin r b))
      [(0, 1, Err (circuit_open_error ''q'') :: (provider_error, unit) result)] (new_breaker ''p'' 2 5)) = Closed"
  using failures_trip_at_threshold
    [of "new_breaker ''p'' 2 5" "[(0, 1, Err ''a'' :: (string, unit) result), (2, 3, Err ''b'')]"
      "[(0, 1, Err (circuit_open_error ''q'') :: (provider_error, unit) result)]" "''q''"]
    inv_new [of 2 5 "''p''"]
  by (simp add: u64_max_def) (simp add: new_breaker_def breaker_state_def from_u8_def)



end
