(* ===== verification/Float_Ops.thy ===== *)
theory Float_Ops
  imports Json_Value
begin

text \<open>
  The operations on \<^verbatim>\<open>f64\<close> that the modelled components use. The type of the numbers is a parameter, and
  so are the operations: what is proved about a component holds for every way of rounding, comparing and
  printing them. A literal is named by its text in the source.
\<close>

record 'f f64_ops =
  f64_gt :: "'f \<Rightarrow> 'f \<Rightarrow> bool"
  f64_lt :: "'f \<Rightarrow> 'f \<Rightarrow> bool"
  f64_ge :: "'f \<Rightarrow> 'f \<Rightarrow> bool"
  f64_lit :: "string \<Rightarrow> 'f"
  f64_of_int :: "int \<Rightarrow> 'f"
  f64_add :: "'f \<Rightarrow> 'f \<Rightarrow> 'f"
  f64_mul :: "'f \<Rightarrow> 'f \<Rightarrow> 'f"
  f64_div :: "'f \<Rightarrow> 'f \<Rightarrow> 'f"
  f64_round :: "'f \<Rightarrow> 'f"
  f64_sum :: "'f list \<Rightarrow> 'f"
  f64_fmt1 :: "'f \<Rightarrow> string"
  f64_fmt4 :: "'f \<Rightarrow> string"
  f64_json :: "'f \<Rightarrow> json"

text \<open>An instance for evaluation: hundredths, as integers.\<close>

definition exact_ops :: "int f64_ops" where
  "exact_ops =
     \<lparr>f64_gt = (\<lambda>a b. b < a), f64_lt = (\<lambda>a b. a < b), f64_ge = (\<lambda>a b. b \<le> a),
      f64_lit = (\<lambda>s. if s = ''0.0'' then 0 else if s = ''0.3'' then 30 else if s = ''0.6'' then 60
                     else if s = ''0.7'' then 70 else 100),
      f64_of_int = (\<lambda>i. 100 * i), f64_add = (\<lambda>a b. a + b), f64_mul = (\<lambda>a b. a * b div 100),
      f64_div = (\<lambda>a b. a * 100 div b), f64_round = (\<lambda>a. a), f64_sum = sum_list,
      f64_fmt1 = show_int, f64_fmt4 = show_int, f64_json = (\<lambda>a. JNumber (Float (show_int a)))\<rparr>"

end
