(* ===== verification/Run_Queue.thy ===== *)
theory Run_Queue
  imports Float_Ops "HOL-Library.Product_Lexorder" "HOL-Library.Sorting_Algorithms"
begin

text \<open>
  The run queue of src/engine/src/workflow/run_queue.rs: the order in which queued runs are served,
  admission, deadlines and backpressure.

  \<^item> \<^verbatim>\<open>sort_by\<close> is the stable sort of the library, by a comparator; that the closure of the source is
    a comparator is proved where the constant \<open>run_order\<close> is introduced.
  \<^item> \<^verbatim>\<open>i32\<close> and \<^verbatim>\<open>i64\<close> are \<open>int\<close>; sums of \<^verbatim>\<open>i64\<close> wrap to 64 bits (\<open>wrap_i64\<close>).
  \<^item> \<^verbatim>\<open>f64\<close> is a type variable; the operations the source uses on it are the fields of \<open>f64_ops\<close>
    (theory \<open>Float_Ops\<close>).
\<close>

section \<open>Data\<close>

record queued_run =
  qr_run_id :: string
  qr_priority :: int
  qr_created_at :: string
  qr_deadline_at :: "string option"
  qr_sla_ms :: "int option"
  qr_tenant_id :: "string option"
  qr_pause_reason :: "string option"
  qr_queue_position :: "int option"

record queue_config =
  max_concurrent :: nat
  max_queued :: nat
  priority_ceiling :: int
  priority_floor :: int
  deadline_overdue_threshold_ms :: int

definition default_queue_config :: queue_config where
  "default_queue_config =
     \<lparr>max_concurrent = 4, max_queued = 100, priority_ceiling = 10, priority_floor = 1,
      deadline_overdue_threshold_ms = 60000\<rparr>"

record 'f tenant_queue_info =
  tq_tenant_id :: string
  tq_run_count :: nat
  tq_avg_priority :: 'f

record 'f queue_status =
  total_queued :: nat
  total_running :: nat
  total_paused :: nat
  total_completed :: nat
  total_failed :: nat
  avg_priority :: 'f
  overdue_count :: nat
  capacity_utilization :: 'f
  queue_depth_ratio :: 'f
  backpressure_active :: bool
  tenant_counts :: "'f tenant_queue_info list"

record admission_result =
  ar_allowed :: bool
  ar_reason :: string
  ar_suggested_action :: "string option"

record deadline_action =
  da_run_id :: string
  da_action :: string
  da_reason :: string

record backpressure_signal =
  bs_active :: bool
  bs_degrade_mode :: "string option"
  bs_pause_targets :: "string list"
  bs_priority_ceiling_temp :: "int option"
  bs_reason :: string

section \<open>Order\<close>

definition ord_cmp :: "'a::linorder \<Rightarrow> 'a \<Rightarrow> comp" where
  "ord_cmp a b = (if a < b then Less else if a = b then Equiv else Greater)"

fun compare_deadline :: "string option \<Rightarrow> string option \<Rightarrow> comp" where
  "compare_deadline (Some a) (Some b) = ord_cmp a b"
| "compare_deadline (Some _) None = Less"
| "compare_deadline None (Some _) = Greater"
| "compare_deadline None None = Equiv"

definition compare_runs :: "queued_run \<Rightarrow> queued_run \<Rightarrow> comp" where
  "compare_runs a b =
     (let a_paused = (qr_pause_reason a \<noteq> None); b_paused = (qr_pause_reason b \<noteq> None) in
      if \<not> a_paused \<and> b_paused then Less
      else if a_paused \<and> \<not> b_paused then Greater
      else
        let priority_cmp = ord_cmp (qr_priority a) (qr_priority b) in
        if priority_cmp \<noteq> Equiv then priority_cmp
        else
          let deadline_cmp = compare_deadline (qr_deadline_at a) (qr_deadline_at b) in
          if deadline_cmp \<noteq> Equiv then deadline_cmp
          else ord_cmp (qr_created_at a) (qr_created_at b))"

text \<open>The key the comparison amounts to, compared lexicographically.\<close>

type_synonym run_key = "bool \<times> int \<times> (bool \<times> string) \<times> string"

definition run_key :: "queued_run \<Rightarrow> run_key" where
  "run_key r =
     (qr_pause_reason r \<noteq> None, qr_priority r,
      (case qr_deadline_at r of Some d \<Rightarrow> (False, d) | None \<Rightarrow> (True, [])), qr_created_at r)"

lemma compare_runs_key: "compare_runs a b = ord_cmp (run_key a) (run_key b)"
  by (cases "qr_deadline_at a"; cases "qr_deadline_at b")
    (auto simp: compare_runs_def run_key_def ord_cmp_def Let_def less_prod_def')

lemma comparator_key: "comparator (\<lambda>a b. ord_cmp (f a) (f b))"
  by standard (auto simp: ord_cmp_def split: if_splits)

lift_definition run_order :: "queued_run comparator" is compare_runs
  using comparator_key [of run_key] by (simp add: compare_runs_key [abs_def])

definition sort_runs :: "queued_run list \<Rightarrow> queued_run list" where
  "sort_runs runs = Sorting_Algorithms.sort run_order runs"

section \<open>Admission, backpressure, priorities\<close>

definition admission_check :: "'f f64_ops \<Rightarrow> queue_config \<Rightarrow> 'f queue_status \<Rightarrow> admission_result" where
  "admission_check F config status =
     (if max_queued config \<le> total_queued status then
        \<lparr>ar_allowed = False,
         ar_reason = ''queue at capacity: '' @ show_nat (total_queued status) @ '' / '' @ show_nat (max_queued config),
         ar_suggested_action = Some ''wait''\<rparr>
      else if f64_gt F (capacity_utilization status) (f64_lit F ''0.9'') then
        \<lparr>ar_allowed = True,
         ar_reason = ''utilization high: '' @
           f64_fmt1 F (f64_mul F (capacity_utilization status) (f64_lit F ''100.0'')) @ ''%'',
         ar_suggested_action = Some ''throttle''\<rparr>
      else
        \<lparr>ar_allowed = True, ar_reason = ''within limits'', ar_suggested_action = None\<rparr>)"

fun join_comma :: "string list \<Rightarrow> string" where
  "join_comma [] = []"
| "join_comma [x] = x"
| "join_comma (x # y # ys) = x @ '', '' @ join_comma (y # ys)"

definition compute_backpressure :: "'f f64_ops \<Rightarrow> queue_config \<Rightarrow> 'f queue_status \<Rightarrow> backpressure_signal" where
  "compute_backpressure F config status =
     (let utilization_high = f64_gt F (capacity_utilization status) (f64_lit F ''0.8'');
          queue_depth_high = f64_gt F (queue_depth_ratio status) (f64_lit F ''0.8'');
          percent = (\<lambda>x. f64_fmt1 F (f64_mul F x (f64_lit F ''100.0'')) @ ''%'')
      in if utilization_high \<or> queue_depth_high then
           \<lparr>bs_active = True, bs_degrade_mode = Some ''throttle'', bs_pause_targets = [],
            bs_priority_ceiling_temp = Some (min (priority_ceiling config) 5),
            bs_reason = join_comma
              ((if utilization_high then [''utilization '' @ percent (capacity_utilization status)] else []) @
               (if queue_depth_high then [''queue depth '' @ percent (queue_depth_ratio status)] else []))\<rparr>
         else
           \<lparr>bs_active = False, bs_degrade_mode = None, bs_pause_targets = [],
            bs_priority_ceiling_temp = None, bs_reason = ''within limits''\<rparr>)"

definition validate_priority :: "queue_config \<Rightarrow> int \<Rightarrow> (string, int) result" where
  "validate_priority config priority =
     (if priority < priority_floor config \<or> priority_ceiling config < priority then
        Err (''priority '' @ show_int priority @ '' outside range ['' @ show_int (priority_floor config) @
             '', '' @ show_int (priority_ceiling config) @ '']'')
      else Ok priority)"

section \<open>Timestamps\<close>

text \<open>\<^verbatim>\<open>str::split\<close> at a character, and \<^verbatim>\<open>trim_end_matches\<close> of one.\<close>

fun split_on :: "char \<Rightarrow> string \<Rightarrow> string list" where
  "split_on c [] = [[]]"
| "split_on c (x # xs) =
     (if x = c then [] # split_on c xs
      else (case split_on c xs of w # ws \<Rightarrow> (x # w) # ws | [] \<Rightarrow> [[x]]))"

definition trim_end :: "char \<Rightarrow> string \<Rightarrow> string" where
  "trim_end c s = rev (dropWhile (\<lambda>x. x = c) (rev s))"

text \<open>
  \<^verbatim>\<open>str::parse::<i64>\<close>: an optional sign and one or more ASCII digits, within the range of \<^verbatim>\<open>i64\<close>.
\<close>

definition is_digit_char :: "char \<Rightarrow> bool" where
  "is_digit_char c \<longleftrightarrow> c \<in> set ''0123456789''"

definition digit_value :: "char \<Rightarrow> int" where
  "digit_value c = of_char c - 48"

definition digits_value :: "string \<Rightarrow> int" where
  "digits_value ds = foldl (\<lambda>v c. 10 * v + digit_value c) 0 ds"

definition parse_digits :: "string \<Rightarrow> int option" where
  "parse_digits s = (if s = [] \<or> \<not> list_all is_digit_char s then None else Some (digits_value s))"

definition parse_i64 :: "string \<Rightarrow> int option" where
  "parse_i64 s =
     (case (case s of
              c # cs \<Rightarrow>
                if c = CHR ''-'' then map_option uminus (parse_digits cs)
                else if c = CHR ''+'' then parse_digits cs
                else parse_digits s
            | [] \<Rightarrow> None) of
        Some i \<Rightarrow> if in_i64 i then Some i else None
      | None \<Rightarrow> None)"

definition parse_iso :: "string \<Rightarrow> int option" where
  "parse_iso ts0 =
     (let ts = trim_end CHR ''Z'' ts0; parts = split_on CHR ''T'' ts in
      if length parts \<noteq> 2 then None else
      let date_parts = split_on CHR ''-'' (parts ! 0) in
      if length date_parts \<noteq> 3 then None else
      Option.bind (parse_i64 (date_parts ! 0)) (\<lambda>year.
      Option.bind (parse_i64 (date_parts ! 1)) (\<lambda>month.
      Option.bind (parse_i64 (date_parts ! 2)) (\<lambda>day.
      let time_parts = split_on CHR '':'' (parts ! 1) in
      if length time_parts < 3 then None else
      Option.bind (parse_i64 (time_parts ! 0)) (\<lambda>hour.
      Option.bind (parse_i64 (time_parts ! 1)) (\<lambda>minute.
      Option.bind (parse_i64 (hd (split_on CHR ''.'' (time_parts ! 2)))) (\<lambda>second.
      let days_since_epoch =
            wrap_i64 (wrap_i64 (wrap_i64 (wrap_i64 (year - 1970) * 365) + wrap_i64 (wrap_i64 (month - 1) * 30)) +
                      wrap_i64 (day - 1));
          total_seconds =
            wrap_i64 (wrap_i64 (wrap_i64 (wrap_i64 (days_since_epoch * 86400) + wrap_i64 (hour * 3600)) +
                                wrap_i64 (minute * 60)) + second)
      in Some (wrap_i64 (total_seconds * 1000)))))))))"

definition parse_timestamp_ms :: "string \<Rightarrow> int option" where
  "parse_timestamp_ms ts =
     (case parse_i64 ts of Some epoch \<Rightarrow> Some epoch | None \<Rightarrow> parse_iso ts)"

section \<open>Deadlines\<close>

definition deadline_action_of :: "queue_config \<Rightarrow> queued_run \<Rightarrow> deadline_action option" where
  "deadline_action_of config run =
     Option.bind (qr_deadline_at run) (\<lambda>deadline.
     Option.bind (parse_timestamp_ms deadline) (\<lambda>deadline_ts.
     Option.bind (parse_timestamp_ms (qr_created_at run)) (\<lambda>now_ms.
     let effective_deadline =
           (case qr_sla_ms run of Some sla \<Rightarrow> wrap_i64 (now_ms + sla) | None \<Rightarrow> deadline_ts);
         overdue_ms = wrap_i64 (now_ms - effective_deadline)
     in if 0 < overdue_ms then
          Some \<lparr>da_run_id = qr_run_id run, da_action = ''boost'',
                da_reason = ''overdue by '' @ show_int overdue_ms @ ''ms''\<rparr>
        else if wrap_i64 (- deadline_overdue_threshold_ms config) < overdue_ms then
          Some \<lparr>da_run_id = qr_run_id run, da_action = ''warn'',
                da_reason = ''approaching deadline: '' @ show_int (wrap_i64 (- overdue_ms)) @ ''ms remaining''\<rparr>
        else None)))"

definition check_deadlines :: "queue_config \<Rightarrow> queued_run list \<Rightarrow> deadline_action list" where
  "check_deadlines config runs = List.map_filter (deadline_action_of config) runs"

section \<open>The order is the order of the keys\<close>

lemma sort_runs_key: "sort_runs runs = sort_key run_key runs"
proof -
  have insort: "Sorting_Algorithms.insort run_order r rs = insort_key run_key r rs" for r rs
    by (induction rs) (auto simp: run_order.rep_eq compare_runs_key ord_cmp_def)
  show ?thesis by (induction runs) (simp_all add: sort_runs_def insort)
qed

text \<open>
  What the queue promises of two runs it serves one before the other: no paused run before one that is
  not paused; among the others the smaller priority number; among equal ones a deadline before none
  and an earlier one before a later; at last the older run.
\<close>

definition served_before :: "queued_run \<Rightarrow> queued_run \<Rightarrow> bool" where
  "served_before a b \<longleftrightarrow>
     (qr_pause_reason a = None \<and> qr_pause_reason b \<noteq> None) \<or>
     (qr_pause_reason a = None \<longleftrightarrow> qr_pause_reason b = None) \<and>
       (qr_priority a < qr_priority b \<or>
        qr_priority a = qr_priority b \<and>
          ((\<exists>d. qr_deadline_at a = Some d \<and> (qr_deadline_at b = None \<or> d < the (qr_deadline_at b))) \<or>
           qr_deadline_at a = qr_deadline_at b \<and> qr_created_at a \<le> qr_created_at b))"

lemma served_before_key: "served_before a b \<longleftrightarrow> run_key a \<le> run_key b"
  by (cases "qr_deadline_at a"; cases "qr_deadline_at b")
    (auto simp: served_before_def run_key_def less_eq_prod_def less_prod_def)

text \<open>C32. The queue serves runs in the promised order: \<^verbatim>\<open>sort_runs\<close> permutes its argument, every run
  is one that may be served before all that come after it, and runs that tie in all four criteria
  keep the order they had.
\<close>

theorem sort_runs_correct:
  "mset (sort_runs runs) = mset runs \<and>
   sorted_wrt served_before (sort_runs runs) \<and>
   (\<forall>k. filter (\<lambda>r. run_key r = k) (sort_runs runs) = filter (\<lambda>r. run_key r = k) runs)"
proof (intro conjI allI)
  show "mset (sort_runs runs) = mset runs" by (simp add: sort_runs_key)
  have "sorted_wrt (\<le>) (map run_key (sort_runs runs))" by (simp add: sort_runs_key)
  then show "sorted_wrt served_before (sort_runs runs)"
    by (simp add: sorted_wrt_map served_before_key [abs_def])
  show "filter (\<lambda>r. run_key r = k) (sort_runs runs) = filter (\<lambda>r. run_key r = k) runs" for k
    unfolding sort_runs_key using sort_key_stable [of run_key k runs] by simp
qed


section \<open>Deadlines without wrap-around\<close>

text \<open>
  The time a run has left, as the code computes it: counted from the creation of the run, never from
  the present, and from the service-level limit alone when there is one.
\<close>

definition time_left :: "queued_run \<Rightarrow> int option" where
  "time_left run =
     Option.bind (qr_deadline_at run) (\<lambda>deadline.
     Option.bind (parse_timestamp_ms deadline) (\<lambda>deadline_ts.
     Option.bind (parse_timestamp_ms (qr_created_at run)) (\<lambda>created.
     Some (case qr_sla_ms run of Some sla \<Rightarrow> sla | None \<Rightarrow> deadline_ts - created))))"

definition time_fits :: "queued_run \<Rightarrow> bool" where
  "time_fits run \<longleftrightarrow> (case time_left run of Some left \<Rightarrow> in_i64 left \<and> in_i64 (- left) | None \<Rightarrow> True)"

definition verdict :: "int \<Rightarrow> string \<Rightarrow> int \<Rightarrow> deadline_action option" where
  "verdict threshold run_id left =
     (if left < 0 then
        Some \<lparr>da_run_id = run_id, da_action = ''boost'', da_reason = ''overdue by '' @ show_int (- left) @ ''ms''\<rparr>
      else if left < threshold then
        Some \<lparr>da_run_id = run_id, da_action = ''warn'',
              da_reason = ''approaching deadline: '' @ show_int left @ ''ms remaining''\<rparr>
      else None)"

lemma deadline_action_verdict:
  assumes "time_fits run" and "in_i64 (- deadline_overdue_threshold_ms config)"
  shows "deadline_action_of config run =
           Option.bind (time_left run) (verdict (deadline_overdue_threshold_ms config) (qr_run_id run))"
proof (cases "time_left run")
  case None
  then show ?thesis
    by (auto simp: time_left_def deadline_action_of_def bind_eq_None_conv split: Option.bind_splits)
next
  case (Some left)
  then obtain deadline d c where parsed:
    "qr_deadline_at run = Some deadline" "parse_timestamp_ms deadline = Some d"
    "parse_timestamp_ms (qr_created_at run) = Some c"
    "left = (case qr_sla_ms run of Some sla \<Rightarrow> sla | None \<Rightarrow> d - c)"
    by (auto simp: time_left_def bind_eq_Some_conv)
  have fits: "in_i64 left" "in_i64 (- left)" using assms(1) Some by (simp_all add: time_fits_def)
  have overdue: "wrap_i64 (c - (case qr_sla_ms run of Some sla \<Rightarrow> wrap_i64 (c + sla) | None \<Rightarrow> d)) = - left"
    using wrap_i64_exact [OF fits(2)] parsed(4) by (auto split: option.splits)
  show ?thesis
    using Some wrap_i64_exact [OF fits(1)] wrap_i64_exact [OF assms(2)]
    by (simp add: deadline_action_of_def parsed(1-3) overdue verdict_def Let_def)
qed

text \<open>What \<^verbatim>\<open>check_deadlines\<close> answers: for every run with a readable deadline and creation time, in
  order, a boost when the time left is negative, a warning when it is below the threshold, and nothing
  otherwise. The time left does not depend on the present: a run whose service-level limit is not
  negative is never boosted, however old it is, and the list is the same at every later check.
\<close>

lemma check_deadlines_verdicts:
  assumes "list_all time_fits runs" and "in_i64 (- deadline_overdue_threshold_ms config)"
  shows "check_deadlines config runs =
           List.map_filter
             (\<lambda>run. Option.bind (time_left run) (verdict (deadline_overdue_threshold_ms config) (qr_run_id run)))
             runs \<and>
         (list_all (\<lambda>run. \<exists>sla. qr_sla_ms run = Some sla \<and> 0 \<le> sla) runs \<longrightarrow>
            (\<forall>a \<in> set (check_deadlines config runs). da_action a = ''warn''))"
proof
  show eq: "check_deadlines config runs =
      List.map_filter
        (\<lambda>run. Option.bind (time_left run) (verdict (deadline_overdue_threshold_ms config) (qr_run_id run))) runs"
    using assms(1) unfolding check_deadlines_def
    by (induction runs) (auto simp: deadline_action_verdict [OF _ assms(2)] split: option.split)
  show "list_all (\<lambda>run. \<exists>sla. qr_sla_ms run = Some sla \<and> 0 \<le> sla) runs \<longrightarrow>
          (\<forall>a \<in> set (check_deadlines config runs). da_action a = ''warn'')"
    unfolding eq
    by (auto simp: map_filter_def list_all_iff time_left_def verdict_def bind_eq_Some_conv split: if_splits
        dest!: bspec)
qed

text \<open>Every month counts as thirty days, so the last day of January and the first of February coincide.\<close>

lemma month_end_collides:
  "parse_timestamp_ms ''2026-01-31T08:00:00Z'' = parse_timestamp_ms ''2026-02-01T08:00:00Z'' \<and>
   parse_timestamp_ms ''2026-01-31T08:00:00Z'' \<noteq> None"
  by code_simp

definition sample_run :: queued_run where
  "sample_run =
     \<lparr>qr_run_id = ''r1'', qr_priority = 3, qr_created_at = ''1767225600000'',
      qr_deadline_at = Some ''1767225600025'', qr_sla_ms = Some 30, qr_tenant_id = None,
      qr_pause_reason = None, qr_queue_position = None\<rparr>"

lemma check_deadlines_verdicts_example:
  "check_deadlines default_queue_config [sample_run, sample_run\<lparr>qr_sla_ms := None\<rparr>] =
     [\<lparr>da_run_id = ''r1'', da_action = ''warn'', da_reason = ''approaching deadline: 30ms remaining''\<rparr>,
      \<lparr>da_run_id = ''r1'', da_action = ''warn'', da_reason = ''approaching deadline: 25ms remaining''\<rparr>] \<and>
   list_all (\<lambda>a. da_action a = ''warn'') (check_deadlines default_queue_config [sample_run])"
proof -
  let ?runs = "[sample_run, sample_run\<lparr>qr_sla_ms := None\<rparr>]"
  have fits: "list_all time_fits ?runs" by code_simp
  have range: "in_i64 (- deadline_overdue_threshold_ms default_queue_config)" by code_simp
  have "List.map_filter
          (\<lambda>run. Option.bind (time_left run)
             (verdict (deadline_overdue_threshold_ms default_queue_config) (qr_run_id run))) ?runs =
     [\<lparr>da_run_id = ''r1'', da_action = ''warn'', da_reason = ''approaching deadline: 30ms remaining''\<rparr>,
      \<lparr>da_run_id = ''r1'', da_action = ''warn'', da_reason = ''approaching deadline: 25ms remaining''\<rparr>]"
    by code_simp
  moreover have "list_all (\<lambda>a. da_action a = ''warn'') (check_deadlines default_queue_config [sample_run])"
    using check_deadlines_verdicts [of "[sample_run]", OF _ range] fits by (simp add: sample_run_def list_all_iff)
  ultimately show ?thesis using check_deadlines_verdicts [OF fits range] by simp
qed

end
