(* ===== verification/Recursive_Control.thy ===== *)
theory Recursive_Control
  imports Recursive_Theorems
begin

text \<open>
  The remaining operations of the store of recursive trees (src/engine/src/storage/local\_product\_store,
  recursive\_execution.rs): what is recorded when a batch of proposals lost the race for a tree, saving
  a tree from outside a transaction, the check of the workflow node and edge of an accepted proposal,
  the read model shown to operators, and the control that pauses, resumes or kills every tree at once.
\<close>

section \<open>Proposals that lost the race\<close>



section \<open>Saving a tree\<close>

definition save_recursive_tree_with_expected_version :: "platform \<Rightarrow> serde \<Rightarrow> product_db \<Rightarrow> recursive_tree \<Rightarrow>
    string \<Rightarrow> nat \<Rightarrow> (string, product_db) result" where
  "save_recursive_tree_with_expected_version pf sd db t now expected_version =
     reject_if (rt_schema_version t \<noteq> RECURSIVE_SCHEMA_VERSION) ''recursive tree schema version mismatch''
    (bind_result (validate_tree_for_persistence pf (tree_to_json sd) t) (\<lambda>tree_json.
     bind_result (check_expected db (rt_root_run_id t) expected_version) (\<lambda>_.
     bind_result (check_workflow_binding pf sd db t) (\<lambda>_.
     Ok (db\<lparr>recursive_execution_trees := hm_put (rt_root_run_id t) (tree_row_of db t tree_json now)
              (recursive_execution_trees db),
            recursive_execution_nodes := index_nodes t now (recursive_execution_nodes db)\<rparr>)))))"

definition save_recursive_tree :: "platform \<Rightarrow> serde \<Rightarrow> product_db \<Rightarrow> recursive_tree \<Rightarrow> string \<Rightarrow>
    (string, product_db) result" where
  "save_recursive_tree pf sd db t now =
     save_recursive_tree_with_expected_version pf sd db t now (rt_version t - 1)"

text \<open>
  The same write on PostgreSQL, called inside a transaction. It has no counterpart of the binding
  check of the SQLite function.
\<close>

definition persist_recursive_tree_pg :: "platform \<Rightarrow> serde \<Rightarrow> product_db \<Rightarrow> recursive_tree \<Rightarrow> string \<Rightarrow>
    nat option \<Rightarrow> (string, product_db) result" where
  "persist_recursive_tree_pg pf sd db t now expected_version =
     bind_result (validate_tree_for_persistence pf (tree_to_json sd) t) (\<lambda>tree_json.
     bind_result (case expected_version of
         None \<Rightarrow> Ok ()
       | Some v \<Rightarrow>
           let current = map_option tw_version (hm_get (recursive_execution_trees db) (rt_root_run_id t));
               matches = (if v = 0 then current = None else current = Some (u64_as_i64 v))
           in if \<not> matches then Err ''stale_parent'' else Ok ()) (\<lambda>_.
     Ok (db\<lparr>recursive_execution_trees := hm_put (rt_root_run_id t) (tree_row_of db t tree_json now)
              (recursive_execution_trees db),
            recursive_execution_nodes := index_nodes t now (recursive_execution_nodes db)\<rparr>)))"

section \<open>The workflow node and edge of an accepted proposal\<close>

definition json_string_array :: "string list \<Rightarrow> json" where
  "json_string_array xs = JArray (map JString xs)"

definition json_string_set :: "string set \<Rightarrow> json" where
  "json_string_set A = json_string_array (sorted_list_of_set A)"

definition scope_json :: "recursive_scope \<Rightarrow> json" where
  "scope_json scope = json_object
     [(''repository'', json_option (repository scope)),
      (''allowed_paths'', json_string_set (allowed_paths scope)),
      (''capabilities'', json_string_set (scope_capabilities scope))]"

definition validate_recursive_workflow_payload :: "recursive_tree \<Rightarrow> json \<Rightarrow> json \<Rightarrow> string \<Rightarrow> (string, unit) result" where
  "validate_recursive_workflow_payload t node edge agent_id =
     bind_result (ok_or (json_str node ''node_id'') ''recursive workflow node identity is missing'')
    (\<lambda>workflow_node_id. bind_result (ok_or (json_str node ''recursive_node_id'')
       ''recursive workflow recursive_node_id is missing'')
    (\<lambda>recursive_node_id. bind_result (ok_or (json_str node ''proposal_id'')
       ''recursive workflow proposal identity is missing'')
    (\<lambda>proposal_id.
      reject_if (workflow_node_id \<noteq> recursive_node_id \<or> proposal_id \<notin> rt_accepted_proposals t \<or>
          bt_get (rt_receipts t) proposal_id = None \<or>
          json_str node ''task_type'' \<noteq> Some ''agent_step'' \<or> json_str node ''status'' \<noteq> Some ''pending'' \<or>
          Option.bind (json_get node ''attempt_count'') as_i64 \<noteq> Some 0 \<or>
          json_str node ''agent_id'' \<noteq> Some agent_id \<or> json_str node ''acceptance_reason'' \<noteq> Some ''accepted'')
        ''recursive workflow node is not bound to accepted tree proposal''
     (bind_result (ok_or (bt_get (rt_nodes t) recursive_node_id) ''recursive workflow node is missing from tree'')
     (\<lambda>recursive_node.
      reject_if (rn_proposal_id recursive_node \<noteq> Some proposal_id \<or>
          json_str node ''parent_node_id'' \<noteq> rn_parent_node_id recursive_node \<or>
          json_str node ''objective_fingerprint'' \<noteq> Some (rn_objective_fingerprint recursive_node) \<or>
          json_get node ''evidence_refs'' \<noteq> Some (json_string_array (rn_evidence_refs recursive_node)) \<or>
          json_get node ''recursive_capabilities'' \<noteq> Some (json_string_set (rn_capabilities recursive_node)) \<or>
          json_get node ''recursive_scope'' \<noteq> Some (scope_json (rn_scope recursive_node)) \<or>
          json_get node ''recursive_tenant_id'' \<noteq> Some (json_option (rn_tenant_id recursive_node)) \<or>
          json_get node ''recursive_workspace_id'' \<noteq> Some (json_option (rn_workspace_id recursive_node)))
        ''recursive workflow node does not match accepted tree snapshot''
     (bind_result (ok_or (json_str edge ''edge_id'') ''recursive workflow edge identity is missing'')
     (\<lambda>edge_id.
      reject_if (edge_id \<noteq> ''recursive-edge-'' @ workflow_node_id \<or>
          json_str edge ''from_node_id'' \<noteq> rn_parent_node_id recursive_node \<or>
          json_str edge ''to_node_id'' \<noteq> Some workflow_node_id \<or>
          json_str edge ''edge_type'' \<noteq> Some ''dependency'' \<or>
          json_get edge ''recursive'' \<noteq> Some (JBool True))
        ''recursive workflow edge does not match accepted tree snapshot'' (Ok ()))))))))"

definition validate_recursive_workflow_mutation :: "platform \<Rightarrow> serde \<Rightarrow> product_db \<Rightarrow> string \<Rightarrow> json \<Rightarrow> json \<Rightarrow>
    string \<Rightarrow> (string, unit) result" where
  "validate_recursive_workflow_mutation pf sd db root_run_id node edge agent_id =
     bind_result (require_tree pf sd db root_run_id)
       (\<lambda>t. validate_recursive_workflow_payload t node edge agent_id)"

section \<open>The read model\<close>

text \<open>
  The names serde gives to the states and reasons, in snake case of the variant. Two reasons have
  another name in \<open>reason_str\<close>.
\<close>

definition reason_serde :: "recursive_failure_reason \<Rightarrow> string" where
  "reason_serde reason = (case reason of
     ExecutionFailure \<Rightarrow> ''execution_failure'' | RetryExhausted \<Rightarrow> ''retry_exhausted'' | _ \<Rightarrow> reason_str reason)"

fun state_serde :: "recursive_execution_state \<Rightarrow> string" where
  "state_serde Running = ''running''"
| "state_serde Completed = ''completed''"
| "state_serde OperatorPaused = ''operator_paused''"
| "state_serde BudgetExhausted = ''budget_exhausted''"
| "state_serde KillStopped = ''kill_stopped''"
| "state_serde TerminalFailed = ''terminal_failed''"

abbreviation json_nat :: "nat \<Rightarrow> json" where
  "json_nat n \<equiv> JNumber (PosInt n)"

definition budget_json :: "recursive_budget \<Rightarrow> json" where
  "budget_json b = json_object
     [(''calls_remaining'', json_nat (calls_remaining b)), (''tokens_remaining'', json_nat (tokens_remaining b)),
      (''cost_micros_remaining'', json_nat (cost_micros_remaining b)),
      (''time_ms_remaining'', json_nat (time_ms_remaining b))]"

definition usage_totals_json :: "recursive_budget \<Rightarrow> json" where
  "usage_totals_json b = json_object
     [(''calls'', json_nat (calls_remaining b)), (''tokens'', json_nat (tokens_remaining b)),
      (''cost_micros'', json_nat (cost_micros_remaining b)), (''time_ms'', json_nat (time_ms_remaining b))]"

definition redacted_node :: "recursive_node \<Rightarrow> json" where
  "redacted_node node = json_object
     [(''node_id'', JString (rn_node_id node)),
      (''parent_node_id'', json_option (rn_parent_node_id node)),
      (''proposal_id'', json_option (rn_proposal_id node)),
      (''depth'', json_nat (rn_depth node)),
      (''objective_fingerprint'', JString (rn_objective_fingerprint node)),
      (''ancestor_count'', json_nat (length (rn_ancestor_fingerprints node))),
      (''status'', JString (status_str (rn_status node))),
      (''accepted_children'', json_nat (rn_accepted_children node)),
      (''retry_count'', json_nat (rn_retry_count node)),
      (''version'', json_nat (rn_version node)),
      (''leased'', JBool (rn_lease_id node \<noteq> None)),
      (''failure_reason'', json_option (map_option reason_serde (rn_failure_reason node))),
      (''evidence_refs'', json_string_array (rn_evidence_refs node)),
      (''budget'', budget_json (rn_budget node)),
      (''child_budget'', budget_json (rn_child_budget node)),
      (''reservation'', budget_json (rn_reservation node)),
      (''actual_usage'', usage_totals_json (rn_actual_usage node)),
      (''tenant_bound'', JBool (rn_tenant_id node \<noteq> None)),
      (''workspace_bound'', JBool (rn_workspace_id node \<noteq> None))]"

definition evidence_json :: "recursive_decision_evidence \<Rightarrow> json" where
  "evidence_json evidence = json_object
     [(''reason_code'', JString (reason_serde (rde_reason_code evidence))),
      (''evidence_refs'', json_string_array (rde_evidence_refs evidence))]"

definition redacted_read_model :: "recursive_tree \<Rightarrow> json" where
  "redacted_read_model t = json_object
     [(''schema_version'', JString (rt_schema_version t)),
      (''root_run_id'', JString (rt_root_run_id t)),
      (''workflow_id'', JString (rt_workflow_id t)),
      (''root_node_id'', JString (rt_root_node_id t)),
      (''execution_state'', JString (state_serde (rt_execution_state t))),
      (''version'', json_nat (rt_version t)),
      (''node_count'', json_nat (length (rt_nodes t))),
      (''active_lease_count'', json_nat (card (rt_active_leases t))),
      (''accepted_proposal_count'', json_nat (card (rt_accepted_proposals t))),
      (''rejected_proposal_count'', json_nat (length (rt_rejected_proposals t))),
      (''rejected_proposals'', JObject (map (\<lambda>(k, e). (k, evidence_json e)) (rt_rejected_proposals t))),
      (''spent_budget'', usage_totals_json (rt_spent_budget t)),
      (''reserved_budget'', usage_totals_json (rt_reserved_budget t)),
      (''nodes'', JArray (map redacted_node (bt_values (rt_nodes t))))]"

definition recursive_tree_operator_evidence :: "platform \<Rightarrow> serde \<Rightarrow> product_db \<Rightarrow> string \<Rightarrow> (string, json) result" where
  "recursive_tree_operator_evidence pf sd db root_run_id =
     bind_result (load_recursive_tree pf sd db root_run_id) (\<lambda>loaded.
     ok_or (map_option redacted_read_model loaded) ''recursive tree not found'')"

section \<open>Operator control of all trees\<close>

record audit_row =
  au_created_at :: string
  au_actor :: string
  au_action :: string
  au_resource :: string
  au_details_json :: string

type_synonym audited_db = "product_db \<times> audit_row list"

definition append_audit_locked :: "serde \<Rightarrow> string \<Rightarrow> string \<Rightarrow> string \<Rightarrow> string \<Rightarrow> json \<Rightarrow> audit_row list \<Rightarrow>
    audit_row list" where
  "append_audit_locked sd now actor action resource details log =
     log @ [\<lparr>au_created_at = now, au_actor = actor, au_action = action, au_resource = resource,
             au_details_json = value_to_json sd details\<rparr>]"

definition terminal_node_json :: "serde \<Rightarrow> string \<Rightarrow> string \<Rightarrow> string \<Rightarrow> string option" where
  "terminal_node_json sd now workflow_node_id node_json_text =
     (case value_from_json sd node_json_text of
        Inl _ \<Rightarrow> None
      | Inr v \<Rightarrow>
          let bound = (case json_get v ''recursive_node_id'' of
                Some j \<Rightarrow> Some j | None \<Rightarrow> json_get v ''recursive_root_node_id'')
          in if Option.bind bound as_str = Some workflow_node_id
             then map_option (\<lambda>m. value_to_json sd (JObject (bt_put ''completed_at'' (JString now)
                    (bt_put ''status'' (JString ''failed'') m)))) (as_object v)
             else None)"

definition open_for_termination :: "run_node_row \<Rightarrow> bool" where
  "open_for_termination row \<longleftrightarrow>
     (rr_status row = ''running'' \<and> rr_leased_at row \<noteq> None) \<or>
     (rr_status row = ''pending'' \<and> rr_leased_at row = None)"

definition terminalize_workflow_node :: "serde \<Rightarrow> string \<Rightarrow> string \<Rightarrow> recursive_failure_reason \<Rightarrow> string \<Rightarrow>
    audited_db \<Rightarrow> (string, audited_db) result" where
  "terminalize_workflow_node sd now root_run_id reason workflow_node_id s =
     (let (db, log) = s in
      if hm_get (workflow_runs db) root_run_id = None then Ok (db, log)
      else (case hm_get (workflow_run_nodes db) (root_run_id, workflow_node_id) of
        None \<Rightarrow> Ok (db, log)
      | Some row \<Rightarrow>
          reject_if (\<not> open_for_termination row) ''recursive workflow node terminalization raced''
         (let node_json = terminal_node_json sd now workflow_node_id (rr_node_json row);
              log' = (if node_json = None
                      then append_audit_locked sd now ''scheduler'' ''recursive.workflow_binding.malformed'' root_run_id
                             (json_object [(''root_run_id'', JString root_run_id), (''node_id'', JString workflow_node_id),
                                (''preserved_as_evidence'', JBool True)]) log
                      else log);
              row' = row\<lparr>rr_status := ''failed'', rr_completed_at := Some now, rr_leased_at := None,
                         rr_blocked_reason := Some (reason_str reason),
                         rr_node_json := (case node_json of Some text \<Rightarrow> text | None \<Rightarrow> rr_node_json row)\<rparr>
          in Ok (db\<lparr>workflow_run_nodes := hm_put (root_run_id, workflow_node_id) row' (workflow_run_nodes db)\<rparr>, log'))))"

fun terminalize_workflow_nodes :: "serde \<Rightarrow> string \<Rightarrow> string \<Rightarrow> recursive_failure_reason \<Rightarrow> string list \<Rightarrow>
    audited_db \<Rightarrow> (string, audited_db) result" where
  "terminalize_workflow_nodes sd now root_run_id reason [] s = Ok s"
| "terminalize_workflow_nodes sd now root_run_id reason (node_id # ids) s =
     bind_result (terminalize_workflow_node sd now root_run_id reason node_id s)
       (terminalize_workflow_nodes sd now root_run_id reason ids)"

definition control_audit :: "serde \<Rightarrow> string \<Rightarrow> string \<Rightarrow> string \<Rightarrow> recursive_execution_state \<Rightarrow> string list \<Rightarrow>
    audit_row list \<Rightarrow> audit_row list" where
  "control_audit sd now root_run_id workflow_id state terminated log =
     (let log1 = append_audit_locked sd now ''scheduler''
            (if state \<noteq> Running then ''recursive.execution.paused'' else ''recursive.execution.resumed'') root_run_id
            (json_object [(''root_run_id'', JString root_run_id), (''workflow_id'', JString workflow_id),
               (''terminalized_node_count'', json_nat (length terminated))]) log
      in if terminated \<noteq> []
         then append_audit_locked sd now ''scheduler'' ''recursive.execution.leases_terminalized'' root_run_id
                (json_object [(''root_run_id'', JString root_run_id),
                   (''reason'', JString (reason_serde (terminal_node_reason state))),
                   (''node_count'', json_nat (length terminated))]) log1
         else log1)"

text \<open>One turn of the loop over the rows: the row as it was selected, and the state so far.\<close>

definition control_row :: "platform \<Rightarrow> serde \<Rightarrow> string \<Rightarrow> bool \<Rightarrow> string option \<Rightarrow> string \<Rightarrow> tree_row \<Rightarrow>
    audited_db \<times> nat \<Rightarrow> (string, audited_db \<times> nat) result" where
  "control_row pf sd now paused terminal_reason root_run_id row s =
     (let ((db, log), changed) = s in
      bind_result (tree_from_json sd (tw_tree_json row)) (\<lambda>t0.
      reject_if (rt_root_run_id t0 \<noteq> root_run_id \<or> rt_workflow_id t0 \<noteq> tw_workflow_id row \<or>
          rt_root_node_id t0 \<noteq> tw_root_node_id row \<or> rt_schema_version t0 \<noteq> tw_tree_schema_version row)
        ''recursive tree identity or schema conflict''
     (let t = normalize_loaded_tree t0 in
      bind_result (validate_tree_for_persistence pf (tree_to_json sd) t) (\<lambda>_.
      let state = effective_state paused terminal_reason t;
          (terminated, t') = control_tree paused terminal_reason t
      in if rt_version t' = rt_version t then Ok ((db, log), changed)
         else
           bind_result (persist_recursive_tree_control_state pf sd db t' now (Some (rt_version t))) (\<lambda>db1.
           bind_result (terminalize_workflow_nodes sd now root_run_id (terminal_node_reason state) terminated
             (db1, control_audit sd now root_run_id (tw_workflow_id row) state terminated log)) (\<lambda>s'.
           Ok (s', changed + 1)))))))"

fun control_rows :: "platform \<Rightarrow> serde \<Rightarrow> string \<Rightarrow> bool \<Rightarrow> string option \<Rightarrow> (string \<times> tree_row) list \<Rightarrow>
    audited_db \<times> nat \<Rightarrow> (string, audited_db \<times> nat) result" where
  "control_rows pf sd now paused terminal_reason [] s = Ok s"
| "control_rows pf sd now paused terminal_reason ((root_run_id, row) # rows) s =
     bind_result (control_row pf sd now paused terminal_reason root_run_id row s)
       (control_rows pf sd now paused terminal_reason rows)"

definition set_recursive_execution_paused :: "platform \<Rightarrow> serde \<Rightarrow> string \<Rightarrow> bool \<Rightarrow> string option \<Rightarrow> audited_db \<Rightarrow>
    (string, nat \<times> audited_db) result" where
  "set_recursive_execution_paused pf sd now paused terminal_reason s =
     bind_result (control_rows pf sd now paused terminal_reason (recursive_execution_trees (fst s)) (s, 0))
       (\<lambda>(s', changed). Ok (changed, s'))"

section \<open>What is recorded of lost proposals\<close>









section \<open>The writes agree\<close>

lemma save_is_persist:
  "save_recursive_tree_with_expected_version pf sd db t now v = Ok db' \<longleftrightarrow>
     persist_recursive_tree pf sd db t now (Some v) = Ok db'"
  by (auto simp: save_recursive_tree_with_expected_version_def persist_recursive_tree_def
      persist_recursive_tree_inner_def bind_result_Ok_iff validate_tree_for_persistence_def)

text \<open>On PostgreSQL the write is the one SQLite uses for control states, which skips the binding check.\<close>

lemma pg_persist_skips_binding:
  "persist_recursive_tree_pg pf sd db t now v = persist_recursive_tree_control_state pf sd db t now v"
  by (auto simp: persist_recursive_tree_pg_def persist_recursive_tree_control_state_def
      persist_recursive_tree_inner_def check_expected_def Let_def split: option.split intro!: arg_cong [of _ _ "bind_result _"])

section \<open>Control of one tree\<close>

definition node_view :: "recursive_node \<Rightarrow> string option \<times> string option \<times> recursive_node_status" where
  "node_view n = (rn_parent_node_id n, rn_lease_id n, rn_status n)"

lemma node_view_simps [simp]:
  "node_view (n\<lparr>rn_reservation := b\<rparr>) = node_view n" "node_view (n\<lparr>rn_child_budget := b\<rparr>) = node_view n"
  "node_view (n\<lparr>rn_version := v\<rparr>) = node_view n"
  by (simp_all add: node_view_def)

definition views :: "recursive_tree \<Rightarrow> (string option \<times> string option \<times> recursive_node_status) list" where
  "views t = map (\<lambda>(k, n). node_view n) (rt_nodes t)"

lemma views_modify:
  assumes "\<And>n. node_view (g n) = node_view n"
  shows "map (\<lambda>(k, n). node_view n) (bt_modify k g m) = map (\<lambda>(k, n). node_view n) m"
  using assms by (induction m) (auto simp: bt_modify_def)

lemma release_kept [simp]:
  "views (release_node_reservation_for_persistence t k) = views t"
  "rt_root_run_id (release_node_reservation_for_persistence t k) = rt_root_run_id t"
  by (simp_all add: views_def release_node_reservation_for_persistence_def Let_def views_modify
      split: option.split)

lemma release_all_kept [simp]:
  "views (foldl release_node_reservation_for_persistence t ks) = views t"
  "rt_root_run_id (foldl release_node_reservation_for_persistence t ks) = rt_root_run_id t"
  by (induction ks arbitrary: t) simp_all

lemma views_terminates:
  assumes "views t = views t'"
  shows "list_all (\<lambda>n. \<not> control_terminates n) (bt_values (rt_nodes t)) =
         list_all (\<lambda>n. \<not> control_terminates n) (bt_values (rt_nodes t'))"
proof -
  define f :: "string option \<times> string option \<times> recursive_node_status \<Rightarrow> bool"
    where "f = (\<lambda>(p, l, s). (p \<noteq> None \<or> l \<noteq> None) \<and> (s = Ready \<or> s = Leased))"
  have "control_terminates n = f (node_view n)" for n
    by (auto simp: f_def node_view_def control_terminates_def is_live_def)
  then have "list_all (\<lambda>n. \<not> control_terminates n) (bt_values (rt_nodes u)) = list_all (\<lambda>v. \<not> f v) (views u)" for u
    by (auto simp: views_def list_all_iff)
  with assms show ?thesis by simp
qed

text \<open>How often the version was raised.\<close>

lemma inc_u64_iter: "(inc_u64 ^^ Suc j) v = (v + Suc j) mod 2 ^ 64"
  by (induction j) (simp_all add: inc_u64_def mod_Suc_eq del: power_numeral)

lemma mod_shift_neq:
  assumes "0 < j" and "j < (N::nat)"
  shows "(v + j) mod N \<noteq> v"
proof
  assume v: "(v + j) mod N = v"
  have "v < N" using v assms by (metis mod_less_divisor gr_zeroI not_less0)
  then show False using v assms by (cases "v + j < N") (auto simp: le_mod_geq not_less)
qed

lemma inc_u64_iter_neq: "0 < j \<Longrightarrow> j < 2 ^ 64 \<Longrightarrow> (inc_u64 ^^ j) v \<noteq> v"
  using inc_u64_iter [of "j - 1" v] mod_shift_neq [of j "2 ^ 64" v] by simp

lemma release_all_version:
  "\<exists>j \<le> length ks. rt_version (foldl release_node_reservation_for_persistence t ks) = (inc_u64 ^^ j) (rt_version t)"
proof (induction ks rule: rev_induct)
  case (snoc k ks)
  then obtain j where j: "j \<le> length ks"
    "rt_version (foldl release_node_reservation_for_persistence t ks) = (inc_u64 ^^ j) (rt_version t)" by blast
  let ?u = "foldl release_node_reservation_for_persistence t ks"
  have "rt_version (release_node_reservation_for_persistence ?u k) = rt_version ?u \<or>
        rt_version (release_node_reservation_for_persistence ?u k) = inc_u64 (rt_version ?u)"
    by (simp add: release_node_reservation_for_persistence_def Let_def split: option.split)
  then show ?case
  proof
    assume "rt_version (release_node_reservation_for_persistence ?u k) = rt_version ?u"
    then show ?thesis using j by (intro exI [of _ j]) simp
  next
    assume "rt_version (release_node_reservation_for_persistence ?u k) = inc_u64 (rt_version ?u)"
    then show ?thesis using j by (intro exI [of _ "Suc j"]) simp
  qed
qed simp


abbreviation stopping :: "recursive_execution_state set" where
  "stopping \<equiv> {KillStopped, BudgetExhausted, TerminalFailed}"

lemma control_tree_ids:
  "fst (control_tree p r t) = (if effective_state p r t \<in> stopping
     then map rn_node_id (filter control_terminates (bt_values (rt_nodes t))) else [])"
  by (simp add: control_tree_def terminate_live_def Let_def)

lemma control_tree_fields:
  "rt_execution_state (snd (control_tree p r t)) = effective_state p r t"
  "rt_root_run_id (snd (control_tree p r t)) = rt_root_run_id t"
  by (simp_all add: control_tree_def terminate_live_def Let_def)

lemma terminate_live_halts:
  "list_all (\<lambda>n. \<not> control_terminates n) (bt_values (rt_nodes (snd (terminate_live reason t))))"
  by (auto simp: terminate_live_def Let_def list_all_iff control_terminates_def is_live_def)

lemma control_tree_halts:
  assumes "effective_state p r t \<in> stopping"
  shows "list_all (\<lambda>n. \<not> control_terminates n) (bt_values (rt_nodes (snd (control_tree p r t))))"
proof -
  define t1 where "t1 = (if rt_execution_state t \<noteq> effective_state p r t
    then t\<lparr>rt_execution_state := effective_state p r t, rt_version := inc_u64 (rt_version t)\<rparr> else t)"
  let ?t2 = "snd (terminate_live (terminal_node_reason (effective_state p r t)) t1)"
  have "views (snd (control_tree p r t)) = views ?t2"
    using assms by (simp add: control_tree_def t1_def [symmetric] Let_def case_prod_beta) (simp add: views_def)
  then show ?thesis using terminate_live_halts views_terminates by metis
qed

text \<open>An unchanged version means an unchanged tree.\<close>

lemma control_tree_idle:
  assumes "length (rt_nodes t) < 2 ^ 64 - 2" and "rt_version (snd (control_tree p r t)) = rt_version t"
  shows "snd (control_tree p r t) = t"
proof -
  define t1 where "t1 = (if rt_execution_state t \<noteq> effective_state p r t
    then t\<lparr>rt_execution_state := effective_state p r t, rt_version := inc_u64 (rt_version t)\<rparr> else t)"
  define i :: nat where "i = (if rt_execution_state t \<noteq> effective_state p r t then 1 else 0)"
  let ?reason = "terminal_node_reason (effective_state p r t)"
  have v1: "rt_version t1 = (inc_u64 ^^ i) (rt_version t)" "i \<le> 1" by (simp_all add: t1_def i_def)
  show ?thesis
  proof (cases "effective_state p r t \<in> stopping \<and> fst (terminate_live ?reason t1) \<noteq> []")
    case True
    let ?ids = "fst (terminate_live ?reason t1)" and ?t2 = "snd (terminate_live ?reason t1)"
    let ?u = "?t2\<lparr>rt_version := inc_u64 (rt_version ?t2)\<rparr>"
    have eq: "snd (control_tree p r t) = foldl release_node_reservation_for_persistence ?u ?ids"
      using True by (simp add: control_tree_def t1_def [symmetric] Let_def case_prod_beta)
    obtain j where j: "j \<le> length ?ids" "rt_version (snd (control_tree p r t)) = (inc_u64 ^^ j) (rt_version ?u)"
      using release_all_version [of ?ids ?u] unfolding eq by blast
    have "rt_version ?u = (inc_u64 ^^ Suc i) (rt_version t)" by (simp add: terminate_live_def Let_def v1)
    then have "rt_version (snd (control_tree p r t)) = (inc_u64 ^^ (j + Suc i)) (rt_version t)"
      using j(2) by (simp only: funpow_add comp_apply)
    moreover have "rt_nodes t1 = rt_nodes t" by (simp add: t1_def)
    then have "length ?ids \<le> length (rt_nodes t)" by (simp add: terminate_live_def Let_def le_trans [OF length_filter_le])
    then have "j + Suc i < 2 ^ 64" using assms(1) j(1) v1(2) by simp
    ultimately have False using inc_u64_iter_neq [of "j + Suc i" "rt_version t"] assms(2) by simp
    then show ?thesis ..
  next
    case False
    have idle: "snd (terminate_live ?reason t1) = t1" if "fst (terminate_live ?reason t1) = []"
    proof -
      have none: "filter control_terminates (bt_values (rt_nodes t1)) = []"
        using that by (simp add: terminate_live_def Let_def)
      then have "map (\<lambda>(k, n). (k, if control_terminates n then g n else n)) (rt_nodes t1) = rt_nodes t1" for g
        by (auto simp: filter_empty_conv intro!: map_idI)
      with none show ?thesis by (simp add: terminate_live_def Let_def)
    qed
    have "snd (control_tree p r t) = t1"
      using False idle by (auto simp: control_tree_def t1_def [symmetric] Let_def case_prod_beta)
    moreover have "t1 = t"
      using assms(2) inc_u64_iter_neq [of 1 "rt_version t"] calculation by (auto simp: t1_def split: if_splits)
    ultimately show ?thesis by simp
  qed
qed


section \<open>Control of all trees\<close>

lemma control_state_persisted:
  assumes "persist_recursive_tree_control_state pf sd db t now v = Ok db'"
  obtains json where "tree_to_json sd t = Ok json"
    "db' = db\<lparr>recursive_execution_trees := hm_put (rt_root_run_id t) (tree_row_of db t json now) (recursive_execution_trees db),
       recursive_execution_nodes := index_nodes t now (recursive_execution_nodes db)\<rparr>"
  using assms
  by (auto simp: persist_recursive_tree_control_state_def persist_recursive_tree_inner_def bind_result_Ok_iff
      validate_tree_for_persistence_def closing_checks_def split: option.splits)

text \<open>A workflow node that no worker can still hold: its run is gone, it has no row, or the row has failed.\<close>

definition workflow_closed :: "product_db \<Rightarrow> string \<Rightarrow> string \<Rightarrow> bool" where
  "workflow_closed db run node_id \<longleftrightarrow>
     hm_get (workflow_runs db) run = None \<or>
     (case hm_get (workflow_run_nodes db) (run, node_id) of
        None \<Rightarrow> True
      | Some row \<Rightarrow> rr_status row = ''failed'' \<and> rr_leased_at row = None)"

text \<open>What a step for one run leaves alone.\<close>

definition other_runs_kept :: "string \<Rightarrow> product_db \<Rightarrow> product_db \<Rightarrow> bool" where
  "other_runs_kept run db db' \<longleftrightarrow> workflow_runs db' = workflow_runs db \<and>
     (\<forall>r. r \<noteq> run \<longrightarrow> hm_get (recursive_execution_trees db') r = hm_get (recursive_execution_trees db) r \<and>
        (\<forall>n. hm_get (workflow_run_nodes db') (r, n) = hm_get (workflow_run_nodes db) (r, n)))"

lemma terminalize_node_effect:
  assumes "terminalize_workflow_node sd now run reason node_id (db, log) = Ok (db', log')"
  shows "recursive_execution_trees db' = recursive_execution_trees db" "workflow_runs db' = workflow_runs db"
    "workflow_closed db' run node_id"
    "\<And>r n. (r, n) \<noteq> (run, node_id) \<Longrightarrow> hm_get (workflow_run_nodes db') (r, n) = hm_get (workflow_run_nodes db) (r, n)"
proof -
  have "(db' = db \<and> workflow_closed db run node_id) \<or>
      (\<exists>row. rr_status row = ''failed'' \<and> rr_leased_at row = None \<and>
        db' = db\<lparr>workflow_run_nodes := hm_put (run, node_id) row (workflow_run_nodes db)\<rparr>)"
  proof (cases "hm_get (workflow_runs db) run = None \<or> hm_get (workflow_run_nodes db) (run, node_id) = None")
    case True
    then show ?thesis using assms by (auto simp: terminalize_workflow_node_def workflow_closed_def split: if_splits)
  next
    case False
    then obtain row where row: "hm_get (workflow_run_nodes db) (run, node_id) = Some row"
      "hm_get (workflow_runs db) run \<noteq> None" by auto
    obtain b j where "db' = db\<lparr>workflow_run_nodes := hm_put (run, node_id) (row\<lparr>rr_status := ''failed'',
        rr_completed_at := Some now, rr_leased_at := None, rr_blocked_reason := b, rr_node_json := j\<rparr>) (workflow_run_nodes db)\<rparr>"
      using assms row by (auto simp: terminalize_workflow_node_def Let_def)
    then show ?thesis by (intro disjI2 exI [of _ "row\<lparr>rr_status := ''failed'',
        rr_completed_at := Some now, rr_leased_at := None, rr_blocked_reason := b, rr_node_json := j\<rparr>"]) simp
  qed
  then show "recursive_execution_trees db' = recursive_execution_trees db" "workflow_runs db' = workflow_runs db"
    "workflow_closed db' run node_id"
    "\<And>r n. (r, n) \<noteq> (run, node_id) \<Longrightarrow> hm_get (workflow_run_nodes db') (r, n) = hm_get (workflow_run_nodes db) (r, n)"
    by (auto simp: workflow_closed_def map_laws)
qed

lemma terminalize_nodes_effect:
  assumes "terminalize_workflow_nodes sd now run reason ids (db, log) = Ok (db', log')"
  shows "recursive_execution_trees db' = recursive_execution_trees db \<and> workflow_runs db' = workflow_runs db \<and>
    (\<forall>r n. r \<noteq> run \<or> n \<notin> set ids \<longrightarrow>
       hm_get (workflow_run_nodes db') (r, n) = hm_get (workflow_run_nodes db) (r, n)) \<and>
    (\<forall>n \<in> set ids. workflow_closed db' run n)"
  using assms
proof (induction ids arbitrary: db log)
  case (Cons i ids)
  then obtain db1 log1 where one: "terminalize_workflow_node sd now run reason i (db, log) = Ok (db1, log1)"
    and rest: "terminalize_workflow_nodes sd now run reason ids (db1, log1) = Ok (db', log')"
    by (auto simp: bind_result_Ok_iff)
  note eff = terminalize_node_effect [OF one] and IH = Cons.IH [OF rest]
  have "workflow_closed db' run i"
  proof (cases "i \<in> set ids")
    case False
    then show ?thesis using eff(3) IH by (simp add: workflow_closed_def)
  qed (use IH in blast)
  with eff(1,2,4) IH show ?case by auto
qed simp

definition halted :: "recursive_tree \<Rightarrow> bool" where
  "halted t \<longleftrightarrow> rt_execution_state t \<in> insert Completed stopping \<and>
     (rt_execution_state t = Completed \<or> list_all (\<lambda>n. \<not> control_terminates n) (bt_values (rt_nodes t)))"

text \<open>What the kill leaves of one row: \<open>t\<close> is the tree that was stored, \<open>t'\<close> the one that is stored now.\<close>

definition run_halted :: "serde \<Rightarrow> tree_row \<Rightarrow> string \<Rightarrow> product_db \<Rightarrow> bool" where
  "run_halted sd row run db' \<longleftrightarrow>
     (\<exists>t t' row'. tree_from_json sd (tw_tree_json row) = Ok t \<and>
        hm_get (recursive_execution_trees db') run = Some row' \<and>
        (row' = row \<and> t' = normalize_loaded_tree t \<or> tree_to_json sd t' = Ok (tw_tree_json row')) \<and>
        halted t' \<and>
        (rt_execution_state t' = Completed \<or>
         list_all (\<lambda>n. control_terminates n \<longrightarrow> workflow_closed db' run (rn_node_id n)) (bt_values (rt_nodes t))))"

abbreviation kill_reason :: "string option" where
  "kill_reason \<equiv> Some (reason_str RecursiveKillSwitchActive)"

lemma kill_state: "effective_state True kill_reason t \<in> insert Completed stopping"
  by (auto simp: effective_state_def)

lemma halted_control: "halted (snd (control_tree True kill_reason t))"
  using kill_state [of t] control_tree_halts [of True kill_reason t]
  by (auto simp: halted_def control_tree_fields)

lemma normalize_nodes [simp]:
  "rt_nodes (normalize_loaded_tree t) = rt_nodes t" "rt_root_run_id (normalize_loaded_tree t) = rt_root_run_id t"
  by (simp_all add: normalize_loaded_tree_def)

lemma control_row_cases:
  assumes "control_row pf sd now p r run row ((db, log), c) = Ok ((db', log'), c')"
  obtains t where "tree_from_json sd (tw_tree_json row) = Ok t" "rt_root_run_id t = run"
    "length (rt_nodes t) < 2 ^ 64 - 2"
    "db' = db \<and> rt_version (snd (control_tree p r (normalize_loaded_tree t))) = rt_version (normalize_loaded_tree t) \<or>
     (\<exists>db1 log1 reason. persist_recursive_tree_control_state pf sd db (snd (control_tree p r (normalize_loaded_tree t))) now
         (Some (rt_version (normalize_loaded_tree t))) = Ok db1 \<and>
       terminalize_workflow_nodes sd now run reason (fst (control_tree p r (normalize_loaded_tree t))) (db1, log1) = Ok (db', log'))"
proof -
  obtain t json where t: "tree_from_json sd (tw_tree_json row) = Ok t" "rt_root_run_id t = run"
    "validate_tree_for_persistence pf (tree_to_json sd) (normalize_loaded_tree t) = Ok json"
    using assms by (auto simp: control_row_def bind_result_Ok_iff Let_def)
  then have "length (rt_nodes t) \<le> MAX_RECURSIVE_NODES_PER_ROOT"
    by (simp add: validate_tree_for_persistence_def)
  then have len: "length (rt_nodes t) < 2 ^ 64 - 2" by (simp add: MAX_RECURSIVE_NODES_PER_ROOT_def)
  show ?thesis
    using assms t(1)
    by (intro that [OF t(1,2) len])
      (auto simp: control_row_def bind_result_Ok_iff Let_def case_prod_beta split: if_splits)
qed


lemma control_row_kill:
  assumes ok: "control_row pf sd now True kill_reason run row ((db, log), c) = Ok ((db', log'), c')"
    and row: "hm_get (recursive_execution_trees db) run = Some row"
  shows "run_halted sd row run db'" and "other_runs_kept run db db'"
proof -
  obtain t where t: "tree_from_json sd (tw_tree_json row) = Ok t" "rt_root_run_id t = run"
    "length (rt_nodes t) < 2 ^ 64 - 2"
    "db' = db \<and> rt_version (snd (control_tree True kill_reason (normalize_loaded_tree t))) = rt_version (normalize_loaded_tree t) \<or>
     (\<exists>db1 log1 reason. persist_recursive_tree_control_state pf sd db (snd (control_tree True kill_reason (normalize_loaded_tree t))) now
         (Some (rt_version (normalize_loaded_tree t))) = Ok db1 \<and>
       terminalize_workflow_nodes sd now run reason (fst (control_tree True kill_reason (normalize_loaded_tree t))) (db1, log1) = Ok (db', log'))"
    by (rule control_row_cases [OF ok])
  let ?t = "normalize_loaded_tree t" and ?t' = "snd (control_tree True kill_reason (normalize_loaded_tree t))"
  have halted: "halted ?t'" by (rule halted_control)
  from t(4) have "run_halted sd row run db' \<and> other_runs_kept run db db'"
  proof (elim disjE exE conjE)
    assume same: "db' = db" "rt_version ?t' = rt_version ?t"
    have idle: "?t' = ?t" using control_tree_idle same(2) t(3) by simp
    then have "rt_execution_state ?t = Completed \<or> list_all (\<lambda>n. \<not> control_terminates n) (bt_values (rt_nodes t))"
      using halted by (simp add: halted_def)
    then have "run_halted sd row run db'" unfolding run_halted_def
      using t(1) row halted idle same(1) by (intro exI [of _ t] exI [of _ ?t] exI [of _ row]) (auto simp: list_all_iff)
    then show ?thesis using same(1) by (simp add: other_runs_kept_def)
  next
    fix db1 log1 reason
    assume p: "persist_recursive_tree_control_state pf sd db ?t' now (Some (rt_version ?t)) = Ok db1"
      and w: "terminalize_workflow_nodes sd now run reason (fst (control_tree True kill_reason ?t)) (db1, log1) = Ok (db', log')"
    obtain json where json: "tree_to_json sd ?t' = Ok json"
      and db1: "db1 = db\<lparr>recursive_execution_trees := hm_put (rt_root_run_id ?t') (tree_row_of db ?t' json now) (recursive_execution_trees db),
         recursive_execution_nodes := index_nodes ?t' now (recursive_execution_nodes db)\<rparr>"
      by (rule control_state_persisted [OF p])
    note eff = terminalize_nodes_effect [OF w]
    have ids: "rn_node_id n \<in> set (fst (control_tree True kill_reason ?t))"
      if "n \<in> set (bt_values (rt_nodes t))" "control_terminates n" "effective_state True kill_reason ?t \<in> stopping" for n
      using that by (force simp: control_tree_ids)
    have new: "hm_get (recursive_execution_trees db') run = Some (tree_row_of db ?t' json now)"
      using eff by (simp add: db1 control_tree_fields t(2) map_laws)
    have "rt_execution_state ?t' = Completed \<or>
        list_all (\<lambda>n. control_terminates n \<longrightarrow> workflow_closed db' run (rn_node_id n)) (bt_values (rt_nodes t))"
      using kill_state [of ?t] eff ids by (auto simp: control_tree_fields list_all_iff)
    then have "run_halted sd row run db'" unfolding run_halted_def
      using t(1) new halted json
      by (intro exI [of _ t] exI [of _ ?t'] exI [of _ "tree_row_of db ?t' json now"]) (simp add: tree_row_of_def)
    moreover have "other_runs_kept run db db'" using eff by (simp add: other_runs_kept_def db1 control_tree_fields t(2) map_laws)
    ultimately show ?thesis ..
  qed
  then show "run_halted sd row run db'" and "other_runs_kept run db db'" by simp_all
qed

lemma run_halted_kept: "\<lbrakk>run_halted sd row run db; other_runs_kept r db db'; r \<noteq> run\<rbrakk> \<Longrightarrow> run_halted sd row run db'"
  by (simp add: run_halted_def other_runs_kept_def workflow_closed_def)

lemma control_rows_kill:
  assumes "control_rows pf sd now True kill_reason rows ((db, log), c) = Ok ((db', log'), c')"
    and "distinct (map fst rows)" and "\<And>run row. (run, row) \<in> set rows \<Longrightarrow> hm_get (recursive_execution_trees db) run = Some row"
  shows "(\<forall>(run, row) \<in> set rows. run_halted sd row run db') \<and>
    (\<forall>run row. run \<notin> fst ` set rows \<longrightarrow> run_halted sd row run db \<longrightarrow> run_halted sd row run db')"
  using assms
proof (induction rows arbitrary: db log c)
  case (Cons x rows)
  obtain run row where x: "x = (run, row)" by (cases x)
  obtain db1 log1 c1 where one: "control_row pf sd now True kill_reason run row ((db, log), c) = Ok ((db1, log1), c1)"
    and rest: "control_rows pf sd now True kill_reason rows ((db1, log1), c1) = Ok ((db', log'), c')"
    using Cons.prems(1) by (auto simp: x bind_result_Ok_iff)
  have get: "hm_get (recursive_execution_trees db) run = Some row" using Cons.prems(3) by (simp add: x)
  note eff = control_row_kill [OF one get]
  have new: "run \<notin> fst ` set rows" and dist: "distinct (map fst rows)" using Cons.prems(2) by (simp_all add: x)
  have "hm_get (recursive_execution_trees db1) r = Some w" if "(r, w) \<in> set rows" for r w
  proof -
    have "r \<noteq> run" using that new by force
    then show ?thesis using eff(2) Cons.prems(3) [of r w] that by (simp add: other_runs_kept_def)
  qed
  note IH = Cons.IH [OF rest dist this]
  have "run_halted sd row run db'" using IH new eff(1) by blast
  moreover have "run_halted sd w r db'" if "r \<notin> fst ` set (x # rows)" "run_halted sd w r db" for r w
    using IH that run_halted_kept [OF that(2) eff(2)] by (auto simp: x)
  ultimately show ?case using IH by (auto simp: x)
qed simp


text \<open>C15. The kill switch reaches every tree. When the control call with the kill reason succeeds, then for every
  stored row: the tree stored afterwards is in a final state; unless it had completed, none of its nodes can
  run any more (no child and no leased node is ready or leased), and the workflow node of every node that
  could run before is failed with its lease cleared, so no worker still holds it.\<close>

theorem kill_reaches_every_tree:
  assumes "set_recursive_execution_paused pf sd now True (Some (reason_str RecursiveKillSwitchActive)) (db, log) =
      Ok (changed, db', log')"
    and "distinct (map fst (recursive_execution_trees db))"
  shows "\<forall>(run, row) \<in> set (recursive_execution_trees db). run_halted sd row run db'"
  using assms(1) control_rows_kill [OF _ assms(2), of pf sd now db log 0 db' log' changed] assms(2)
  by (auto simp: set_recursive_execution_paused_def bind_result_Ok_iff split: prod.splits)

definition sample_control_db :: "product_db" where
  "sample_control_db = sample_db\<lparr>workflow_run_nodes :=
     ((''run'', child_id), \<lparr>rr_task_type = ''agent_step'', rr_status = ''running'', rr_node_json = ''child'',
       rr_completed_at = None, rr_leased_at = Some ''now'', rr_blocked_reason = None\<rparr>) # workflow_run_nodes sample_db\<rparr>"

lemma sample_killed:
  "case persist_recursive_tree sample_platform (sample_serde (Ok sample_leased)) sample_control_db sample_leased ''now'' (Some 0) of
     Inl _ \<Rightarrow> False
   | Inr db \<Rightarrow> map fst (recursive_execution_trees db) = [''run''] \<and>
       (case set_recursive_execution_paused sample_platform (sample_serde (Ok sample_leased)) ''later'' True
          (Some (reason_str RecursiveKillSwitchActive)) (db, []) of
          Inl _ \<Rightarrow> False
        | Inr (changed, db', log) \<Rightarrow> changed = 1 \<and> map au_action log =
            [''recursive.execution.paused'', ''recursive.execution.leases_terminalized'', ''recursive.workflow_binding.malformed''])"
  by code_simp

theorem kill_reaches_every_tree_witness:
  "\<exists>db row db' log. set_recursive_execution_paused sample_platform (sample_serde (Ok sample_leased)) ''later'' True
      (Some (reason_str RecursiveKillSwitchActive)) (db, []) = Ok (1, db', log) \<and>
     hm_get (recursive_execution_trees db) ''run'' = Some row \<and> run_halted (sample_serde (Ok sample_leased)) row ''run'' db'"
proof -
  obtain db row db' log where row: "recursive_execution_trees db = [(''run'', row)]"
    and w: "set_recursive_execution_paused sample_platform (sample_serde (Ok sample_leased)) ''later'' True
      (Some (reason_str RecursiveKillSwitchActive)) (db, []) = Ok (1, db', log)"
    using sample_killed by (auto split: sum.splits prod.splits simp del: reason_str.simps)
  have "run_halted (sample_serde (Ok sample_leased)) row ''run'' db'"
    using kill_reaches_every_tree [OF w] by (simp add: row)
  with w row show ?thesis by (intro exI [of _ db] exI [of _ row] exI [of _ db'] exI [of _ log]) simp
qed

end
