(* ===== verification/Dag_Mutation_Policy.thy ===== *)
theory Dag_Mutation_Policy
  imports Json_Value Rust_Text
begin

text \<open>
  The policy for changes of a DAG, src/engine/src/workflow/dag\_mutations.rs: which mutations exist, the
  limits on nodes and edges, when an approval is needed, and the mutation and audit event derived from one.
\<close>

section \<open>Data\<close>

definition SUPPORTED_DAG_MUTATIONS :: "string list" where
  "SUPPORTED_DAG_MUTATIONS =
     [''add_node'', ''remove_node'', ''split_node'', ''retry_node'', ''pause_node'', ''resume_node'',
      ''replace_edge'', ''rollback'']"

record dag_mutation_limits =
  dl_max_nodes :: int
  dl_max_edges :: int

definition default_dag_mutation_limits :: dag_mutation_limits where
  "default_dag_mutation_limits = \<lparr>dl_max_nodes = 1000, dl_max_edges = 5000\<rparr>"

record dag_mutation =
  dm_mutation_id :: string
  dm_dag_id :: string
  dm_mutation_type :: string
  dm_target_node_id :: "string option"
  dm_target_edge_id :: "string option"
  dm_payload :: "(string, json) hash_map"
  dm_reason :: string
  dm_requires_approval :: bool
  dm_status :: string

definition default_dag_mutation :: dag_mutation where
  "default_dag_mutation =
     \<lparr>dm_mutation_id = [], dm_dag_id = [], dm_mutation_type = [], dm_target_node_id = None,
      dm_target_edge_id = None, dm_payload = [], dm_reason = [], dm_requires_approval = False,
      dm_status = ''pending''\<rparr>"

record dag_mutation_audit_event =
  de_event_type :: string
  de_mutation_id :: string
  de_dag_id :: string
  de_mutation_type :: string
  de_payload :: "(string, json) hash_map"
  de_reason :: string

record dag_mutation_validation =
  dv_ok :: bool
  dv_errors :: "string list"
  dv_warnings :: "string list"

section \<open>Limits\<close>

text \<open>An integer member of the payload; absent or of another type it counts as zero.\<close>

definition payload_i64 :: "dag_mutation \<Rightarrow> string \<Rightarrow> int" where
  "payload_i64 m k = unwrap_or (Option.bind (hm_get (dm_payload m) k) as_i64) 0"

definition node_delta :: "dag_mutation \<Rightarrow> int" where
  "node_delta m =
     (if dm_mutation_type m = ''add_node'' then 1
      else if dm_mutation_type m = ''remove_node'' then - 1
      else if dm_mutation_type m = ''split_node'' then wrap_i64 (payload_i64 m ''replacement_node_count'' - 1)
      else 0)"

definition edge_delta :: "dag_mutation \<Rightarrow> int" where
  "edge_delta m =
     (if dm_mutation_type m = ''split_node'' then payload_i64 m ''added_edge_count''
      else if dm_mutation_type m = ''replace_edge'' then 0
      else payload_i64 m ''edge_delta'')"

definition validate_dag_mutation :: "dag_mutation \<Rightarrow> int \<Rightarrow> int \<Rightarrow> dag_mutation_limits \<Rightarrow> dag_mutation_validation" where
  "validate_dag_mutation m current_node_count current_edge_count limits =
     (let unsupported = (if dm_mutation_type m \<notin> set SUPPORTED_DAG_MUTATIONS
            then [''unsupported mutation_type: '' @ dm_mutation_type m] else []);
          next_node_count = wrap_i64 (current_node_count + node_delta m);
          next_edge_count = wrap_i64 (current_edge_count + edge_delta m);
          nodes = (if dl_max_nodes limits < next_node_count
            then [''mutation would exceed max_nodes: '' @ show_int next_node_count @ '' > '' @ show_int (dl_max_nodes limits)]
            else []);
          edges = (if dl_max_edges limits < next_edge_count
            then [''mutation would exceed max_edges: '' @ show_int next_edge_count @ '' > '' @ show_int (dl_max_edges limits)]
            else []);
          errors = unsupported @ nodes @ edges
      in \<lparr>dv_ok = (errors = []), dv_errors = errors, dv_warnings = []\<rparr>)"

section \<open>Approval\<close>

definition dag_mutation_requires_approval ::
  "dag_mutation \<Rightarrow> string option \<Rightarrow> string option \<Rightarrow> bool \<Rightarrow> bool" where
  "dag_mutation_requires_approval m target_node_status source_node_status affects_artifacts =
     (if dm_requires_approval m then True
      else if affects_artifacts then True
      else
        let needs_approval_on_active = dm_mutation_type m \<in>
              {''remove_node'', ''split_node'', ''retry_node'', ''pause_node'', ''replace_edge''}
        in if needs_approval_on_active \<and>
              (target_node_status = Some ''running'' \<or> target_node_status = Some ''completed'') then True
           else if dm_mutation_type m = ''replace_edge'' \<and> source_node_status = Some ''completed'' then True
           else False)"

section \<open>Compensation and audit\<close>

definition inverse_types :: "(string, string) hash_map" where
  "inverse_types =
     [(''add_node'', ''remove_node''), (''remove_node'', ''add_node''), (''split_node'', ''rollback''),
      (''retry_node'', ''rollback''), (''pause_node'', ''resume_node''), (''resume_node'', ''pause_node''),
      (''replace_edge'', ''replace_edge''), (''rollback'', ''rollback'')]"

text \<open>\<^verbatim>\<open>str::trim_end\<close>.\<close>

definition trim_end_whitespace :: "string \<Rightarrow> string" where
  "trim_end_whitespace s = rev (dropWhile is_whitespace (rev s))"

definition create_compensating_mutation :: "dag_mutation \<Rightarrow> (string, json) hash_map option \<Rightarrow> dag_mutation" where
  "create_compensating_mutation m previous_payload =
     \<lparr>dm_mutation_id = ''comp_'' @ dm_mutation_id m,
      dm_dag_id = dm_dag_id m,
      dm_mutation_type = unwrap_or (hm_get inverse_types (dm_mutation_type m)) (dm_mutation_type m),
      dm_target_node_id = dm_target_node_id m,
      dm_target_edge_id = dm_target_edge_id m,
      dm_payload = hm_put ''compensates'' (JString (dm_mutation_id m)) (unwrap_or previous_payload (dm_payload m)),
      dm_reason = trim_end_whitespace (''compensate '' @ dm_mutation_id m @ '': '' @ dm_reason m),
      dm_requires_approval = False,
      dm_status = ''pending''\<rparr>"

definition mutation_to_audit_event :: "dag_mutation \<Rightarrow> dag_mutation_audit_event" where
  "mutation_to_audit_event m =
     \<lparr>de_event_type = ''dag_mutation_recorded'', de_mutation_id = dm_mutation_id m, de_dag_id = dm_dag_id m,
      de_mutation_type = dm_mutation_type m,
      de_payload =
        hm_put ''target_node_id'' (json_option (dm_target_node_id m))
       (hm_put ''target_edge_id'' (json_option (dm_target_edge_id m))
       (hm_put ''status'' (JString (dm_status m))
       (hm_put ''requires_approval'' (JBool (dm_requires_approval m))
       (hm_put ''payload'' (json_object (dm_payload m)) [])))),
      de_reason = dm_reason m\<rparr>"

section \<open>Properties\<close>

lemma supported_iff:
  "t \<in> set SUPPORTED_DAG_MUTATIONS \<longleftrightarrow>
     t = ''add_node'' \<or> t = ''remove_node'' \<or> t = ''split_node'' \<or> t = ''retry_node'' \<or> t = ''pause_node'' \<or>
     t = ''resume_node'' \<or> t = ''replace_edge'' \<or> t = ''rollback''"
  by (simp only: SUPPORTED_DAG_MUTATIONS_def list.set insert_iff empty_iff simp_thms)

lemma compensating_simps [simp]:
  "dm_mutation_type (create_compensating_mutation m p) =
     unwrap_or (hm_get inverse_types (dm_mutation_type m)) (dm_mutation_type m)"
  "dm_payload (create_compensating_mutation m p) =
     hm_put ''compensates'' (JString (dm_mutation_id m)) (unwrap_or p (dm_payload m))"
  by (simp_all add: create_compensating_mutation_def)

lemma compensating_payload:
  "k \<noteq> ''compensates'' \<Longrightarrow> payload_i64 (create_compensating_mutation m None) k = payload_i64 m k"
  by (simp add: payload_i64_def map_laws)

lemma inverse_type_simps:
  "hm_get inverse_types ''add_node'' = Some ''remove_node''" "hm_get inverse_types ''remove_node'' = Some ''add_node''"
  "hm_get inverse_types ''retry_node'' = Some ''rollback''" "hm_get inverse_types ''pause_node'' = Some ''resume_node''"
  "hm_get inverse_types ''resume_node'' = Some ''pause_node''" "hm_get inverse_types ''replace_edge'' = Some ''replace_edge''"
  "hm_get inverse_types ''rollback'' = Some ''rollback''"
  by (simp_all add: inverse_types_def)

text \<open>What compensation undoes. For every supported mutation other than a split, the compensating mutation is
  supported, names what it compensates, takes back the change of the node count, and compensating twice gives
  the first type again unless it was a retry. The change of the edge count is not taken back: the compensating
  mutation claims the same edges once more, with the same sign, so validation refuses to undo a mutation whose
  edges fill more than half of what was left below the limit.\<close>

lemma compensation_effect:
  assumes "dm_mutation_type m \<in> set SUPPORTED_DAG_MUTATIONS" and "dm_mutation_type m \<noteq> ''split_node''"
  defines "c \<equiv> create_compensating_mutation m None"
  shows "dm_mutation_type c \<in> set SUPPORTED_DAG_MUTATIONS \<and>
         hm_get (dm_payload c) ''compensates'' = Some (JString (dm_mutation_id m)) \<and>
         node_delta m + node_delta c = 0 \<and>
         (dm_mutation_type m = ''retry_node'' \<or>
          dm_mutation_type (create_compensating_mutation c None) = dm_mutation_type m) \<and>
         edge_delta c = edge_delta m \<and>
         (\<forall>n e limits. in_i64 (e + 2 * edge_delta m) \<and> dl_max_edges limits < e + 2 * edge_delta m \<longrightarrow>
            \<not> dv_ok (validate_dag_mutation c n (e + edge_delta m) limits))"
proof -
  have c: "dm_mutation_type c = unwrap_or (hm_get inverse_types (dm_mutation_type m)) (dm_mutation_type m)"
    "hm_get (dm_payload c) ''compensates'' = Some (JString (dm_mutation_id m))"
    "payload_i64 c ''edge_delta'' = payload_i64 m ''edge_delta''"
    by (simp_all add: c_def compensating_payload map_laws)
  have refused: "edge_delta c = edge_delta m \<longrightarrow> in_i64 (e + 2 * edge_delta m) \<and> dl_max_edges limits < e + 2 * edge_delta m \<longrightarrow>
      \<not> dv_ok (validate_dag_mutation c n (e + edge_delta m) limits)" for n e and limits :: dag_mutation_limits
    using wrap_i64_exact [of "e + 2 * edge_delta m"] by (simp add: validate_dag_mutation_def Let_def algebra_simps)
  have "dm_mutation_type c \<in> set SUPPORTED_DAG_MUTATIONS \<and>
         hm_get (dm_payload c) ''compensates'' = Some (JString (dm_mutation_id m)) \<and>
         node_delta m + node_delta c = 0 \<and>
         (dm_mutation_type m = ''retry_node'' \<or>
          dm_mutation_type (create_compensating_mutation c None) = dm_mutation_type m) \<and>
         edge_delta c = edge_delta m"
    using assms(1) [unfolded supported_iff]
  proof (elim disjE)
    assume "dm_mutation_type m = ''split_node''"
    then show ?thesis using assms(2) by contradiction
  qed (simp_all add: c inverse_type_simps supported_iff node_delta_def edge_delta_def)
  with refused show ?thesis by blast
qed


lemma compensation_effect_example:
  "let m = default_dag_mutation\<lparr>dm_mutation_id := ''m1'', dm_mutation_type := ''add_node'',
             dm_payload := [(''edge_delta'', JNumber (PosInt 3))]\<rparr>;
       c = create_compensating_mutation m None
   in node_delta m + node_delta c = 0 \<and> edge_delta m = 3 \<and>
      dv_ok (validate_dag_mutation m 10 4995 default_dag_mutation_limits) \<and>
      \<not> dv_ok (validate_dag_mutation c 11 4998 default_dag_mutation_limits)"
proof -
  let ?m = "default_dag_mutation\<lparr>dm_mutation_id := ''m1'', dm_mutation_type := ''add_node'',
             dm_payload := [(''edge_delta'', JNumber (PosInt 3))]\<rparr>"
  have "dm_mutation_type ?m \<in> set SUPPORTED_DAG_MUTATIONS" "dm_mutation_type ?m \<noteq> ''split_node''"
    by (simp_all add: supported_iff)
  note all = compensation_effect [OF this]
  have delta: "edge_delta ?m = 3" "node_delta ?m = 1" by (simp_all add: edge_delta_def node_delta_def payload_i64_def)
  have "dv_ok (validate_dag_mutation ?m 10 4995 default_dag_mutation_limits)"
    by (simp add: validate_dag_mutation_def delta supported_iff default_dag_mutation_limits_def wrap_i64_def Let_def)
  moreover have "in_i64 (4995 + 2 * edge_delta ?m) \<and> dl_max_edges default_dag_mutation_limits < 4995 + 2 * edge_delta ?m"
    by (simp add: delta default_dag_mutation_limits_def in_i64_def)
  then have "\<not> dv_ok (validate_dag_mutation (create_compensating_mutation ?m None) 11 (4995 + edge_delta ?m) default_dag_mutation_limits)"
    using all by blast
  ultimately show ?thesis using all delta unfolding Let_def by simp
qed

end
