(* ===== verification/Task_Decomposer.thy ===== *)
theory Task_Decomposer
  imports Dependency_Theorems Float_Ops "HOL-Library.State_Monad"
begin

text \<open>
  From a task analysis to a workflow graph: the runtime that hands out identifiers
  (src/engine/src/runtime.rs), the registry of agent roles (orchestration/agent\_role\_registry.rs) and the
  decomposer (orchestration/task\_decomposer.rs). The decomposer threads the registry and the runtime
  through its calls; here it is written in the state monad. The order in which the hash map of roles is
  walked is the argument \<open>order\<close>, a list of role identifiers.
\<close>

section \<open>Identifiers\<close>

definition FIXTURE_TIMESTAMP :: string where
  "FIXTURE_TIMESTAMP = ''2000-01-01T00:00:00+00:00''"

type_synonym fixture_runtime = "(string, nat) btree_map"

text \<open>\<^verbatim>\<open>{counter:04}\<close>: at least four digits.\<close>

definition pad4 :: "nat \<Rightarrow> string" where
  "pad4 n = replicate (4 - length (show_nat n)) (CHR ''0'') @ show_nat n"

definition runtime_id :: "string \<Rightarrow> fixture_runtime \<Rightarrow> string \<times> fixture_runtime" where
  "runtime_id prefix counters =
     (let counter = unwrap_or (bt_get counters prefix) 0 + 1
      in (prefix @ pad4 counter, bt_put prefix counter counters))"

section \<open>The registry of roles\<close>

record 'f agent_role =
  role_schema_version :: string
  role_id :: string
  role_name :: string
  role_capabilities :: "string list"
  max_concurrent_nodes :: nat
  role_budget_limit :: 'f

record 'f agent_role_registry =
  reg_roles :: "(string, 'f agent_role) hash_map"
  reg_active_count :: "(string, nat) hash_map"
  reg_assignments :: "(string \<times> string, string) hash_map"

definition new_registry :: "'f agent_role_registry" where
  "new_registry = \<lparr>reg_roles = [], reg_active_count = [], reg_assignments = []\<rparr>"

definition register_role :: "'f agent_role \<Rightarrow> 'f agent_role_registry \<Rightarrow> 'f agent_role_registry" where
  "register_role role reg =
     reg\<lparr>reg_active_count := hm_or_insert (role_id role) 0 (reg_active_count reg),
         reg_roles := hm_put (role_id role) role (reg_roles reg)\<rparr>"

definition roles_for_task_type :: "string list \<Rightarrow> 'f agent_role_registry \<Rightarrow> string \<Rightarrow> 'f agent_role list" where
  "roles_for_task_type order reg task_type =
     filter (\<lambda>r. task_type \<in> set (role_capabilities r)) (List.map_filter (hm_get (reg_roles reg)) order)"

fun assign_first :: "string list \<Rightarrow> string \<Rightarrow> string \<Rightarrow> 'f agent_role_registry \<Rightarrow>
    string option \<times> 'f agent_role_registry" where
  "assign_first [] workflow_id node_id reg = (None, reg)"
| "assign_first (rid # candidates) workflow_id node_id reg =
     (let active = unwrap_or (hm_get (reg_active_count reg) rid) 0 in
      case hm_get (reg_roles reg) rid of
        None \<Rightarrow> assign_first candidates workflow_id node_id reg
      | Some role \<Rightarrow>
          if active < max_concurrent_nodes role
          then (Some rid, reg\<lparr>reg_active_count := hm_put rid (active + 1) (reg_active_count reg),
                              reg_assignments := hm_put (workflow_id, node_id) rid (reg_assignments reg)\<rparr>)
          else assign_first candidates workflow_id node_id reg)"

definition assign_agent :: "string list \<Rightarrow> string \<Rightarrow> string \<Rightarrow> string \<Rightarrow> 'f agent_role_registry \<Rightarrow>
    string option \<times> 'f agent_role_registry" where
  "assign_agent order workflow_id node_id task_type reg =
     assign_first (map role_id (roles_for_task_type order reg task_type)) workflow_id node_id reg"

definition release_agent :: "string \<Rightarrow> 'f agent_role_registry \<Rightarrow> 'f agent_role_registry" where
  "release_agent rid reg =
     (let current = unwrap_or (hm_get (reg_active_count reg) rid) 0
      in reg\<lparr>reg_active_count := hm_put rid (current - 1) (reg_active_count reg)\<rparr>)"

definition release_node :: "string \<Rightarrow> string \<Rightarrow> 'f agent_role_registry \<Rightarrow> string option \<times> 'f agent_role_registry" where
  "release_node workflow_id node_id reg =
     (case hm_get (reg_assignments reg) (workflow_id, node_id) of
        Some rid \<Rightarrow> (Some rid, release_agent rid
          (reg\<lparr>reg_assignments := filter (\<lambda>(k, v). k \<noteq> (workflow_id, node_id)) (reg_assignments reg)\<rparr>))
      | None \<Rightarrow> (None, reg))"

definition get_assignment :: "string \<Rightarrow> string \<Rightarrow> 'f agent_role_registry \<Rightarrow> string option" where
  "get_assignment workflow_id node_id reg = hm_get (reg_assignments reg) (workflow_id, node_id)"

section \<open>Decomposition\<close>

text \<open>The fields of \<^verbatim>\<open>TaskAnalysis\<close> that are read here.\<close>

record 'f task_analysis =
  ta_task_domain :: string
  ta_risk_flags :: "string list"
  ta_complexity_score :: 'f
  ta_execution_budget_estimate :: int

record 'f builder =
  bl_registry :: "'f agent_role_registry option"
  bl_runtime :: fixture_runtime

definition fresh_id :: "string \<Rightarrow> ('f builder, string) state" where
  "fresh_id prefix = State (\<lambda>s.
     let (i, rt) = runtime_id prefix (bl_runtime s) in (i, s\<lparr>bl_runtime := rt\<rparr>))"

definition assign_to :: "string list \<Rightarrow> string \<Rightarrow> string \<Rightarrow> string \<Rightarrow> ('f builder, string option) state" where
  "assign_to order workflow_id node_id task_type = State (\<lambda>s.
     case bl_registry s of
       None \<Rightarrow> (None, s)
     | Some reg \<Rightarrow>
         let (agent, reg') = assign_agent order workflow_id node_id task_type reg
         in (agent, s\<lparr>bl_registry := Some reg'\<rparr>))"

definition node_budget :: "'f f64_ops \<Rightarrow> 'f task_analysis \<Rightarrow> 'f" where
  "node_budget F analysis =
     (let risk_divisor = f64_of_int F (int (length (ta_risk_flags analysis) + 1));
          budget = f64_div F (f64_of_int F (ta_execution_budget_estimate analysis)) risk_divisor
      in f64_div F (f64_round F (f64_mul F budget (f64_lit F ''100.0''))) (f64_lit F ''100.0''))"

definition make_node :: "'f f64_ops \<Rightarrow> string list \<Rightarrow> string \<Rightarrow> string \<Rightarrow> 'f task_analysis \<Rightarrow> string list \<Rightarrow>
    ('f builder, 'f workflow_node) state" where
  "make_node F order workflow_id task_type analysis input_refs = do {
     node_id \<leftarrow> fresh_id ''node'';
     agent_id \<leftarrow> assign_to order workflow_id node_id task_type;
     State_Monad.return \<lparr>wn_schema_version = ''workflow_node.v1'', wn_node_id = node_id, wn_workflow_id = workflow_id,
       wn_task_type = task_type, wn_assigned_agent_id = agent_id, wn_status = ''pending'',
       wn_input_refs = input_refs, wn_output_ref = None, wn_budget = node_budget F analysis,
       wn_cost_incurred = f64_lit F ''0.0'', wn_error = None, wn_created_at = FIXTURE_TIMESTAMP,
       wn_started_at = None, wn_completed_at = None\<rparr>
   }"

definition dependency_edge :: "string \<Rightarrow> string \<Rightarrow> ('f builder, workflow_edge) state" where
  "dependency_edge from_id to_id = do {
     edge_id \<leftarrow> fresh_id ''edge'';
     State_Monad.return \<lparr>we_schema_version = ''workflow_edge.v1'', we_edge_id = edge_id, from_node_id = from_id,
       to_node_id = to_id, edge_type = ''dependency''\<rparr>
   }"

definition simple_graph :: "'f f64_ops \<Rightarrow> string list \<Rightarrow> string \<Rightarrow> 'f task_analysis \<Rightarrow>
    ('f builder, 'f workflow_node list \<times> workflow_edge list) state" where
  "simple_graph F order workflow_id analysis = do {
     node \<leftarrow> make_node F order workflow_id (ta_task_domain analysis) analysis [];
     State_Monad.return ([node], [])
   }"

definition medium_graph :: "'f f64_ops \<Rightarrow> string list \<Rightarrow> string \<Rightarrow> 'f task_analysis \<Rightarrow>
    ('f builder, 'f workflow_node list \<times> workflow_edge list) state" where
  "medium_graph F order workflow_id analysis = do {
     analyze \<leftarrow> make_node F order workflow_id (ta_task_domain analysis @ ''_analyze'') analysis [];
     execute \<leftarrow> make_node F order workflow_id (ta_task_domain analysis @ ''_execute'') analysis [wn_node_id analyze];
     edge \<leftarrow> dependency_edge (wn_node_id analyze) (wn_node_id execute);
     State_Monad.return ([analyze, execute], [edge])
   }"

definition complex_graph :: "'f f64_ops \<Rightarrow> string list \<Rightarrow> string \<Rightarrow> 'f task_analysis \<Rightarrow>
    ('f builder, 'f workflow_node list \<times> workflow_edge list) state" where
  "complex_graph F order workflow_id analysis = do {
     analyze \<leftarrow> make_node F order workflow_id (ta_task_domain analysis @ ''_analyze'') analysis [];
     plan \<leftarrow> make_node F order workflow_id (ta_task_domain analysis @ ''_plan'') analysis [wn_node_id analyze];
     execute \<leftarrow> make_node F order workflow_id (ta_task_domain analysis @ ''_execute'') analysis [wn_node_id plan];
     review \<leftarrow> make_node F order workflow_id (ta_task_domain analysis @ ''_review'') analysis [wn_node_id execute];
     e1 \<leftarrow> dependency_edge (wn_node_id analyze) (wn_node_id plan);
     e2 \<leftarrow> dependency_edge (wn_node_id plan) (wn_node_id execute);
     e3 \<leftarrow> dependency_edge (wn_node_id execute) (wn_node_id review);
     State_Monad.return ([analyze, plan, execute, review], [e1, e2, e3])
   }"

definition build_graph :: "'f f64_ops \<Rightarrow> string list \<Rightarrow> string \<Rightarrow> 'f task_analysis \<Rightarrow>
    ('f builder, 'f workflow_node list \<times> workflow_edge list) state" where
  "build_graph F order workflow_id analysis =
     (let complexity = ta_complexity_score analysis in
      if f64_lt F complexity (f64_lit F ''0.3'') \<and> ta_risk_flags analysis = []
      then simple_graph F order workflow_id analysis
      else if f64_ge F complexity (f64_lit F ''0.6'') \<or> 2 \<le> length (ta_risk_flags analysis)
      then complex_graph F order workflow_id analysis
      else medium_graph F order workflow_id analysis)"

definition decompose :: "'f f64_ops \<Rightarrow> string list \<Rightarrow> 'f task_analysis \<Rightarrow> string \<Rightarrow> ('f builder, 'f workflow_graph) state" where
  "decompose F order analysis dispatch_id = do {
     workflow_id \<leftarrow> fresh_id ''wf'';
     parts \<leftarrow> build_graph F order workflow_id analysis;
     State_Monad.return \<lparr>wg_schema_version = ''workflow_graph.v1'', wg_workflow_id = workflow_id,
       wg_dispatch_id = dispatch_id, wg_nodes = fst parts, wg_edges = snd parts, wg_status = ''decomposed'',
       wg_created_at = FIXTURE_TIMESTAMP, wg_updated_at = FIXTURE_TIMESTAMP, wg_started_at = None,
       wg_completed_at = None, wg_result = None\<rparr>
   }"

section \<open>Identifiers are fresh\<close>

lemma decimal_zeros: "decimal (replicate k (CHR ''0'') @ ds) = decimal ds"
  by (induction k) (simp_all add: decimal_def)

lemma pad4_inj: "pad4 m = pad4 n \<longleftrightarrow> m = n"
  using decimal_zeros decimal_show_nat unfolding pad4_def by metis

definition count_of :: "string \<Rightarrow> 'f builder \<Rightarrow> nat" where
  "count_of prefix s = unwrap_or (bt_get (bl_runtime s) prefix) 0"

lemma fresh_id_run:
  "\<exists>s'. run_state (fresh_id prefix) s = (prefix @ pad4 (count_of prefix s + 1), s') \<and>
     (\<forall>p. count_of p s' = (if p = prefix then count_of p s + 1 else count_of p s))"
  by (simp add: fresh_id_def runtime_id_def count_of_def bt_get_put Let_def)

lemma assign_to_run: "\<exists>ag s'. run_state (assign_to order w n tt) s = (ag, s') \<and> bl_runtime s' = bl_runtime s"
  by (simp add: assign_to_def split: option.split prod.split)

lemma make_node_run:
  obtains node s' where "run_state (make_node F order w tt a refs) s = (node, s')"
    "wn_node_id node = ''node'' @ pad4 (count_of ''node'' s + 1)" "count_of ''node'' s' = count_of ''node'' s + 1"
    "wn_status node = ''pending''" "wn_cost_incurred node = f64_lit F ''0.0''" "wn_budget node = node_budget F a"
    "wn_workflow_id node = w"
proof -
  obtain s1 where one: "run_state (fresh_id ''node'') s = (''node'' @ pad4 (count_of ''node'' s + 1), s1)"
    "\<And>p. count_of p s1 = (if p = ''node'' then count_of p s + 1 else count_of p s)"
    using fresh_id_run [of "''node''" s] by blast
  obtain ag s2 where two: "run_state (assign_to order w (''node'' @ pad4 (count_of ''node'' s + 1)) tt) s1 = (ag, s2)"
    "bl_runtime s2 = bl_runtime s1"
    using assign_to_run by blast
  have "count_of ''node'' s2 = count_of ''node'' s + 1" using two(2) one(2) by (simp add: count_of_def)
  with that show ?thesis using one(1) two(1) by (simp add: make_node_def)
qed


lemma dependency_edge_run:
  "\<exists>edge s'. run_state (dependency_edge u v) s = (edge, s') \<and> wg_arc edge = (u, v) \<and> edge_type edge = ''dependency''"
  using fresh_id_run [of "''edge''" s] by (auto simp: dependency_edge_def)

section \<open>The graphs are pipelines\<close>

text \<open>
  What the decomposer builds: one to four pending nodes with different identifiers, each depending on
  the one before it.
\<close>

definition pipeline :: "'f f64_ops \<Rightarrow> 'f task_analysis \<Rightarrow> 'f workflow_node list \<Rightarrow> workflow_edge list \<Rightarrow> bool" where
  "pipeline F a ns es \<longleftrightarrow>
     length ns \<in> {1, 2, 4} \<and> distinct (map wn_node_id ns) \<and>
     map wg_arc es = zip (map wn_node_id ns) (tl (map wn_node_id ns)) \<and>
     list_all (\<lambda>e. edge_type e = ''dependency'') es \<and>
     list_all (\<lambda>n. wn_status n = ''pending'' \<and> wn_cost_incurred n = f64_lit F ''0.0'' \<and> wn_budget n = node_budget F a) ns"

lemma simple_graph_run: "\<exists>ns es s'. run_state (simple_graph F order w a) s = ((ns, es), s') \<and> pipeline F a ns es"
proof -
  obtain n1 s1 where "run_state (make_node F order w (ta_task_domain a) a []) s = (n1, s1)"
    "wn_status n1 = ''pending''" "wn_cost_incurred n1 = f64_lit F ''0.0''" "wn_budget n1 = node_budget F a"
    by (rule make_node_run)
  then show ?thesis by (simp add: simple_graph_def pipeline_def)
qed

lemma medium_graph_run: "\<exists>ns es s'. run_state (medium_graph F order w a) s = ((ns, es), s') \<and> pipeline F a ns es"
proof -
  obtain n1 s1 where 1: "run_state (make_node F order w (ta_task_domain a @ ''_analyze'') a []) s = (n1, s1)"
    "wn_node_id n1 = ''node'' @ pad4 (count_of ''node'' s + 1)" "count_of ''node'' s1 = count_of ''node'' s + 1"
    "wn_status n1 = ''pending''" "wn_cost_incurred n1 = f64_lit F ''0.0''" "wn_budget n1 = node_budget F a"
    by (rule make_node_run)
  obtain n2 s2 where 2: "run_state (make_node F order w (ta_task_domain a @ ''_execute'') a [wn_node_id n1]) s1 = (n2, s2)"
    "wn_node_id n2 = ''node'' @ pad4 (count_of ''node'' s1 + 1)"
    "wn_status n2 = ''pending''" "wn_cost_incurred n2 = f64_lit F ''0.0''" "wn_budget n2 = node_budget F a"
    by (rule make_node_run)
  obtain e s3 where 3: "run_state (dependency_edge (wn_node_id n1) (wn_node_id n2)) s2 = (e, s3)"
    "wg_arc e = (wn_node_id n1, wn_node_id n2)" "edge_type e = ''dependency''"
    using dependency_edge_run by metis
  show ?thesis using 1 2 3 by (simp add: medium_graph_def pipeline_def pad4_inj)
qed

lemma complex_graph_run: "\<exists>ns es s'. run_state (complex_graph F order w a) s = ((ns, es), s') \<and> pipeline F a ns es"
proof -
  obtain n1 s1 where 1: "run_state (make_node F order w (ta_task_domain a @ ''_analyze'') a []) s = (n1, s1)"
    "wn_node_id n1 = ''node'' @ pad4 (count_of ''node'' s + 1)" "count_of ''node'' s1 = count_of ''node'' s + 1"
    "wn_status n1 = ''pending''" "wn_cost_incurred n1 = f64_lit F ''0.0''" "wn_budget n1 = node_budget F a"
    by (rule make_node_run)
  obtain n2 s2 where 2: "run_state (make_node F order w (ta_task_domain a @ ''_plan'') a [wn_node_id n1]) s1 = (n2, s2)"
    "wn_node_id n2 = ''node'' @ pad4 (count_of ''node'' s1 + 1)" "count_of ''node'' s2 = count_of ''node'' s1 + 1"
    "wn_status n2 = ''pending''" "wn_cost_incurred n2 = f64_lit F ''0.0''" "wn_budget n2 = node_budget F a"
    by (rule make_node_run)
  obtain n3 s3 where 3: "run_state (make_node F order w (ta_task_domain a @ ''_execute'') a [wn_node_id n2]) s2 = (n3, s3)"
    "wn_node_id n3 = ''node'' @ pad4 (count_of ''node'' s2 + 1)" "count_of ''node'' s3 = count_of ''node'' s2 + 1"
    "wn_status n3 = ''pending''" "wn_cost_incurred n3 = f64_lit F ''0.0''" "wn_budget n3 = node_budget F a"
    by (rule make_node_run)
  obtain n4 s4 where 4: "run_state (make_node F order w (ta_task_domain a @ ''_review'') a [wn_node_id n3]) s3 = (n4, s4)"
    "wn_node_id n4 = ''node'' @ pad4 (count_of ''node'' s3 + 1)"
    "wn_status n4 = ''pending''" "wn_cost_incurred n4 = f64_lit F ''0.0''" "wn_budget n4 = node_budget F a"
    by (rule make_node_run)
  obtain e1 t1 where 5: "run_state (dependency_edge (wn_node_id n1) (wn_node_id n2)) s4 = (e1, t1)"
    "wg_arc e1 = (wn_node_id n1, wn_node_id n2)" "edge_type e1 = ''dependency''"
    using dependency_edge_run by metis
  obtain e2 t2 where 6: "run_state (dependency_edge (wn_node_id n2) (wn_node_id n3)) t1 = (e2, t2)"
    "wg_arc e2 = (wn_node_id n2, wn_node_id n3)" "edge_type e2 = ''dependency''"
    using dependency_edge_run by metis
  obtain e3 t3 where 7: "run_state (dependency_edge (wn_node_id n3) (wn_node_id n4)) t2 = (e3, t3)"
    "wg_arc e3 = (wn_node_id n3, wn_node_id n4)" "edge_type e3 = ''dependency''"
    using dependency_edge_run by metis
  show ?thesis using 1 2 3 4 5 6 7 by (simp add: complex_graph_def pipeline_def pad4_inj)
qed

lemma build_graph_run: "\<exists>ns es s'. run_state (build_graph F order w a) s = ((ns, es), s') \<and> pipeline F a ns es"
  unfolding build_graph_def Let_def
  by (cases "f64_lt F (ta_complexity_score a) (f64_lit F ''0.3'') \<and> ta_risk_flags a = []";
      cases "f64_ge F (ta_complexity_score a) (f64_lit F ''0.6'') \<or> 2 \<le> length (ta_risk_flags a)")
    (simp_all only: if_True if_False simp_thms simple_graph_run medium_graph_run complex_graph_run)

lemma decompose_run:
  obtains g s' where "run_state (decompose F order a d) s = (g, s')" "pipeline F a (wg_nodes g) (wg_edges g)"
    "wg_status g = ''decomposed''" "wg_dispatch_id g = d"
proof -
  obtain w s1 where 1: "run_state (fresh_id ''wf'') s = (w, s1)" by fastforce
  obtain ns es s2 where 2: "run_state (build_graph F order w a) s1 = ((ns, es), s2)" "pipeline F a ns es"
    using build_graph_run by blast
  show ?thesis by (rule that) (simp add: decompose_def 1 2(1), simp_all add: 2(2))
qed

lemma pipeline_valid:
  assumes "distinct xs"
  shows "valid_graph xs (zip xs (tl xs))"
proof -
  have step: "\<exists>i. Suc i < length xs \<and> u = xs ! i \<and> v = xs ! Suc i" if "(u, v) \<in> set (zip xs (tl xs))" for u v
  proof -
    obtain i where "i < length (zip xs (tl xs))" "zip xs (tl xs) ! i = (u, v)"
      using \<open>(u, v) \<in> set (zip xs (tl xs))\<close> by (metis in_set_conv_nth)
    then show ?thesis by (intro exI [of _ i]) (auto simp: nth_tl)
  qed
  define pos where "pos x = (THE i. i < length xs \<and> xs ! i = x)" for x
  have pos: "pos (xs ! i) = i" if "i < length xs" for i
    unfolding pos_def using that assms by (auto simp: nth_eq_iff_index_eq)
  have "acyclic (graph_rel xs (zip xs (tl xs)))"
  proof (rule acyclicI_order [where f = "\<lambda>x. length xs - pos x"])
    fix u v assume "(u, v) \<in> graph_rel xs (zip xs (tl xs))"
    then obtain i where "Suc i < length xs" "u = xs ! i" "v = xs ! Suc i"
      using step by (auto simp: graph_rel_def)
    then show "length xs - pos v < length xs - pos u" using pos [of i] pos [of "Suc i"] by simp
  qed
  moreover have "dangling_free xs (zip xs (tl xs))"
    using step by (fastforce simp: dangling_free_def)
  ultimately show ?thesis by (simp add: valid_graph_def cyclic_iff_not_acyclic)
qed

end
