(* ===== verification/Workflow_Engine.thy ===== *)
theory Workflow_Engine
  imports Task_Decomposer
begin

text \<open>
  The workflow engine (src/engine/src/orchestration/workflow\_engine.rs) and the parts it combines: the
  approval gate, the budget manager, the conflict resolver and the result aggregator. It drives a graph with
  the dependency resolver and the work queue. The identifiers of conflict records are made from the clock;
  \<open>sid\<close> gives the one of the n-th record. \<open>perm\<close> is the order in which a hash map yields its values.
\<close>

section \<open>Approval gate\<close>

record 'f human_approval_gate =
  risk_threshold :: 'f
  gate_approved :: "string set"
  gate_rejected :: "(string, string) hash_map"

definition new_gate :: "'f \<Rightarrow> 'f human_approval_gate" where
  "new_gate threshold = \<lparr>risk_threshold = threshold, gate_approved = {}, gate_rejected = []\<rparr>"

definition gate_requires_approval :: "'f f64_ops \<Rightarrow> 'f human_approval_gate \<Rightarrow> 'f workflow_node \<Rightarrow> bool" where
  "gate_requires_approval F gate node =
     (if wn_node_id node \<in> gate_approved gate \<or> hm_get (gate_rejected gate) (wn_node_id node) \<noteq> None then False
      else if f64_gt F (wn_budget node) (f64_lit F ''0.0'') \<and>
              f64_gt F (wn_cost_incurred node) (f64_mul F (wn_budget node) (risk_threshold gate)) then True
      else if wn_status node = ''failed'' then True
      else False)"

definition gate_approve :: "string \<Rightarrow> 'f human_approval_gate \<Rightarrow> bool \<times> 'f human_approval_gate" where
  "gate_approve node_id gate =
     (if hm_get (gate_rejected gate) node_id \<noteq> None then (False, gate)
      else (True, gate\<lparr>gate_approved := insert node_id (gate_approved gate)\<rparr>))"

definition gate_reject :: "string \<Rightarrow> string \<Rightarrow> 'f human_approval_gate \<Rightarrow> bool \<times> 'f human_approval_gate" where
  "gate_reject node_id reason gate =
     (if node_id \<in> gate_approved gate then (False, gate)
      else (True, gate\<lparr>gate_rejected := hm_put node_id reason (gate_rejected gate)\<rparr>))"

section \<open>Budget manager\<close>

record 'f workflow_budget =
  total_limit :: 'f
  consumed :: 'f
  agent_limits :: "(string, 'f) hash_map"
  agent_consumed :: "(string, 'f) hash_map"
  node_reservations :: "(string, 'f) hash_map"

record 'f budget_manager =
  bm_budgets :: "(string, 'f workflow_budget) hash_map"
  overrun_strategy :: string

definition new_budget_manager :: "string \<Rightarrow> 'f budget_manager" where
  "new_budget_manager strategy = \<lparr>bm_budgets = [], overrun_strategy = strategy\<rparr>"

definition create_workflow_budget :: "'f f64_ops \<Rightarrow> string \<Rightarrow> 'f \<Rightarrow> 'f budget_manager \<Rightarrow> 'f budget_manager" where
  "create_workflow_budget F workflow_id limit bm =
     bm\<lparr>bm_budgets := hm_put workflow_id
          \<lparr>total_limit = limit, consumed = f64_lit F ''0.0'', agent_limits = [], agent_consumed = [], node_reservations = []\<rparr>
          (bm_budgets bm)\<rparr>"

text \<open>An agent without a limit may spend anything; \<^verbatim>\<open>f64::INFINITY\<close> is the literal \<open>''inf''\<close>.\<close>

definition reserve_node_budget :: "'f f64_ops \<Rightarrow> string \<Rightarrow> string \<Rightarrow> string \<Rightarrow> 'f \<Rightarrow> 'f budget_manager \<Rightarrow>
    bool \<times> 'f budget_manager" where
  "reserve_node_budget F workflow_id node_id agent_id estimated_cost bm =
     (case hm_get (bm_budgets bm) workflow_id of
        None \<Rightarrow> (False, bm)
      | Some budget \<Rightarrow>
          if f64_gt F (f64_add F (consumed budget) estimated_cost) (total_limit budget) then (False, bm)
          else
            let agent_limit = unwrap_or (hm_get (agent_limits budget) agent_id) (f64_lit F ''inf'');
                agent_used = unwrap_or (hm_get (agent_consumed budget) agent_id) (f64_lit F ''0.0'')
            in if f64_gt F (f64_add F agent_used estimated_cost) agent_limit then (False, bm)
               else (True, bm\<lparr>bm_budgets := hm_put workflow_id
                 (budget\<lparr>node_reservations := hm_put node_id estimated_cost (node_reservations budget)\<rparr>)
                 (bm_budgets bm)\<rparr>))"

definition record_cost :: "'f f64_ops \<Rightarrow> string \<Rightarrow> string \<Rightarrow> 'f \<Rightarrow> 'f budget_manager \<Rightarrow> 'f budget_manager" where
  "record_cost F workflow_id agent_id cost bm =
     (case hm_get (bm_budgets bm) workflow_id of
        None \<Rightarrow> bm
      | Some budget \<Rightarrow>
          bm\<lparr>bm_budgets := hm_put workflow_id
            (budget\<lparr>consumed := f64_add F (consumed budget) cost,
                    agent_consumed := hm_modify agent_id (\<lambda>c. f64_add F c cost)
                      (hm_or_insert agent_id (f64_lit F ''0.0'') (agent_consumed budget))\<rparr>) (bm_budgets bm)\<rparr>)"

definition check_workflow_budget :: "'f f64_ops \<Rightarrow> string \<Rightarrow> 'f budget_manager \<Rightarrow> bool \<times> string option" where
  "check_workflow_budget F workflow_id bm =
     (case hm_get (bm_budgets bm) workflow_id of
        None \<Rightarrow> (True, None)
      | Some budget \<Rightarrow>
          if f64_gt F (consumed budget) (total_limit budget)
          then (False, Some (''workflow_budget_exceeded:'' @ f64_fmt4 F (consumed budget) @ ''/'' @ f64_fmt4 F (total_limit budget)))
          else (True, None))"

definition check_agent_budget :: "'f f64_ops \<Rightarrow> string \<Rightarrow> string \<Rightarrow> 'f budget_manager \<Rightarrow> bool \<times> string option" where
  "check_agent_budget F workflow_id agent_id bm =
     (case hm_get (bm_budgets bm) workflow_id of
        None \<Rightarrow> (True, None)
      | Some budget \<Rightarrow>
          let limit = unwrap_or (hm_get (agent_limits budget) agent_id) (f64_lit F ''inf'');
              used = unwrap_or (hm_get (agent_consumed budget) agent_id) (f64_lit F ''0.0'')
          in if f64_gt F used limit
             then (False, Some (''agent_budget_exceeded:'' @ agent_id @ '':'' @ f64_fmt4 F used @ ''/'' @ f64_fmt4 F limit))
             else (True, None))"

definition set_agent_limit :: "string \<Rightarrow> string \<Rightarrow> 'f \<Rightarrow> 'f budget_manager \<Rightarrow> 'f budget_manager" where
  "set_agent_limit workflow_id agent_id limit bm =
     bm\<lparr>bm_budgets := hm_modify workflow_id
          (\<lambda>budget. budget\<lparr>agent_limits := hm_put agent_id limit (agent_limits budget)\<rparr>) (bm_budgets bm)\<rparr>"

definition get_workflow_cost :: "'f f64_ops \<Rightarrow> string \<Rightarrow> 'f budget_manager \<Rightarrow> 'f" where
  "get_workflow_cost F workflow_id bm =
     unwrap_or (map_option consumed (hm_get (bm_budgets bm) workflow_id)) (f64_lit F ''0.0'')"

definition get_agent_cost :: "'f f64_ops \<Rightarrow> string \<Rightarrow> string \<Rightarrow> 'f budget_manager \<Rightarrow> 'f" where
  "get_agent_cost F workflow_id agent_id bm =
     unwrap_or (Option.bind (hm_get (bm_budgets bm) workflow_id) (\<lambda>b. hm_get (agent_consumed b) agent_id))
       (f64_lit F ''0.0'')"

section \<open>Conflicts\<close>

record conflict_record =
  cr_schema_version :: string
  cr_conflict_id :: string
  cr_workflow_id :: string
  cr_conflict_type :: string
  cr_involved_nodes :: "string list"
  cr_resolution_strategy :: "string option"
  cr_resolution_result :: "string option"
  cr_resolved_at :: "string option"

text \<open>The record of the n-th conflict.\<close>

definition new_conflict :: "(nat \<Rightarrow> string) \<Rightarrow> nat \<Rightarrow> 'f workflow_graph \<Rightarrow> string \<Rightarrow> string list \<Rightarrow> conflict_record" where
  "new_conflict sid n g kind involved =
     \<lparr>cr_schema_version = ''conflict_record.v1'', cr_conflict_id = ''conflict-'' @ sid n,
      cr_workflow_id = wg_workflow_id g, cr_conflict_type = kind, cr_involved_nodes = involved,
      cr_resolution_strategy = None, cr_resolution_result = None, cr_resolved_at = None\<rparr>"

text \<open>Node identifiers grouped by a key that some nodes have.\<close>

definition group_nodes :: "('f workflow_node \<Rightarrow> string option) \<Rightarrow> 'f workflow_node list \<Rightarrow> (string, string list) hash_map" where
  "group_nodes key nodes =
     foldl (\<lambda>m node. case key node of
        None \<Rightarrow> m
      | Some k \<Rightarrow> hm_modify k (\<lambda>ids. ids @ [wn_node_id node]) (hm_or_insert k [] m)) [] nodes"

definition shared_groups :: "(string list list \<Rightarrow> string list list) \<Rightarrow> (string, string list) hash_map \<Rightarrow> string list list" where
  "shared_groups perm m = filter (\<lambda>ids. 1 < length ids) (perm (map snd m))"

definition detect_conflicts :: "'f f64_ops \<Rightarrow> (nat \<Rightarrow> string) \<Rightarrow> (string list list \<Rightarrow> string list list) \<Rightarrow>
    'f workflow_graph \<Rightarrow> conflict_record list" where
  "detect_conflicts F sid perm g =
     (let failed = map wn_node_id (filter (\<lambda>n. wn_status n = ''failed'') (wg_nodes g));
          found1 = (if failed \<noteq> [] then [(''dependency_violation'', failed)] else []);
          outputs = group_nodes wn_output_ref (filter (\<lambda>n. wn_status n = ''completed'') (wg_nodes g));
          found2 = map (Pair ''output_conflict'') (shared_groups perm outputs);
          agents = group_nodes wn_assigned_agent_id (filter (\<lambda>n. wn_status n = ''running'') (wg_nodes g));
          found3 = map (Pair ''resource_conflict'') (shared_groups perm agents);
          total_cost = f64_sum F (map wn_cost_incurred (wg_nodes g));
          total_budget = f64_sum F (map wn_budget (wg_nodes g));
          found4 = (if f64_gt F total_budget (f64_lit F ''0.0'') \<and> f64_gt F total_cost total_budget
                    then [(''budget_overrun'', wg_ids g)] else [])
      in map (\<lambda>(n, kind, involved). new_conflict sid n g kind involved)
           (enumerate 0 (found1 @ found2 @ found3 @ found4)))"

definition pick_strategy :: "string \<Rightarrow> string" where
  "pick_strategy kind =
     (if kind = ''output_conflict'' then ''latest_wins''
      else if kind = ''resource_conflict'' then ''priority_wins''
      else if kind = ''budget_overrun'' then ''human_decides''
      else ''skip'')"

definition resolve_conflict :: "conflict_record \<Rightarrow> conflict_record" where
  "resolve_conflict c =
     (let kind = cr_conflict_type c;
          result = (if kind = ''output_conflict'' then ''latest_output_wins''
                    else if kind = ''resource_conflict'' then ''serialized_execution''
                    else if kind = ''dependency_violation'' then ''failed_node_skipped''
                    else if kind = ''budget_overrun'' then ''workflow_cancelled''
                    else ''unresolved'')
      in c\<lparr>cr_resolution_strategy := Some (pick_strategy kind), cr_resolution_result := Some result,
           cr_resolved_at := Some ''now''\<rparr>)"

section \<open>Results\<close>

definition is_complete :: "'f workflow_graph \<Rightarrow> bool" where
  "is_complete g \<longleftrightarrow> list_all (\<lambda>n. wn_status n \<in> {''completed'', ''failed'', ''cancelled''}) (wg_nodes g)"

definition node_result :: "'f workflow_node \<Rightarrow> json" where
  "node_result node = json_object
     [(''task_type'', JString (wn_task_type node)), (''status'', JString (wn_status node)),
      (''output_ref'', json_option (wn_output_ref node)), (''error'', json_option (wn_error node)),
      (''agent_id'', json_option (wn_assigned_agent_id node))]"

definition count_status :: "string \<Rightarrow> 'f workflow_graph \<Rightarrow> nat" where
  "count_status status g = length (filter (\<lambda>n. wn_status n = status) (wg_nodes g))"

definition aggregate :: "'f f64_ops \<Rightarrow> 'f workflow_graph \<Rightarrow> (string, json) hash_map" where
  "aggregate F g =
     [(''workflow_id'', JString (wg_workflow_id g)), (''dispatch_id'', JString (wg_dispatch_id g)),
      (''total_nodes'', JNumber (PosInt (length (wg_nodes g)))),
      (''completed_nodes'', JNumber (PosInt (count_status ''completed'' g))),
      (''failed_nodes'', JNumber (PosInt (count_status ''failed'' g))),
      (''total_cost'', f64_json F (f64_sum F (map wn_cost_incurred (wg_nodes g)))),
      (''node_results'', json_object (map (\<lambda>n. (wn_node_id n, node_result n)) (wg_nodes g)))]"

section \<open>The engine\<close>

record 'f workflow_engine =
  en_registry :: "'f agent_role_registry option"
  en_gate :: "'f human_approval_gate"
  en_budgets :: "'f budget_manager"

definition new_engine :: "'f f64_ops \<Rightarrow> 'f agent_role_registry option \<Rightarrow> 'f workflow_engine" where
  "new_engine F registry =
     \<lparr>en_registry = registry, en_gate = new_gate (f64_lit F ''0.7''), en_budgets = new_budget_manager ''cancel''\<rparr>"

definition set_status :: "'f workflow_graph \<Rightarrow> string \<Rightarrow> 'f workflow_graph" where
  "set_status g status =
     g\<lparr>wg_status := status, wg_updated_at := ''now'',
       wg_started_at := (if status = ''running'' \<and> wg_started_at g = None then Some ''now'' else wg_started_at g),
       wg_completed_at := (if status \<in> {''completed'', ''failed'', ''cancelled''} then Some ''now'' else None)\<rparr>"

definition update_node_field :: "'f workflow_graph \<Rightarrow> string \<Rightarrow> 'f \<Rightarrow> 'f workflow_graph" where
  "update_node_field g node_id cost =
     g\<lparr>wg_nodes := map (\<lambda>n. if wn_node_id n = node_id then n\<lparr>wn_cost_incurred := cost\<rparr> else n) (wg_nodes g)\<rparr>"

text \<open>
  \<^verbatim>\<open>{:?}\<close> of a string: quotes, with quotes, backslashes and characters that do not print escaped.
\<close>

definition hex_byte :: "nat \<Rightarrow> string" where
  "hex_byte n = (if n < 16 then [hex_digit n] else [hex_digit (n div 16), hex_digit (n mod 16)])"

definition escape_debug :: "char \<Rightarrow> string" where
  "escape_debug c =
     (let n = of_char c :: nat in
      if n = 0 then [char_of (92::nat), CHR ''0'']
      else if n = 9 then [char_of (92::nat), CHR ''t'']
      else if n = 10 then [char_of (92::nat), CHR ''n'']
      else if n = 13 then [char_of (92::nat), CHR ''r'']
      else if n = 34 \<or> n = 92 then [char_of (92::nat), c]
      else if n < 32 \<or> (127 \<le> n \<and> n < 160) \<or> n = 173
      then [char_of (92::nat), CHR ''u'', char_of (123::nat)] @ hex_byte n @ [char_of (125::nat)]
      else [c])"

definition debug_str :: "string \<Rightarrow> string" where
  "debug_str s = [char_of (34::nat)] @ concat (map escape_debug s) @ [char_of (34::nat)]"

definition create_workflow :: "'f f64_ops \<Rightarrow> string list \<Rightarrow> 'f task_analysis \<Rightarrow> string \<Rightarrow> 'f \<Rightarrow> string \<Rightarrow>
    'f workflow_engine \<Rightarrow> fixture_runtime \<Rightarrow>
    (string, 'f workflow_graph) result \<times> 'f workflow_engine \<times> fixture_runtime" where
  "create_workflow F order analysis dispatch_id budget_limit decision_status eng runtime =
     (if decision_status \<noteq> ''decided''
      then (Err (''Cannot create workflow: decision_status='' @ debug_str decision_status @
              '', requires '' @ [char_of (39::nat)] @ ''decided'' @ [char_of (39::nat)]), eng, runtime)
      else
        let (g0, s) = run_state (decompose F order analysis dispatch_id)
              \<lparr>bl_registry = en_registry eng, bl_runtime = runtime\<rparr>;
            (valid, errors) = dr_validate g0;
            g = (if \<not> valid then set_status g0 ''failed'' else g0)
        in (Ok g, eng\<lparr>en_registry := bl_registry s,
              en_budgets := create_workflow_budget F (wg_workflow_id g) budget_limit (en_budgets eng)\<rparr>, bl_runtime s))"

definition start_ready_nodes :: "'f workflow_graph \<Rightarrow> 'f workflow_graph" where
  "start_ready_nodes g = foldl queue_start g (dr_ready_nodes g)"

definition check_approval_needed :: "'f f64_ops \<Rightarrow> 'f workflow_engine \<Rightarrow> 'f workflow_graph \<Rightarrow> bool" where
  "check_approval_needed F eng g \<longleftrightarrow>
     list_ex (\<lambda>n. if wn_status n \<in> {''completed'', ''failed'', ''waiting_human''}
                 then gate_requires_approval F (en_gate eng) n else False) (wg_nodes g)"

definition handle_failed_nodes :: "'f f64_ops \<Rightarrow> 'f workflow_engine \<Rightarrow> 'f workflow_graph \<Rightarrow> 'f workflow_graph" where
  "handle_failed_nodes F eng g =
     (let failed_or_cancelled = filter (\<lambda>n. wn_status n = ''failed'' \<or> wn_status n = ''cancelled'') (wg_nodes g) in
      if failed_or_cancelled = [] then g
      else if list_ex (gate_requires_approval F (en_gate eng)) failed_or_cancelled then set_status g ''waiting_human''
      else g)"

definition resolve_conflicts :: "'f workflow_graph \<Rightarrow> conflict_record list \<Rightarrow> 'f workflow_graph" where
  "resolve_conflicts g conflicts =
     (if list_ex (\<lambda>c. cr_resolution_result (resolve_conflict c) = Some ''workflow_cancelled'') conflicts
      then set_status g ''cancelled'' else g)"

definition tick :: "'f f64_ops \<Rightarrow> (nat \<Rightarrow> string) \<Rightarrow> (string list list \<Rightarrow> string list list) \<Rightarrow>
    'f workflow_engine \<Rightarrow> 'f workflow_graph \<Rightarrow> 'f workflow_graph" where
  "tick F sid perm eng graph =
     (if wg_status graph \<in> {''completed'', ''failed'', ''cancelled''} then graph
      else
        let g = start_ready_nodes graph in
        if is_complete g then
          let has_failed = list_ex (\<lambda>n. wn_status n = ''failed'' \<or> wn_status n = ''cancelled'') (wg_nodes g);
              g1 = (if has_failed then handle_failed_nodes F eng g else g);
              unresolved = filter (\<lambda>c. cr_resolution_strategy c = None) (detect_conflicts F sid perm g1);
              g2 = (if unresolved \<noteq> [] then resolve_conflicts g1 unresolved else g1)
          in if unresolved \<noteq> [] \<and> wg_status g2 = ''cancelled'' then g2
             else if check_approval_needed F eng g2 then set_status g2 ''waiting_human''
             else if has_failed \<and> wg_status g2 \<noteq> ''failed'' \<and> wg_status g2 \<noteq> ''cancelled'' then set_status g2 ''failed''
             else g2\<lparr>wg_status := ''completed'', wg_completed_at := Some ''now'',
                     wg_result := Some (json_object (aggregate F g2))\<rparr>
        else if wg_status g = ''created'' \<or> wg_status g = ''decomposed'' then set_status g ''running''
        else g)"

definition resume_after_approval :: "'f workflow_graph \<Rightarrow> string \<Rightarrow> 'f workflow_graph" where
  "resume_after_approval g node_id = (if wg_status g \<noteq> ''waiting_human'' then g else set_status g ''running'')"

definition cancel_workflow :: "'f workflow_graph \<Rightarrow> 'f workflow_graph" where
  "cancel_workflow g =
     (let node_ids = map wn_node_id (filter (\<lambda>n. wn_status n \<notin> {''completed'', ''failed'', ''cancelled''}) (wg_nodes g))
      in set_status (foldl queue_cancel g node_ids) ''cancelled'')"

definition engine_complete_node :: "'f f64_ops \<Rightarrow> string \<Rightarrow> string \<Rightarrow> 'f \<Rightarrow> 'f workflow_graph \<times> 'f workflow_engine \<Rightarrow>
    'f workflow_graph \<times> 'f workflow_engine" where
  "engine_complete_node F node_id output_ref cost s =
     (let (graph, eng) = s; g = queue_complete graph node_id output_ref in
      if f64_gt F cost (f64_lit F ''0.0'') then
        (case wq_find_node g node_id of
           Some node \<Rightarrow>
             let agent_id = unwrap_or (wn_assigned_agent_id node) [];
                 bm = record_cost F (wg_workflow_id g) agent_id cost (en_budgets eng);
                 eng' = eng\<lparr>en_budgets := bm\<rparr>
             in if \<not> fst (check_workflow_budget F (wg_workflow_id g) bm) \<and> overrun_strategy bm = ''cancel''
                then (set_status g ''failed'', eng')
                else (update_node_field g node_id cost, eng')
         | None \<Rightarrow> (update_node_field g node_id cost, eng))
      else (g, eng))"

definition engine_fail_node :: "string \<Rightarrow> string \<Rightarrow> 'f workflow_graph \<Rightarrow> 'f workflow_graph" where
  "engine_fail_node node_id error g = queue_fail g node_id error"

section \<open>Looking at one node\<close>

lemma find_node_iff:
  assumes "distinct (wg_ids g)"
  shows "wq_find_node g i = Some n \<longleftrightarrow> n \<in> set (wg_nodes g) \<and> wn_node_id n = i"
proof
  assume "wq_find_node g i = Some n"
  then show "n \<in> set (wg_nodes g) \<and> wn_node_id n = i"
    by (auto simp: wq_find_node_def find_Some_iff)
next
  assume n: "n \<in> set (wg_nodes g) \<and> wn_node_id n = i"
  then obtain m where m: "wq_find_node g i = Some m"
    using wq_find_node_None_iff [of g i] by (cases "wq_find_node g i") auto
  then have "m \<in> set (wg_nodes g)" "wn_node_id m = i" by (auto simp: wq_find_node_def find_Some_iff)
  with n assms have "m = n" by (auto simp: distinct_map dest: inj_onD)
  with m show "wq_find_node g i = Some n" by simp
qed

lemma nodes_by_id:
  assumes "distinct (wg_ids g)"
  shows "map f (wg_nodes g) = map (\<lambda>i. f (the (wq_find_node g i))) (wg_ids g)"
proof -
  have "wq_find_node g (wn_node_id n) = Some n" if "n \<in> set (wg_nodes g)" for n
    using that by (simp add: find_node_iff [OF assms])
  then show ?thesis by simp
qed

text \<open>A sequence of operations, each on its own node.\<close>

lemma foldl_point:
  assumes point: "\<And>g i j. wq_find_node (op g i) j = (if j = i then map_option (f i) (wq_find_node g i) else wq_find_node g j)"
    and "distinct is"
  shows "wq_find_node (foldl op g is) j = (if j \<in> set is then map_option (f j) (wq_find_node g j) else wq_find_node g j)"
  using assms(2)
proof (induction "is" arbitrary: g)
  case (Cons i "is")
  then show ?case using point [of g i j] by (cases "j = i") auto
qed simp

definition started :: "'f workflow_node \<Rightarrow> 'f workflow_node" where
  "started n = n\<lparr>wn_status := ''running'',
     wn_started_at := (if wn_started_at n = None then Some ''now'' else wn_started_at n)\<rparr>"

lemma queue_start_find:
  "wq_find_node (queue_start g i) j = (if j = i then map_option started (wq_find_node g i) else wq_find_node g j)"
  by (simp add: queue_start_def update_node_find started_def [abs_def])

lemma ready_distinct: "distinct (wg_ids g) \<Longrightarrow> distinct (dr_ready_nodes g)"
  by (simp add: dr_ready_nodes_def Let_def distinct_map_filter)

lemma start_ready_find:
  assumes "distinct (wg_ids g)"
  shows "wq_find_node (start_ready_nodes g) j =
    (if j \<in> set (dr_ready_nodes g) then map_option started (wq_find_node g j) else wq_find_node g j)"
  unfolding start_ready_nodes_def
  by (rule foldl_point [OF queue_start_find ready_distinct [OF assms]])

lemma start_ready_frame:
  "wg_ids (start_ready_nodes g) = wg_ids g" "wg_edges (start_ready_nodes g) = wg_edges g"
  "wg_status (start_ready_nodes g) = wg_status g"
  by (simp_all add: start_ready_nodes_def start_op.foldl_ids start_op.foldl_edges start_op.foldl_status)

lemma queue_keeps_workflow_id [simp]:
  "wg_workflow_id (replace_node g i n) = wg_workflow_id g"
  "wg_workflow_id (queue_update_node g i s) = wg_workflow_id g" "wg_workflow_id (queue_complete g i r) = wg_workflow_id g"
  "wg_workflow_id (queue_start g i) = wg_workflow_id g"
  by (simp_all add: replace_node_def queue_update_node_def queue_complete_def queue_start_def split: option.split)

lemma start_ready_workflow_id [simp]: "wg_workflow_id (start_ready_nodes g) = wg_workflow_id g"
proof -
  have "wg_workflow_id (foldl queue_start g is) = wg_workflow_id g" for "is"
    by (induction "is" arbitrary: g) simp_all
  then show ?thesis by (simp add: start_ready_nodes_def)
qed

lemma ready_iff:
  assumes "distinct (wg_ids g)"
  shows "i \<in> set (dr_ready_nodes g) \<longleftrightarrow> (\<exists>n. wq_find_node g i = Some n \<and> wn_status n = ''pending'' \<and>
    (\<forall>d \<in> set (dependencies_of g i). \<exists>m. wq_find_node g d = Some m \<and> wn_status m = ''completed''))"
proof -
  have done_iff: "d \<in> wn_node_id ` {n \<in> set (wg_nodes g). wn_status n = ''completed''} \<longleftrightarrow>
      (\<exists>m. wq_find_node g d = Some m \<and> wn_status m = ''completed'')" for d
    by (auto simp: find_node_iff [OF assms])
  have "set (dr_ready_nodes g) = wn_node_id ` {n \<in> set (wg_nodes g). wn_status n = ''pending'' \<and>
      (\<forall>d \<in> set (dependencies_of g (wn_node_id n)). \<exists>m. wq_find_node g d = Some m \<and> wn_status m = ''completed'')}"
    unfolding dr_ready_nodes_def Let_def list_all_iff done_iff by simp
  then show ?thesis using find_node_iff [OF assms, of i] by auto
qed

lemma set_status_fields [simp]:
  "wg_nodes (set_status g s) = wg_nodes g" "wg_edges (set_status g s) = wg_edges g"
  "wg_status (set_status g s) = s" "wg_workflow_id (set_status g s) = wg_workflow_id g"
  "wq_find_node (set_status g s) i = wq_find_node g i"
  by (simp_all add: set_status_def wq_find_node_def)

section \<open>A failed node\<close>

text \<open>What can happen to a workflow: the calls of the engine, with the hash map order and the clock of each tick.\<close>

datatype 'f engine_event =
    ETick "nat \<Rightarrow> string" "string list list \<Rightarrow> string list list"
  | EResume string
  | ECompleted string string 'f
  | EFailed string string
  | ECancel

fun engine_apply :: "'f f64_ops \<Rightarrow> 'f engine_event \<Rightarrow> 'f workflow_graph \<times> 'f workflow_engine \<Rightarrow>
    'f workflow_graph \<times> 'f workflow_engine" where
  "engine_apply F (ETick sid perm) s = (tick F sid perm (snd s) (fst s), snd s)"
| "engine_apply F (EResume i) s = (resume_after_approval (fst s) i, snd s)"
| "engine_apply F (ECompleted i output_ref cost) s = engine_complete_node F i output_ref cost s"
| "engine_apply F (EFailed i error) s = (engine_fail_node i error (fst s), snd s)"
| "engine_apply F ECancel s = (cancel_workflow (fst s), snd s)"

definition has_failed_node :: "string \<Rightarrow> 'f workflow_graph \<times> 'f workflow_engine \<Rightarrow> bool" where
  "has_failed_node i s \<longleftrightarrow> distinct (wg_ids (fst s)) \<and>
     (\<exists>n. wq_find_node (fst s) i = Some n \<and> wn_status n = ''failed'') \<and> wg_status (fst s) \<noteq> ''completed'' \<and>
     i \<notin> gate_approved (en_gate (snd s)) \<and> hm_get (gate_rejected (en_gate (snd s))) i = None"

lemma update_field_find:
  "wq_find_node (update_node_field g i c) j =
     (if j = i then map_option (\<lambda>n. n\<lparr>wn_cost_incurred := c\<rparr>) (wq_find_node g i) else wq_find_node g j)"
  using find_map_if [of wn_node_id i "\<lambda>n. n\<lparr>wn_cost_incurred := c\<rparr>" "wg_nodes g"]
    find_map_if_other [of wn_node_id i "\<lambda>n. n\<lparr>wn_cost_incurred := c\<rparr>" j "wg_nodes g"]
  by (simp add: wq_find_node_def update_node_field_def)

lemma update_field_frame [simp]:
  "wg_ids (update_node_field g i c) = wg_ids g" "wg_status (update_node_field g i c) = wg_status g"
  "wg_edges (update_node_field g i c) = wg_edges g" "wg_workflow_id (update_node_field g i c) = wg_workflow_id g"
  by (auto simp: update_node_field_def)

lemma complete_node_cases:
  "engine_complete_node F i r c (g, eng) = (queue_complete g i r, eng) \<or>
   (\<exists>b. engine_complete_node F i r c (g, eng) = (set_status (queue_complete g i r) ''failed'', eng\<lparr>en_budgets := b\<rparr>)) \<or>
   (\<exists>b. engine_complete_node F i r c (g, eng) = (update_node_field (queue_complete g i r) i c, eng\<lparr>en_budgets := b\<rparr>))"
proof (cases "f64_gt F c (f64_lit F ''0.0'')")
  case True
  show ?thesis
  proof (cases "wq_find_node (queue_complete g i r) i")
    case None
    then show ?thesis using True
      by (intro disjI2 exI [of _ "en_budgets eng"]) (simp add: engine_complete_node_def)
  next
    case (Some node)
    define b where "b = record_cost F (wg_workflow_id g) (unwrap_or (wn_assigned_agent_id node) []) c (en_budgets eng)"
    have "engine_complete_node F i r c (g, eng) =
        (if \<not> fst (check_workflow_budget F (wg_workflow_id g) b) \<and> overrun_strategy b = ''cancel''
         then (set_status (queue_complete g i r) ''failed'', eng\<lparr>en_budgets := b\<rparr>)
         else (update_node_field (queue_complete g i r) i c, eng\<lparr>en_budgets := b\<rparr>))"
      using True Some by (simp add: engine_complete_node_def b_def)
    then have "engine_complete_node F i r c (g, eng) = (set_status (queue_complete g i r) ''failed'', eng\<lparr>en_budgets := b\<rparr>) \<or>
        engine_complete_node F i r c (g, eng) = (update_node_field (queue_complete g i r) i c, eng\<lparr>en_budgets := b\<rparr>)" by simp
    then show ?thesis by blast
  qed
qed (simp add: engine_complete_node_def)

lemma cancel_keeps_failed:
  assumes "wq_find_node g i = Some n" "wn_status n = ''failed''"
  shows "wq_find_node (foldl queue_cancel g is) i = Some n"
  using assms
proof (induction "is" arbitrary: g)
  case (Cons j "is")
  have "wq_find_node (queue_cancel g j) i = Some n"
    using Cons.prems cancel_op.op_other [of i j g] by (cases "i = j") (auto simp: queue_cancel_def)
  then show ?case using Cons by simp
qed simp

lemma failed_requires_approval:
  assumes "has_failed_node i (g, eng)" "wq_find_node g' i = wq_find_node g i"
  shows "check_approval_needed F eng g'"
proof -
  obtain n where n: "wq_find_node g' i = Some n" "wn_status n = ''failed''"
    using assms by (auto simp: has_failed_node_def)
  then have "n \<in> set (wg_nodes g')" "wn_node_id n = i" by (auto simp: wq_find_node_def find_Some_iff)
  moreover have "gate_requires_approval F (en_gate eng) n"
    using assms(1) n(2) calculation(2) by (simp add: gate_requires_approval_def has_failed_node_def)
  ultimately show ?thesis using n(2) by (auto simp: check_approval_needed_def list_ex_iff)
qed

text \<open>The two halves of a tick: how it ends when all nodes have ended, and what it does before.\<close>

definition after_failures :: "'f f64_ops \<Rightarrow> 'f workflow_engine \<Rightarrow> 'f workflow_graph \<Rightarrow> 'f workflow_graph" where
  "after_failures F eng g = (if list_ex (\<lambda>n. wn_status n = ''failed'' \<or> wn_status n = ''cancelled'') (wg_nodes g)
     then handle_failed_nodes F eng g else g)"

definition open_conflicts :: "'f f64_ops \<Rightarrow> (nat \<Rightarrow> string) \<Rightarrow> (string list list \<Rightarrow> string list list) \<Rightarrow> 'f workflow_graph \<Rightarrow>
    conflict_record list" where
  "open_conflicts F sid perm g = filter (\<lambda>c. cr_resolution_strategy c = None) (detect_conflicts F sid perm g)"

definition after_conflicts :: "'f f64_ops \<Rightarrow> (nat \<Rightarrow> string) \<Rightarrow> (string list list \<Rightarrow> string list list) \<Rightarrow> 'f workflow_graph \<Rightarrow>
    'f workflow_graph" where
  "after_conflicts F sid perm g =
     (if open_conflicts F sid perm g \<noteq> [] then resolve_conflicts g (open_conflicts F sid perm g) else g)"

lemma tick_ended:
  fixes F :: "'f f64_ops" and eng :: "'f workflow_engine" and sid perm
  assumes "wg_status graph \<notin> {''completed'', ''failed'', ''cancelled''}" and "is_complete (start_ready_nodes graph)"
  defines "g \<equiv> start_ready_nodes graph"
  defines "g1 \<equiv> after_failures F eng g"
  defines "g2 \<equiv> after_conflicts F sid perm g1"
  shows "tick F sid perm eng graph =
    (if open_conflicts F sid perm g1 \<noteq> [] \<and> wg_status g2 = ''cancelled'' then g2
     else if check_approval_needed F eng g2 then set_status g2 ''waiting_human''
     else if list_ex (\<lambda>n. wn_status n = ''failed'' \<or> wn_status n = ''cancelled'') (wg_nodes g) \<and>
             wg_status g2 \<noteq> ''failed'' \<and> wg_status g2 \<noteq> ''cancelled'' then set_status g2 ''failed''
     else g2\<lparr>wg_status := ''completed'', wg_completed_at := Some ''now'', wg_result := Some (json_object (aggregate F g2))\<rparr>)"
  unfolding tick_def Let_def if_not_P [OF assms(1)] if_P [OF assms(2)] g2_def g1_def g_def after_conflicts_def
    after_failures_def open_conflicts_def
  by (rule refl)

lemma tick_going:
  assumes "wg_status graph \<notin> {''completed'', ''failed'', ''cancelled''}" and "\<not> is_complete (start_ready_nodes graph)"
  shows "tick F sid perm eng graph =
    (if wg_status graph = ''created'' \<or> wg_status graph = ''decomposed''
     then set_status (start_ready_nodes graph) ''running'' else start_ready_nodes graph)"
  unfolding tick_def Let_def if_not_P [OF assms(1)] if_not_P [OF assms(2)] start_ready_frame by (rule refl)

lemma after_steps_shape:
  "wg_nodes (after_failures F eng g) = wg_nodes g" "wg_nodes (after_conflicts F sid perm g) = wg_nodes g"
  by (simp_all add: after_failures_def handle_failed_nodes_def after_conflicts_def resolve_conflicts_def Let_def)

lemma tick_keeps_failed:
  assumes failed: "has_failed_node i (g, eng)"
  shows "has_failed_node i (tick F sid perm eng g, eng)"
proof (cases "wg_status g \<in> {''completed'', ''failed'', ''cancelled''}")
  case True
  then show ?thesis using failed by (simp add: tick_def)
next
  case running: False
  let ?g = "start_ready_nodes g"
  let ?g2 = "after_conflicts F sid perm (after_failures F eng ?g)"
  have dist: "distinct (wg_ids g)" using failed by (simp add: has_failed_node_def)
  have find: "wq_find_node ?g i = wq_find_node g i"
    using failed by (auto simp: start_ready_find [OF dist] ready_iff [OF dist] has_failed_node_def)
  have kept: "has_failed_node i (h, eng)" if "wg_nodes h = wg_nodes ?g" "wg_status h \<noteq> ''completed''" for h
  proof -
    have "wg_ids h = wg_ids g" using that(1) start_ready_frame(1) [of g] by simp
    moreover have "wq_find_node h i = wq_find_node g i" using that(1) find by (simp add: wq_find_node_def)
    ultimately show ?thesis using failed that(2) by (simp add: has_failed_node_def)
  qed
  show ?thesis
  proof (cases "is_complete ?g")
    case True
    have nodes: "wg_nodes ?g2 = wg_nodes ?g" by (simp add: after_steps_shape)
    have "wq_find_node ?g2 i = wq_find_node g i" using nodes find by (simp add: wq_find_node_def)
    then have "check_approval_needed F eng ?g2" by (rule failed_requires_approval [OF failed])
    then have "tick F sid perm eng g = ?g2 \<and> wg_status ?g2 = ''cancelled'' \<or>
        tick F sid perm eng g = set_status ?g2 ''waiting_human''"
      using tick_ended [OF running True, of F sid perm eng] by presburger
    then show ?thesis using kept [of ?g2] kept [of "set_status ?g2 ''waiting_human''"] nodes by auto
  next
    case False
    have "wg_status g \<noteq> ''completed''" using failed by (simp add: has_failed_node_def)
    then show ?thesis unfolding tick_going [OF running False]
      using kept [of ?g] kept [of "set_status ?g ''running''"] start_ready_frame(3) [of g] by simp
  qed
qed

lemma event_keeps_failed:
  assumes failed: "has_failed_node i s" and other: "\<And>r c. e \<noteq> ECompleted i r c"
  shows "has_failed_node i (engine_apply F e s)"
proof -
  obtain g eng where s: "s = (g, eng)" by (cases s)
  show ?thesis
  proof (cases e)
    case (ETick sid perm)
    then show ?thesis using tick_keeps_failed failed by (simp add: s)
  next
    case (EResume j)
    then show ?thesis using failed by (simp add: s has_failed_node_def resume_after_approval_def)
  next
    case (ECompleted j r c)
    then have "i \<noteq> j" using other by blast
    then have "wq_find_node (queue_complete g j r) i = wq_find_node g i" by (rule complete_op.op_other)
    then show ?thesis unfolding ECompleted s engine_apply.simps
      using failed s \<open>i \<noteq> j\<close> complete_node_cases [of F j r c g eng]
      by (elim disjE exE)
        (simp_all add: has_failed_node_def complete_op.op_ids complete_op.op_status update_field_find)
  next
    case (EFailed j err)
    have "\<exists>n. wq_find_node (queue_fail g j err) i = Some n \<and> wn_status n = ''failed''"
      using failed s fail_op.op_other [of i j g err]
      by (cases "i = j") (auto simp: has_failed_node_def queue_fail_def find_replace_node wq_find_node_id)
    then show ?thesis using failed
      by (simp add: EFailed s has_failed_node_def engine_fail_node_def fail_op.op_ids fail_op.op_status)
  next
    case ECancel
    then show ?thesis using failed cancel_keeps_failed [of g i]
      by (auto simp: s has_failed_node_def cancel_workflow_def Let_def cancel_op.foldl_ids)
  qed
qed

text \<open>C35. A failed node keeps its workflow from ever completing. The engine never records an approval, so once a
  node has failed no sequence of ticks, resumes after approval, completions of other nodes, failures and
  cancellations brings the workflow to completed; and a tick of a graph whose nodes have all ended asks for
  the approval again (or cancels on a budget overrun) each time.\<close>

theorem failed_node_never_completes:
  assumes "distinct (wg_ids g)" and "wq_find_node g i = Some n" and "wn_status n = ''failed''"
    and "wg_status g \<noteq> ''completed''" and "en_gate eng = en_gate (new_engine F reg)"
    and "list_all (\<lambda>e. \<forall>r c. e \<noteq> ECompleted i r c) es"
  shows "wg_status (fst (fold (engine_apply F) es (g, eng))) \<noteq> ''completed''"
proof -
  have "has_failed_node i (g, eng)"
    using assms(1-5) by (simp add: has_failed_node_def new_engine_def new_gate_def)
  then have "has_failed_node i (fold (engine_apply F) es (g, eng))"
    using assms(6)
  proof (induction es arbitrary: g eng)
    case (Cons e es)
    have "has_failed_node i (engine_apply F e (g, eng))" using Cons.prems by (intro event_keeps_failed) simp_all
    then show ?case using Cons.IH [of "fst (engine_apply F e (g, eng))" "snd (engine_apply F e (g, eng))"] Cons.prems by simp
  qed simp
  then show ?thesis by (simp add: has_failed_node_def)
qed


definition sample_analysis :: "int task_analysis" where
  "sample_analysis = \<lparr>ta_task_domain = ''docs'', ta_risk_flags = [''secrets'', ''prod''], ta_complexity_score = 80,
     ta_execution_budget_estimate = 30\<rparr>"

definition sample_workflow :: "int workflow_graph" where
  "sample_workflow = fst (run_state (decompose exact_ops [] sample_analysis ''d1'') \<lparr>bl_registry = None, bl_runtime = []\<rparr>)"

definition sample_failure :: "int workflow_graph" where
  "sample_failure = queue_fail (tick exact_ops show_nat (\<lambda>xs. xs) (new_engine exact_ops None) sample_workflow) ''node0001'' ''boom''"

theorem failed_node_never_completes_witness:
  "wg_status (fst (fold (engine_apply exact_ops)
      [ETick show_nat (\<lambda>xs. xs), EResume ''node0001'', EFailed ''node0002'' ''skipped'', ETick show_nat (\<lambda>xs. xs)]
      (sample_failure, new_engine exact_ops None))) \<noteq> ''completed''"
proof (rule failed_node_never_completes)
  show "distinct (wg_ids sample_failure)" by code_simp
  show "wq_find_node sample_failure ''node0001'' = Some (the (wq_find_node sample_failure ''node0001''))" by code_simp
  show "wn_status (the (wq_find_node sample_failure ''node0001'')) = ''failed''" by code_simp
  show "wg_status sample_failure \<noteq> ''completed''" by code_simp
qed simp_all

section \<open>A workflow without failures\<close>

text \<open>
  The environment of the engine: after a tick, the worker of every running node reports its completion with
  an output and a cost.
\<close>

definition work_round :: "'f f64_ops \<Rightarrow> (nat \<Rightarrow> string) \<Rightarrow> (string list list \<Rightarrow> string list list) \<Rightarrow>
    (string \<Rightarrow> string) \<Rightarrow> (string \<Rightarrow> 'f) \<Rightarrow> 'f workflow_graph \<times> 'f workflow_engine \<Rightarrow> 'f workflow_graph \<times> 'f workflow_engine" where
  "work_round F sid perm report cost s =
     (let g = tick F sid perm (snd s) (fst s);
          running = map wn_node_id (filter (\<lambda>n. wn_status n = ''running'') (wg_nodes g))
      in foldl (\<lambda>s i. engine_complete_node F i (report i) (cost i) s) (g, snd s) running)"

definition final_cost :: "'f f64_ops \<Rightarrow> (string \<Rightarrow> 'f) \<Rightarrow> 'f workflow_node \<Rightarrow> 'f" where
  "final_cost F cost n = (if f64_gt F (cost (wn_node_id n)) (f64_lit F ''0.0'') then cost (wn_node_id n) else wn_cost_incurred n)"

text \<open>
  The costs are within the budgets: no node exceeds the part of its budget that needs approval, the nodes
  together do not exceed theirs, and the limit of the workflow is never exceeded.
\<close>

definition within_means :: "'f f64_ops \<Rightarrow> (string \<Rightarrow> 'f) \<Rightarrow> 'f \<Rightarrow> 'f workflow_graph \<Rightarrow> bool" where
  "within_means F cost threshold g \<longleftrightarrow>
     list_all (\<lambda>n. \<not> (f64_gt F (wn_budget n) (f64_lit F ''0.0'') \<and>
        f64_gt F (final_cost F cost n) (f64_mul F (wn_budget n) threshold))) (wg_nodes g) \<and>
     \<not> (f64_gt F (f64_sum F (map wn_budget (wg_nodes g))) (f64_lit F ''0.0'') \<and>
        f64_gt F (f64_sum F (map (final_cost F cost) (wg_nodes g))) (f64_sum F (map wn_budget (wg_nodes g))))"

text \<open>
  The budget of the workflow: in whatever order nodes out of \<open>todo\<close> report their costs, what is consumed
  does not exceed the limit.
\<close>

definition spend :: "'f f64_ops \<Rightarrow> (string \<Rightarrow> 'f) \<Rightarrow> 'f \<Rightarrow> string list \<Rightarrow> 'f" where
  "spend F cost spent js = foldl (f64_add F) spent (map cost (filter (\<lambda>i. f64_gt F (cost i) (f64_lit F ''0.0'')) js))"

definition affordable :: "'f f64_ops \<Rightarrow> (string \<Rightarrow> 'f) \<Rightarrow> string set \<Rightarrow> string \<Rightarrow> 'f workflow_engine \<Rightarrow> bool" where
  "affordable F cost todo workflow_id eng \<longleftrightarrow>
     (\<forall>b js. hm_get (bm_budgets (en_budgets eng)) workflow_id = Some b \<and> distinct js \<and> set js \<subseteq> todo \<longrightarrow>
        \<not> f64_gt F (spend F cost (consumed b) js) (total_limit b))"

definition pending_ids :: "'f workflow_graph \<Rightarrow> string set" where
  "pending_ids g = {i. \<exists>n. wq_find_node g i = Some n \<and> wn_status n = ''pending''}"

text \<open>What holds between two rounds.\<close>

definition on_track :: "'f f64_ops \<Rightarrow> (string \<Rightarrow> 'f) \<Rightarrow> 'f workflow_graph \<times> 'f workflow_engine \<Rightarrow> bool" where
  "on_track F cost s \<longleftrightarrow>
     distinct (wg_ids (fst s)) \<and> valid_graph (wg_ids (fst s)) (wg_arcs (fst s)) \<and>
     (\<forall>i n. wq_find_node (fst s) i = Some n \<longrightarrow>
        wn_status n = ''pending'' \<or> wn_status n = ''completed'' \<and> wn_cost_incurred n = final_cost F cost n) \<and>
     wg_status (fst s) \<in> {''created'', ''decomposed'', ''running''} \<and>
     within_means F cost (risk_threshold (en_gate (snd s))) (fst s) \<and>
     affordable F cost (pending_ids (fst s)) (wg_workflow_id (fst s)) (snd s)"

definition finished :: "(string \<Rightarrow> string) \<Rightarrow> 'f f64_ops \<Rightarrow> (string \<Rightarrow> 'f) \<Rightarrow> string \<Rightarrow> 'f workflow_node \<Rightarrow> 'f workflow_node" where
  "finished report F cost i n = n\<lparr>wn_status := ''completed'', wn_output_ref := Some (report i), wn_completed_at := Some ''now'',
     wn_cost_incurred := (if f64_gt F (cost i) (f64_lit F ''0.0'') then cost i else wn_cost_incurred n)\<rparr>"

lemma queue_complete_find:
  "wq_find_node (queue_complete g i r) j =
     (if j = i then map_option (\<lambda>n. n\<lparr>wn_status := ''completed'', wn_output_ref := Some r, wn_completed_at := Some ''now''\<rparr>)
        (wq_find_node g i) else wq_find_node g j)"
  by (cases "wq_find_node g i") (simp_all add: queue_complete_def find_replace_node wq_find_node_id)

lemma record_cost_budget:
  assumes "hm_get (bm_budgets (record_cost F w a c bm)) w = Some b"
  shows "\<exists>b0. hm_get (bm_budgets bm) w = Some b0 \<and> total_limit b = total_limit b0 \<and> consumed b = f64_add F (consumed b0) c"
  using assms by (auto simp: record_cost_def map_laws split: option.splits if_splits)

lemma affordable_mono: "affordable F cost T w eng \<Longrightarrow> U \<subseteq> T \<Longrightarrow> affordable F cost U w eng"
  unfolding affordable_def by (meson subset_trans)

lemma affordable_record:
  assumes aff: "affordable F cost T w eng" and "i \<in> T" and gt: "f64_gt F (cost i) (f64_lit F ''0.0'')"
  shows "affordable F cost (T - {i}) w (eng\<lparr>en_budgets := record_cost F w a (cost i) (en_budgets eng)\<rparr>)"
  unfolding affordable_def
proof (intro allI impI)
  fix b js
  assume "hm_get (bm_budgets (en_budgets (eng\<lparr>en_budgets := record_cost F w a (cost i) (en_budgets eng)\<rparr>))) w = Some b \<and>
    distinct js \<and> set js \<subseteq> T - {i}"
  then have b: "hm_get (bm_budgets (record_cost F w a (cost i) (en_budgets eng))) w = Some b"
    and js: "distinct (i # js)" "set (i # js) \<subseteq> T" using \<open>i \<in> T\<close> by auto
  from record_cost_budget [OF b] obtain b0 where b0: "hm_get (bm_budgets (en_budgets eng)) w = Some b0"
    "total_limit b = total_limit b0" "consumed b = f64_add F (consumed b0) (cost i)" by blast
  have "\<not> f64_gt F (spend F cost (consumed b0) (i # js)) (total_limit b0)"
    using aff b0(1) js unfolding affordable_def by blast
  then show "\<not> f64_gt F (spend F cost (consumed b) js) (total_limit b)"
    using b0 gt by (simp add: spend_def)
qed

lemma affordable_check:
  assumes "affordable F cost T w eng"
  shows "fst (check_workflow_budget F w (en_budgets eng))"
proof -
  have "\<not> f64_gt F (consumed b) (total_limit b)" if "hm_get (bm_budgets (en_budgets eng)) w = Some b" for b
    using assms that by (auto simp: affordable_def spend_def dest: spec [of _ "[]"])
  then show ?thesis by (simp add: check_workflow_budget_def split: option.split)
qed

text \<open>A completion that the budget allows: the node and the budget change, nothing else.\<close>

definition completes :: "(string \<Rightarrow> string) \<Rightarrow> 'f f64_ops \<Rightarrow> (string \<Rightarrow> 'f) \<Rightarrow> string set \<Rightarrow> 'f workflow_graph \<times> 'f workflow_engine \<Rightarrow>
    'f workflow_graph \<times> 'f workflow_engine \<Rightarrow> bool" where
  "completes report F cost R s s' \<longleftrightarrow>
     (\<forall>j. wq_find_node (fst s') j =
        (if j \<in> R then map_option (finished report F cost j) (wq_find_node (fst s) j) else wq_find_node (fst s) j)) \<and>
     wg_ids (fst s') = wg_ids (fst s) \<and> wg_edges (fst s') = wg_edges (fst s) \<and> wg_status (fst s') = wg_status (fst s) \<and>
     wg_workflow_id (fst s') = wg_workflow_id (fst s) \<and> en_gate (snd s') = en_gate (snd s)"

lemmas completion_frame = complete_op.op_ids complete_op.op_edges complete_op.op_status

lemma complete_within:
  fixes s :: "'f workflow_graph \<times> 'f workflow_engine" and F cost i report
  assumes aff: "affordable F cost T (wg_workflow_id (fst s)) (snd s)" and "i \<in> T"
  defines "s' \<equiv> engine_complete_node F i (report i) (cost i) s"
  shows "completes report F cost {i} s s' \<and> affordable F cost (T - {i}) (wg_workflow_id (fst s')) (snd s')"
proof -
  obtain g eng where s: "s = (g, eng)" by (cases s)
  note aff' = affordable_mono [OF aff [unfolded s fst_conv snd_conv], of "T - {i}"]
  show ?thesis
  proof (cases "f64_gt F (cost i) (f64_lit F ''0.0'')")
    case False
    then have "s' = (queue_complete g i (report i), eng)" by (simp add: s'_def s engine_complete_node_def)
    then show ?thesis
      using False aff' by (simp add: completes_def s queue_complete_find finished_def [abs_def] completion_frame)
  next
    case True
    let ?g = "update_node_field (queue_complete g i (report i)) i (cost i)"
    have find: "completes report F cost {i} s (?g, eng\<lparr>en_budgets := b\<rparr>)" for b
      using True
      by (simp add: completes_def s update_field_find queue_complete_find option.map_comp comp_def finished_def [abs_def] completion_frame)
    show ?thesis
    proof (cases "wq_find_node (queue_complete g i (report i)) i")
      case None
      then have "s' = (?g, eng\<lparr>en_budgets := en_budgets eng\<rparr>)" using True by (simp add: s'_def s engine_complete_node_def)
      then show ?thesis using find [of "en_budgets eng"] aff' by simp
    next
      case (Some node)
      let ?b = "record_cost F (wg_workflow_id g) (unwrap_or (wn_assigned_agent_id node) []) (cost i) (en_budgets eng)"
      have rec: "affordable F cost (T - {i}) (wg_workflow_id g) (eng\<lparr>en_budgets := ?b\<rparr>)"
        using affordable_record [OF aff \<open>i \<in> T\<close> True] by (simp add: s)
      then have "s' = (?g, eng\<lparr>en_budgets := ?b\<rparr>)"
        using True Some affordable_check [OF rec] by (simp add: s'_def s engine_complete_node_def)
      then show ?thesis using find [of ?b] rec by simp
    qed
  qed
qed

lemma complete_all_within:
  fixes s :: "'f workflow_graph \<times> 'f workflow_engine" and F cost js report
  assumes "affordable F cost T (wg_workflow_id (fst s)) (snd s)" and "distinct js" and "set js \<subseteq> T"
  defines "s' \<equiv> foldl (\<lambda>s i. engine_complete_node F i (report i) (cost i) s) s js"
  shows "completes report F cost (set js) s s' \<and> affordable F cost (T - set js) (wg_workflow_id (fst s')) (snd s')"
  using assms(1-3) unfolding s'_def
proof (induction js arbitrary: s T)
  case Nil
  then show ?case by (simp add: completes_def)
next
  case (Cons i js)
  let ?s = "engine_complete_node F i (report i) (cost i) s"
  let ?s' = "foldl (\<lambda>s i. engine_complete_node F i (report i) (cost i) s) ?s js"
  have i: "completes report F cost {i} s ?s" "affordable F cost (T - {i}) (wg_workflow_id (fst ?s)) (snd ?s)"
    using complete_within [OF Cons.prems(1), of i report] Cons.prems(3) by auto
  have "completes report F cost (set js) ?s ?s'"
    "affordable F cost (T - {i} - set js) (wg_workflow_id (fst ?s')) (snd ?s')"
    using Cons.IH [OF i(2)] Cons.prems(2,3) by auto
  moreover have "T - {i} - set js = T - set (i # js)" by auto
  moreover have "completes report F cost (set (i # js)) s ?s'"
    using i(1) calculation(1) Cons.prems(2) by (auto simp: completes_def)
  ultimately show ?case by simp
qed

lemma on_trackD:
  assumes "on_track F cost (g, eng)"
  shows "distinct (wg_ids g)" "valid_graph (wg_ids g) (wg_arcs g)"
    "\<And>i n. wq_find_node g i = Some n \<Longrightarrow>
        wn_status n = ''pending'' \<or> wn_status n = ''completed'' \<and> wn_cost_incurred n = final_cost F cost n"
    "wg_status g \<in> {''created'', ''decomposed'', ''running''}"
    "within_means F cost (risk_threshold (en_gate eng)) g"
    "affordable F cost (pending_ids g) (wg_workflow_id g) eng"
  using assms unfolding on_track_def fst_conv snd_conv by blast+

lemma pending_ready:
  assumes track: "on_track F cost (g, eng)" and todo: "pending_ids g \<noteq> {}"
  shows "dr_ready_nodes g \<noteq> []"
proof -
  note dist = on_trackD(1) [OF track]
  let ?C = "wn_node_id ` {n \<in> set (wg_nodes g). wn_status n = ''completed''}"
  have "set (wg_ids g) - ?C \<subseteq> rg_candidates g ?C"
  proof
    fix i assume i: "i \<in> set (wg_ids g) - ?C"
    then obtain n where n: "n \<in> set (wg_nodes g)" "wn_node_id n = i" by auto
    then have "wn_status n = ''pending''"
      using on_trackD(3) [OF track, of i n] i find_node_iff [OF dist, of i n] by blast
    then show "i \<in> rg_candidates g ?C" using n by (auto simp: rg_candidates_def)
  qed
  moreover have "set (wg_ids g) - ?C \<noteq> {}"
  proof -
    obtain n where n: "n \<in> set (wg_nodes g)" "wn_status n = ''pending''"
      using todo by (auto simp: pending_ids_def find_node_iff [OF dist])
    have "wn_status m \<noteq> ''completed''" if "m \<in> set (wg_nodes g)" "wn_node_id m = wn_node_id n" for m
      using that n find_node_iff [OF dist, of "wn_node_id n" n] find_node_iff [OF dist, of "wn_node_id n" m] by simp
    then have "wn_node_id n \<notin> ?C" by auto
    then show ?thesis using n by auto
  qed
  ultimately obtain i where "i \<in> set (rg_ready_nodes g ?C)"
    using rg_ops.progress [of g ?C] on_trackD(2) [OF track] unfolding dr_validate_iff by blast
  then have "i \<in> set (dr_ready_nodes g)"
    by (auto simp: rg_ops.ready_set rg_candidates_def rg_preds_def dr_ready_nodes_def list_all_iff Let_def)
  then show ?thesis by auto
qed

lemma ready_pending: "distinct (wg_ids g) \<Longrightarrow> set (dr_ready_nodes g) \<subseteq> pending_ids g"
  by (auto simp: pending_ids_def ready_iff)

lemma started_fields:
  "wn_status (started n) = ''running''" "wn_node_id (started n) = wn_node_id n" "wn_budget (started n) = wn_budget n"
  "wn_cost_incurred (started n) = wn_cost_incurred n"
  by (simp_all add: started_def)

text \<open>A tick with pending nodes starts those that are ready and changes nothing else.\<close>

lemma tick_starts:
  fixes F :: "'f f64_ops" and eng :: "'f workflow_engine" and sid perm
  assumes track: "on_track F cost (g, eng)" and todo: "pending_ids g \<noteq> {}"
  defines "h \<equiv> tick F sid perm eng g"
  shows "wg_nodes h = wg_nodes (start_ready_nodes g)" "wg_status h = ''running''"
    "wg_edges h = wg_edges g" "wg_workflow_id h = wg_workflow_id g" "wg_ids h = wg_ids g"
    "set (map wn_node_id (filter (\<lambda>n. wn_status n = ''running'') (wg_nodes h))) = set (dr_ready_nodes g)"
proof -
  note dist = on_trackD(1) [OF track]
  let ?g = "start_ready_nodes g"
  have dist': "distinct (wg_ids ?g)" using dist by (simp only: start_ready_frame)
  have running: "(\<exists>n. wq_find_node ?g i = Some n \<and> wn_status n = ''running'') \<longleftrightarrow> i \<in> set (dr_ready_nodes g)" for i
  proof (cases "i \<in> set (dr_ready_nodes g)")
    case True
    then obtain n where "wq_find_node g i = Some n" using ready_pending [OF dist] by (auto simp: pending_ids_def)
    then show ?thesis using True by (simp add: start_ready_find [OF dist] started_fields)
  next
    case False
    then show ?thesis using on_trackD(3) [OF track, of i] by (auto simp: start_ready_find [OF dist])
  qed
  obtain i where "i \<in> set (dr_ready_nodes g)" using pending_ready [OF track todo] by (cases "dr_ready_nodes g") auto
  then obtain n where "wq_find_node ?g i = Some n" "wn_status n = ''running''" using running by blast
  then have "\<not> is_complete ?g" by (auto simp: is_complete_def list_all_iff find_node_iff [OF dist'] intro!: bexI [of _ n])
  moreover have "wg_status g \<notin> {''completed'', ''failed'', ''cancelled''}" using on_trackD(4) [OF track] by auto
  ultimately have h: "h = (if wg_status g = ''created'' \<or> wg_status g = ''decomposed'' then set_status ?g ''running'' else ?g)"
    unfolding h_def by (intro tick_going)
  show nodes: "wg_nodes h = wg_nodes ?g" and "wg_edges h = wg_edges g" and "wg_workflow_id h = wg_workflow_id g"
    and "wg_status h = ''running''"
    using on_trackD(4) [OF track] start_ready_frame [of g] by (auto simp: h)
  show "wg_ids h = wg_ids g" using nodes start_ready_frame(1) [of g] by simp
  show "set (map wn_node_id (filter (\<lambda>n. wn_status n = ''running'') (wg_nodes h))) = set (dr_ready_nodes g)"
    unfolding nodes using running [symmetric] by (auto simp: find_node_iff [OF dist'])
qed

text \<open>What the costs and budgets of a graph are does not change when its nodes are started and completed.\<close>

lemma within_means_cong:
  assumes "distinct (wg_ids g)" and ids: "wg_ids h = wg_ids g"
    and same: "\<And>i n. wq_find_node g i = Some n \<Longrightarrow>
      \<exists>m. wq_find_node h i = Some m \<and> wn_budget m = wn_budget n \<and> final_cost F cost m = final_cost F cost n"
  shows "within_means F cost t h \<longleftrightarrow> within_means F cost t g"
proof -
  have dist': "distinct (wg_ids h)" using assms by simp
  let ?f = "\<lambda>n. (wn_budget n, final_cost F cost n)"
  have "map ?f (wg_nodes h) = map (\<lambda>i. ?f (the (wq_find_node h i))) (wg_ids h)" by (rule nodes_by_id [OF dist'])
  also have "\<dots> = map (\<lambda>i. ?f (the (wq_find_node g i))) (wg_ids g)"
  proof (rule map_cong [OF ids])
    fix i assume "i \<in> set (wg_ids g)"
    then obtain n where "wq_find_node g i = Some n" using wq_find_node_None_iff [of g i] by (cases "wq_find_node g i") auto
    with same [OF this] show "?f (the (wq_find_node h i)) = ?f (the (wq_find_node g i))" by auto
  qed
  also have "\<dots> = map ?f (wg_nodes g)" by (rule nodes_by_id [OF assms(1), symmetric])
  finally have eq: "map ?f (wg_nodes h) = map ?f (wg_nodes g)" .
  have same': "map (\<lambda>n. P (wn_budget n) (final_cost F cost n)) (wg_nodes h) =
      map (\<lambda>n. P (wn_budget n) (final_cost F cost n)) (wg_nodes g)" for P :: "'a \<Rightarrow> 'a \<Rightarrow> 'c"
    using arg_cong [OF eq, of "map (\<lambda>(b, c). P b c)"] by (simp add: comp_def)
  have all: "list_all (\<lambda>n. P (wn_budget n) (final_cost F cost n)) (wg_nodes h) =
      list_all (\<lambda>n. P (wn_budget n) (final_cost F cost n)) (wg_nodes g)" for P
    using arg_cong [OF eq, of "list_all (\<lambda>(b, c). P b c)"] by (simp add: list_all_iff)
  show ?thesis
    using same' [of "\<lambda>b c. b"] same' [of "\<lambda>b c. c"]
      all [of "\<lambda>b c. \<not> (f64_gt F b (f64_lit F ''0.0'') \<and> f64_gt F c (f64_mul F b t))"]
    by (simp add: within_means_def)
qed

lemma finished_fields:
  "wn_status (finished report F cost i n) = ''completed''" "wn_node_id (finished report F cost i n) = wn_node_id n"
  "wn_budget (finished report F cost i n) = wn_budget n" "wn_output_ref (finished report F cost i n) = Some (report i)"
  by (simp_all add: finished_def)

lemma finished_cost:
  "wn_node_id n = i \<Longrightarrow> wn_cost_incurred (finished report F cost i n) = final_cost F cost n"
  "wn_node_id n = i \<Longrightarrow> final_cost F cost (finished report F cost i n) = final_cost F cost n"
  "final_cost F cost (started n) = final_cost F cost n"
  by (simp_all add: finished_def final_cost_def started_fields)

text \<open>A round with pending nodes stays on track and completes exactly the ready ones.\<close>

lemma work_round_find:
  fixes F :: "'f f64_ops" and eng :: "'f workflow_engine" and sid perm report
  assumes track: "on_track F cost (g, eng)" and todo: "pending_ids g \<noteq> {}"
  defines "s' \<equiv> work_round F sid perm report cost (g, eng)" and "R \<equiv> set (dr_ready_nodes g)"
  shows "wq_find_node (fst s') i = (if i \<in> R then map_option (\<lambda>n. finished report F cost i (started n)) (wq_find_node g i)
      else wq_find_node g i)"
    "wg_ids (fst s') = wg_ids g" "wg_edges (fst s') = wg_edges g" "wg_status (fst s') = ''running''"
    "wg_workflow_id (fst s') = wg_workflow_id g" "en_gate (snd s') = en_gate eng"
    "affordable F cost (pending_ids g - R) (wg_workflow_id g) (snd s')"
proof -
  note dist = on_trackD(1) [OF track]
  let ?h = "tick F sid perm eng g"
  let ?js = "map wn_node_id (filter (\<lambda>n. wn_status n = ''running'') (wg_nodes ?h))"
  note tick = tick_starts [OF track todo, of sid perm]
  have s': "s' = foldl (\<lambda>s i. engine_complete_node F i (report i) (cost i) s) (?h, eng) ?js"
    by (simp add: s'_def work_round_def Let_def)
  have "distinct ?js" using tick(5) dist by (intro distinct_map_filter) simp
  moreover have js: "set ?js = R" using tick(6) by (simp add: R_def)
  moreover have "R \<subseteq> pending_ids g" unfolding R_def by (rule ready_pending [OF dist])
  moreover have "affordable F cost (pending_ids g) (wg_workflow_id (fst (?h, eng))) (snd (?h, eng))"
    using on_trackD(6) [OF track] tick(4) by simp
  ultimately have comp: "completes report F cost R (?h, eng) s'"
    and aff: "affordable F cost (pending_ids g - R) (wg_workflow_id (fst s')) (snd s')"
    using complete_all_within [of F cost "pending_ids g" "(?h, eng)" ?js report] unfolding s' js by blast+
  have h: "wq_find_node ?h i = (if i \<in> R then map_option started (wq_find_node g i) else wq_find_node g i)"
    using start_ready_find [OF dist, of i] tick(1) by (simp add: wq_find_node_def R_def)
  have "wq_find_node (fst s') i = (if i \<in> R then map_option (finished report F cost i) (wq_find_node ?h i) else wq_find_node ?h i)"
    using comp unfolding completes_def by simp
  then show "wq_find_node (fst s') i = (if i \<in> R then map_option (\<lambda>n. finished report F cost i (started n)) (wq_find_node g i)
      else wq_find_node g i)"
    unfolding h by (simp add: option.map_comp comp_def)
  show "wg_ids (fst s') = wg_ids g" "wg_edges (fst s') = wg_edges g" "wg_status (fst s') = ''running''"
    and w: "wg_workflow_id (fst s') = wg_workflow_id g" and "en_gate (snd s') = en_gate eng"
    using comp tick(2-5) unfolding completes_def fst_conv snd_conv by metis+
  show "affordable F cost (pending_ids g - R) (wg_workflow_id g) (snd s')" using aff unfolding w .
qed

lemma work_round_step:
  fixes F :: "'f f64_ops" and eng :: "'f workflow_engine" and sid perm report
  assumes track: "on_track F cost (g, eng)" and todo: "pending_ids g \<noteq> {}"
  defines "s' \<equiv> work_round F sid perm report cost (g, eng)"
  shows "on_track F cost s'" "pending_ids (fst s') = pending_ids g - set (dr_ready_nodes g)"
proof -
  note round = work_round_find [OF track todo, of sid perm report, folded s'_def]
  note dist = on_trackD(1) [OF track]
  have cases: "\<exists>m. wq_find_node g i = Some m \<and> (n = m \<and> i \<notin> set (dr_ready_nodes g) \<or>
      n = finished report F cost i (started m) \<and> wn_node_id m = i \<and> i \<in> set (dr_ready_nodes g))"
    if "wq_find_node (fst s') i = Some n" for i n
    using that round(1) [of i] by (auto split: if_splits simp: wq_find_node_id)
  show pend: "pending_ids (fst s') = pending_ids g - set (dr_ready_nodes g)"
    by (auto simp: pending_ids_def round(1) finished_fields split: if_splits)
  have "within_means F cost t (fst s') \<longleftrightarrow> within_means F cost t g" for t
    by (rule within_means_cong [OF dist round(2)])
      (auto simp: round(1) finished_fields finished_cost started_fields wq_find_node_id)
  moreover have "wn_status n = ''pending'' \<or> wn_status n = ''completed'' \<and> wn_cost_incurred n = final_cost F cost n"
    if "wq_find_node (fst s') i = Some n" for i n
    using cases [OF that] on_trackD(3) [OF track, of i]
    by (auto simp: finished_fields finished_cost started_fields)
  ultimately show "on_track F cost s'"
    unfolding on_track_def using on_trackD [OF track] round pend by simp
qed

text \<open>When nothing is pending any more, the next tick completes the workflow.\<close>

lemma overrun_conflict:
  assumes "c \<in> set (detect_conflicts F sid perm g)" and kind: "cr_conflict_type c = ''budget_overrun''"
  shows "f64_gt F (f64_sum F (map wn_budget (wg_nodes g))) (f64_lit F ''0.0'')"
    "f64_gt F (f64_sum F (map wn_cost_incurred (wg_nodes g))) (f64_sum F (map wn_budget (wg_nodes g)))"
  using assms
  by (auto simp: detect_conflicts_def Let_def new_conflict_def enumerate_eq_zip dest!: set_zip_rightD split: if_splits)

lemma resolve_keeps_status:
  assumes "\<And>c. c \<in> set cs \<Longrightarrow> cr_conflict_type c \<noteq> ''budget_overrun''"
  shows "resolve_conflicts g cs = g"
  using assms by (auto simp: resolve_conflicts_def list_ex_iff resolve_conflict_def Let_def split: if_splits)

lemma tick_completes:
  fixes F :: "'f f64_ops" and eng :: "'f workflow_engine" and sid perm
  assumes track: "on_track F cost (g, eng)" and none: "pending_ids g = {}"
  shows "tick F sid perm eng g =
    g\<lparr>wg_status := ''completed'', wg_completed_at := Some ''now'', wg_result := Some (json_object (aggregate F g))\<rparr>"
proof -
  note dist = on_trackD(1) [OF track]
  have all: "wn_status n = ''completed'' \<and> wn_cost_incurred n = final_cost F cost n" if "n \<in> set (wg_nodes g)" for n
    using on_trackD(3) [OF track, of "wn_node_id n" n] find_node_iff [OF dist, of "wn_node_id n" n] that none
    by (auto simp: pending_ids_def)
  have "set (dr_ready_nodes g) = {}" using ready_pending [OF dist] none by simp
  then have start: "start_ready_nodes g = g" by (simp add: start_ready_nodes_def)
  have complete: "is_complete (start_ready_nodes g)" using all by (auto simp: start is_complete_def list_all_iff)
  have no_failed: "\<not> list_ex (\<lambda>n. wn_status n = ''failed'' \<or> wn_status n = ''cancelled'') (wg_nodes g)"
    using all by (auto simp: list_ex_iff)
  then have failures: "after_failures F eng g = g" by (simp add: after_failures_def)
  have costs: "map wn_cost_incurred (wg_nodes g) = map (final_cost F cost) (wg_nodes g)" using all by simp
  have means: "within_means F cost (risk_threshold (en_gate eng)) g" by (rule on_trackD(5) [OF track])
  have "cr_conflict_type c \<noteq> ''budget_overrun''" if "c \<in> set (open_conflicts F sid perm g)" for c
    using overrun_conflict [of c F sid perm g] that means unfolding costs by (auto simp: open_conflicts_def within_means_def)
  then have conflicts: "after_conflicts F sid perm g = g" by (simp add: after_conflicts_def resolve_keeps_status)
  have "\<not> gate_requires_approval F (en_gate eng) n" if "n \<in> set (wg_nodes g)" for n
    using all [OF that] means that by (auto simp: gate_requires_approval_def within_means_def list_all_iff)
  then have approval: "\<not> check_approval_needed F eng g" by (auto simp: check_approval_needed_def list_ex_iff)
  have status: "wg_status g \<notin> {''completed'', ''failed'', ''cancelled''}" "wg_status g \<noteq> ''cancelled''"
    using on_trackD(4) [OF track] by auto
  show ?thesis
    unfolding tick_ended [OF status(1) complete] start failures conflicts using status(2) no_failed approval by simp
qed

text \<open>
  The workflow has completed with the outputs reported for the nodes \<open>T\<close>; further rounds leave it as it is.
\<close>

definition reported :: "(string \<Rightarrow> string) \<Rightarrow> string set \<Rightarrow> 'f workflow_graph \<Rightarrow> bool" where
  "reported report T g \<longleftrightarrow> list_all (\<lambda>n. wn_status n = ''completed'' \<and> wn_node_id n \<in> T \<longrightarrow>
     wn_output_ref n = Some (report (wn_node_id n))) (wg_nodes g)"

definition all_completed :: "'f workflow_graph \<Rightarrow> bool" where
  "all_completed g \<longleftrightarrow> wg_status g = ''completed'' \<and> list_all (\<lambda>n. wn_status n = ''completed'') (wg_nodes g)"

lemma round_completes:
  assumes track: "on_track F cost (g, eng)" and none: "pending_ids g = {}" and "reported report T g"
  shows "all_completed (fst (work_round F sid perm report cost (g, eng)))"
    "reported report T (fst (work_round F sid perm report cost (g, eng)))"
    "wg_ids (fst (work_round F sid perm report cost (g, eng))) = wg_ids g"
proof -
  note dist = on_trackD(1) [OF track]
  have all: "wn_status n = ''completed''" if "n \<in> set (wg_nodes g)" for n
    using on_trackD(3) [OF track, of "wn_node_id n" n] find_node_iff [OF dist, of "wn_node_id n" n] that none
    by (auto simp: pending_ids_def)
  then have "filter (\<lambda>n. wn_status n = ''running'') (wg_nodes g) = []" by (auto simp: filter_empty_conv)
  then show "all_completed (fst (work_round F sid perm report cost (g, eng)))"
    "reported report T (fst (work_round F sid perm report cost (g, eng)))"
    "wg_ids (fst (work_round F sid perm report cost (g, eng))) = wg_ids g"
    using all assms(3)
    by (simp_all add: work_round_def tick_completes [OF track none] all_completed_def reported_def list_all_iff)
qed

lemma completed_stays:
  assumes "all_completed (fst s)"
  shows "work_round F sid perm report cost s = s"
proof -
  have "filter (\<lambda>n. wn_status n = ''running'') (wg_nodes (fst s)) = []"
    using assms by (auto simp: filter_empty_conv all_completed_def list_all_iff)
  then show ?thesis using assms by (simp add: work_round_def tick_def all_completed_def)
qed

lemma round_reports:
  assumes track: "on_track F cost (g, eng)" and todo: "pending_ids g \<noteq> {}" and "reported report T g"
  shows "reported report T (fst (work_round F sid perm report cost (g, eng)))"
proof -
  let ?g = "fst (work_round F sid perm report cost (g, eng))"
  note round = work_round_find [OF track todo, of sid perm report]
  note dist = on_trackD(1) [OF track]
  have dist': "distinct (wg_ids ?g)" using dist round(2) by simp
  have "wn_output_ref n = Some (report (wn_node_id n))"
    if n: "n \<in> set (wg_nodes ?g)" "wn_status n = ''completed''" "wn_node_id n \<in> T" for n
  proof (cases "wn_node_id n \<in> set (dr_ready_nodes g)")
    case True
    then obtain m where "n = finished report F cost (wn_node_id n) (started m)"
      using find_node_iff [OF dist', of "wn_node_id n" n] n(1) round(1) [of "wn_node_id n"] by (auto dest: sym)
    then show ?thesis by (metis finished_fields(4))
  next
    case False
    then have "wq_find_node g (wn_node_id n) = Some n"
      using find_node_iff [OF dist', of "wn_node_id n" n] n(1) round(1) [of "wn_node_id n"] by simp
    then have "n \<in> set (wg_nodes g)" by (simp add: find_node_iff [OF dist])
    then show ?thesis using assms(3) n by (simp add: reported_def list_all_iff)
  qed
  then show ?thesis by (simp add: reported_def list_all_iff)
qed

abbreviation work_rounds :: "'f f64_ops \<Rightarrow> (string \<Rightarrow> string) \<Rightarrow> (string \<Rightarrow> 'f) \<Rightarrow>
    ((nat \<Rightarrow> string) \<times> (string list list \<Rightarrow> string list list)) list \<Rightarrow>
    'f workflow_graph \<times> 'f workflow_engine \<Rightarrow> 'f workflow_graph \<times> 'f workflow_engine" where
  "work_rounds F report cost rounds s \<equiv> foldl (\<lambda>s (sid, perm). work_round F sid perm report cost s) s rounds"

lemma finite_pending: "finite (pending_ids g)"
proof -
  have "pending_ids g \<subseteq> set (wg_ids g)" by (auto simp: pending_ids_def wq_find_node_def find_Some_iff)
  then show ?thesis using finite_subset by blast
qed

text \<open>Every round completes a node as long as one is pending: a bound on the rounds a workflow takes.\<close>

lemma rounds_complete:
  assumes "on_track F cost (g, eng)" "reported report T g" "card (pending_ids g) < length rounds"
  shows "all_completed (fst (work_rounds F report cost rounds (g, eng))) \<and>
    reported report T (fst (work_rounds F report cost rounds (g, eng))) \<and>
    wg_ids (fst (work_rounds F report cost rounds (g, eng))) = wg_ids g"
  using assms
proof (induction rounds arbitrary: g eng)
  case (Cons r rounds)
  obtain sid perm where r: "r = (sid, perm)" by (cases r)
  obtain g' eng' where s': "work_round F sid perm report cost (g, eng) = (g', eng')" by (cases "work_round F sid perm report cost (g, eng)")
  show ?case
  proof (cases "pending_ids g = {}")
    case True
    have stays: "work_rounds F report cost rs (g', eng') = (g', eng')" if "all_completed g'" for rs
      using that completed_stays [of "(g', eng')"] by (induction rs) auto
    show ?thesis using round_completes [OF Cons.prems(1) True Cons.prems(2), of sid perm] stays by (simp add: r s')
  next
    case False
    note step = work_round_step [OF Cons.prems(1) False, of sid perm report, unfolded s' fst_conv]
    have "set (dr_ready_nodes g) \<inter> pending_ids g \<noteq> {}"
      using pending_ready [OF Cons.prems(1) False] ready_pending [OF on_trackD(1) [OF Cons.prems(1)]]
      by (simp add: Int_absorb2)
    then have "pending_ids g' \<subset> pending_ids g" using step(2) by blast
    then have "card (pending_ids g') < length rounds"
      using Cons.prems(3) psubset_card_mono [OF finite_pending, of "pending_ids g'" g] by simp
    then show ?thesis
      using Cons.IH [OF step(1)] round_reports [OF Cons.prems(1) False Cons.prems(2), of sid perm]
        work_round_find(2) [OF Cons.prems(1) False, of sid perm report] by (simp add: r s')
  qed
qed simp

section \<open>From the decision to the end\<close>

lemma created_shape:
  obtains g s where "run_state (decompose F order a d) s0 = (g, s)" "pipeline F a (wg_nodes g) (wg_edges g)"
    "wg_status g = ''decomposed''" "wg_dispatch_id g = d" "valid_graph (wg_ids g) (wg_arcs g)"
proof -
  obtain g s where run: "run_state (decompose F order a d) s0 = (g, s)" "pipeline F a (wg_nodes g) (wg_edges g)"
    "wg_status g = ''decomposed''" "wg_dispatch_id g = d" by (rule decompose_run)
  moreover have "valid_graph (wg_ids g) (wg_arcs g)" using run(2) pipeline_valid by (simp add: pipeline_def)
  ultimately show ?thesis by (rule that)
qed

text \<open>Creating a workflow. A decision other than decided is refused and leaves the engine and the source of
  identifiers as they are. A decided one always yields a graph: one, two or four pending nodes with different
  identifiers, each depending on the one before it, which passes its own validation; the workflow starts with
  nothing consumed of the given limit, and the budgets of other workflows, the approvals and the strategy stay.\<close>

lemma create_workflow_outcome:
  "case create_workflow F order a d limit decision eng rt of (r, eng', rt') \<Rightarrow>
     if decision = ''decided''
     then \<exists>g. r = Ok g \<and> pipeline F a (wg_nodes g) (wg_edges g) \<and> dr_validate g = (True, []) \<and>
       wg_status g = ''decomposed'' \<and> wg_dispatch_id g = d \<and> en_gate eng' = en_gate eng \<and>
       overrun_strategy (en_budgets eng') = overrun_strategy (en_budgets eng) \<and>
       hm_get (bm_budgets (en_budgets eng')) = (hm_get (bm_budgets (en_budgets eng)))(wg_workflow_id g \<mapsto>
         \<lparr>total_limit = limit, consumed = f64_lit F ''0.0'', agent_limits = [], agent_consumed = [], node_reservations = []\<rparr>)
     else (\<exists>msg. r = Err msg) \<and> eng' = eng \<and> rt' = rt"
proof (cases "decision = ''decided''")
  case True
  obtain g s where run: "run_state (decompose F order a d) \<lparr>bl_registry = en_registry eng, bl_runtime = rt\<rparr> = (g, s)"
    "pipeline F a (wg_nodes g) (wg_edges g)" "wg_status g = ''decomposed''" "wg_dispatch_id g = d"
    "valid_graph (wg_ids g) (wg_arcs g)" by (rule created_shape)
  have "dr_validate g = (True, [])"
    using run(5) rg_ops.validate_errors [of g] rg_ops.validate_iff [of g] by (cases "dr_validate g") auto
  then show ?thesis using True run by (simp add: create_workflow_def create_workflow_budget_def fun_eq_iff map_laws)
qed (simp add: create_workflow_def)

lemma created_on_track:
  assumes "create_workflow F order a d limit ''decided'' eng rt = (Ok g, eng', rt')"
    and means: "within_means F cost (risk_threshold (en_gate eng)) g"
    and spend: "\<And>js. distinct js \<Longrightarrow> set js \<subseteq> set (wg_ids g) \<Longrightarrow> \<not> f64_gt F (spend F cost (f64_lit F ''0.0'') js) limit"
  shows "on_track F cost (g, eng')" "card (pending_ids g) \<le> 4" "reported report T g" "pending_ids g = set (wg_ids g)"
proof -
  obtain g0 s where run: "run_state (decompose F order a d) \<lparr>bl_registry = en_registry eng, bl_runtime = rt\<rparr> = (g0, s)"
    "pipeline F a (wg_nodes g0) (wg_edges g0)" "wg_status g0 = ''decomposed''" "valid_graph (wg_ids g0) (wg_arcs g0)"
    by (rule created_shape)
  have valid: "fst (dr_validate g0)" using run(4) by (simp add: dr_validate_iff)
  have g: "g = g0" and eng': "en_gate eng' = en_gate eng"
    "en_budgets eng' = create_workflow_budget F (wg_workflow_id g) limit (en_budgets eng)"
    using assms(1) valid by (auto simp: create_workflow_def run(1) split: prod.splits)
  have dist: "distinct (wg_ids g)" and nodes: "length (wg_nodes g) \<le> 4" "\<And>n. n \<in> set (wg_nodes g) \<Longrightarrow> wn_status n = ''pending''"
    using run(2) by (auto simp: g pipeline_def list_all_iff)
  show ids: "pending_ids g = set (wg_ids g)"
    using nodes(2) by (auto simp: pending_ids_def find_node_iff [OF dist])
  show "card (pending_ids g) \<le> 4" using nodes(1) card_length [of "wg_ids g"] unfolding ids by simp
  show "reported report T g" using nodes(2) by (auto simp: reported_def list_all_iff)
  have "affordable F cost (pending_ids g) (wg_workflow_id g) eng'"
    using spend unfolding affordable_def eng'(2) ids by (auto simp: create_workflow_budget_def map_laws)
  then show "on_track F cost (g, eng')"
    unfolding on_track_def fst_conv snd_conv eng'(1) using dist run(3,4) nodes(2) means by (auto simp: g find_node_iff)
qed

text \<open>C3. A workflow whose workers all succeed within the budgets completes. After a decided analysis has been turned
  into a workflow, suppose every node the engine starts reports back with an output and a cost, that no cost
  exceeds the part of its node's budget that needs an approval, that the total does not exceed the nodes' budgets
  together, and that no order of spending exceeds the limit of the workflow. Then five rounds of a tick and the
  reports it provokes are enough: the workflow and all its nodes are completed, each with the output reported.\<close>

theorem created_workflow_completes:
  assumes "create_workflow F order a d limit ''decided'' eng rt = (Ok g, eng', rt')"
    and "within_means F cost (risk_threshold (en_gate eng)) g"
    and "\<And>js. distinct js \<Longrightarrow> set js \<subseteq> set (wg_ids g) \<Longrightarrow> \<not> f64_gt F (spend F cost (f64_lit F ''0.0'') js) limit"
    and "5 \<le> length rounds"
  shows "case work_rounds F report cost rounds (g, eng') of (h, eng'') \<Rightarrow>
    all_completed h \<and> wg_ids h = wg_ids g \<and> reported report (set (wg_ids g)) h"
proof -
  note start = created_on_track [OF assms(1-3)]
  have "card (pending_ids g) < length rounds" using start(2) assms(4) by simp
  then show ?thesis using rounds_complete [OF start(1,3)] by (simp add: case_prod_beta)
qed

definition sample_created :: "int workflow_graph \<times> int workflow_engine \<times> fixture_runtime" where
  "sample_created = (case create_workflow exact_ops [] sample_analysis ''d1'' 100 ''decided'' (new_engine exact_ops None) [] of
     (Ok g, s) \<Rightarrow> (g, s) | (Err e, s) \<Rightarrow> (sample_workflow, s))"

definition sample_rounds :: "((nat \<Rightarrow> string) \<times> (string list list \<Rightarrow> string list list)) list" where
  "sample_rounds = replicate 5 (show_nat, \<lambda>xs. xs)"

lemma exact_spend:
  assumes "distinct js" "set js \<subseteq> set ids" "0 \<le> c"
  shows "spend exact_ops (\<lambda>i. c) spent js \<le> spent + c * int (length ids)"
proof -
  have "spend exact_ops (\<lambda>i. c) spent js \<le> spent + c * int (length js)"
    using assms(3)
  proof (induction js arbitrary: spent)
    case (Cons j js)
    then show ?case using Cons.IH [of "spent + c"] by (auto simp: spend_def exact_ops_def algebra_simps)
  qed (simp add: spend_def exact_ops_def)
  moreover have "length js \<le> length ids"
    using assms card_mono [of "set ids" "set js"] card_length [of ids] by (simp add: distinct_card)
  then have "c * int (length js) \<le> c * int (length ids)" using assms(3) by (intro mult_left_mono) simp_all
  ultimately show ?thesis by simp
qed

theorem created_workflow_completes_witness:
  "case work_rounds exact_ops (\<lambda>i. ''out-'' @ i) (\<lambda>i. 5) sample_rounds (fst sample_created, fst (snd sample_created)) of (h, eng) \<Rightarrow>
    all_completed h \<and> wg_ids h = wg_ids (fst sample_created) \<and>
    reported (\<lambda>i. ''out-'' @ i) (set (wg_ids (fst sample_created))) h"
proof (rule created_workflow_completes)
  show "create_workflow exact_ops [] sample_analysis ''d1'' 100 ''decided'' (new_engine exact_ops None) [] =
      (Ok (fst sample_created), fst (snd sample_created), snd (snd sample_created))" by code_simp
  show "within_means exact_ops (\<lambda>i. 5) (risk_threshold (en_gate (new_engine exact_ops None))) (fst sample_created)" by code_simp
  show "5 \<le> length sample_rounds" by (simp add: sample_rounds_def)
  show "\<not> f64_gt exact_ops (spend exact_ops (\<lambda>i. 5) (f64_lit exact_ops ''0.0'') js) 100"
    if "distinct js" "set js \<subseteq> set (wg_ids (fst sample_created))" for js
  proof -
    have "length (wg_ids (fst sample_created)) = 4" by code_simp
    then show ?thesis using exact_spend [OF that, of 5 0] by (simp add: exact_ops_def)
  qed
qed

end
