(* ===== verification/Python_Text.thy ===== *)
theory Python_Text
  imports Rust_Text
begin

text \<open>
  The text operations of the Python standard library that the review loop uses, on the characters U+0000 to
  U+00FF: white space and \<^verbatim>\<open>strip\<close>, \<^verbatim>\<open>replace\<close>, substring tests, \<^verbatim>\<open>repr\<close>, and the strings of
  \<^verbatim>\<open>json.dumps\<close>. Text of these characters is in normal form C already, so that
  \<^verbatim>\<open>unicodedata.normalize("NFC", text)\<close> is the text itself, and it holds no byte order mark.
\<close>

section \<open>White space\<close>

text \<open>\<^verbatim>\<open>str.isspace\<close>, which is also \<^verbatim>\<open>\s\<close> in a regular expression.\<close>

definition py_isspace :: "char \<Rightarrow> bool" where
  "py_isspace c \<longleftrightarrow> char_in c 9 13 \<or> char_in c 28 32 \<or> char_in c 133 133 \<or> char_in c 160 160"

definition py_strip :: "string \<Rightarrow> string" where
  "py_strip s = rev (dropWhile py_isspace (rev (dropWhile py_isspace s)))"

section \<open>Substrings\<close>

text \<open>\<^verbatim>\<open>text.replace(old, new)\<close> for a nonempty \<open>old\<close>, \<^verbatim>\<open>text.replace(old, new, 1)\<close> and \<^verbatim>\<open>part in text\<close>.\<close>

definition starts_at :: "string \<Rightarrow> string \<Rightarrow> bool" where
  "starts_at p s \<longleftrightarrow> take (length p) s = p"

fun py_replace :: "string \<Rightarrow> string \<Rightarrow> string \<Rightarrow> string" where
  "py_replace old new [] = []"
| "py_replace old new (c # cs) =
     (if old \<noteq> [] \<and> starts_at old (c # cs) then new @ py_replace old new (drop (length old - 1) cs)
      else c # py_replace old new cs)"

fun py_replace_first :: "string \<Rightarrow> string \<Rightarrow> string \<Rightarrow> string" where
  "py_replace_first old new [] = []"
| "py_replace_first old new (c # cs) =
     (if old \<noteq> [] \<and> starts_at old (c # cs) then new @ drop (length old - 1) cs else c # py_replace_first old new cs)"

fun py_contains :: "string \<Rightarrow> string \<Rightarrow> bool" where
  "py_contains part [] \<longleftrightarrow> part = []"
| "py_contains part (c # cs) \<longleftrightarrow> starts_at part (c # cs) \<or> py_contains part cs"

section \<open>Hexadecimal digits\<close>

definition is_hex :: "char \<Rightarrow> bool" where
  "is_hex c \<longleftrightarrow> char_in c 48 57 \<or> char_in c 97 102"

text \<open>\<^verbatim>\<open>re.fullmatch("[0-9a-f]{k}", s)\<close>.\<close>

definition hex_string :: "nat \<Rightarrow> string \<Rightarrow> bool" where
  "hex_string k s \<longleftrightarrow> length s = k \<and> list_all is_hex s"

definition hex2 :: "nat \<Rightarrow> string" where
  "hex2 n = [hex_digit (n div 16), hex_digit (n mod 16)]"

section \<open>Printing\<close>

definition dquote :: char where "dquote = CHR 0x22"
definition backslash :: char where "backslash = CHR 0x5C"

text \<open>The strings of \<^verbatim>\<open>json.dumps\<close>, with everything outside printable ASCII escaped.\<close>

definition json_escape_char :: "char \<Rightarrow> string" where
  "json_escape_char c =
     (let n = of_char c :: nat in
      if n = 34 \<or> n = 92 then [backslash, c]
      else if n = 8 then [backslash, CHR ''b'']
      else if n = 9 then [backslash, CHR ''t'']
      else if n = 10 then [backslash, CHR ''n'']
      else if n = 12 then [backslash, CHR ''f'']
      else if n = 13 then [backslash, CHR ''r'']
      else if 32 \<le> n \<and> n \<le> 126 then [c]
      else [backslash, CHR ''u'', CHR ''0'', CHR ''0''] @ hex2 n)"

definition json_escape :: "string \<Rightarrow> string" where
  "json_escape s = concat (map json_escape_char s)"

definition json_str :: "string \<Rightarrow> string" where
  "json_str s = [dquote] @ json_escape s @ [dquote]"

text \<open>\<^verbatim>\<open>repr\<close> of a string and of a tuple of strings.\<close>

definition repr_char :: "char \<Rightarrow> char \<Rightarrow> string" where
  "repr_char quote c =
     (let n = of_char c :: nat in
      if c = quote \<or> n = 92 then [backslash, c]
      else if n = 9 then [backslash, CHR ''t'']
      else if n = 10 then [backslash, CHR ''n'']
      else if n = 13 then [backslash, CHR ''r'']
      else if n < 32 \<or> (127 \<le> n \<and> n \<le> 160) \<or> n = 173 then [backslash, CHR ''x''] @ hex2 n
      else [c])"

definition py_repr :: "string \<Rightarrow> string" where
  "py_repr s =
     (let quote = (if CHR 0x27 \<in> set s \<and> dquote \<notin> set s then dquote else CHR 0x27)
      in [quote] @ concat (map (repr_char quote) s) @ [quote])"

fun py_join :: "string \<Rightarrow> string list \<Rightarrow> string" where
  "py_join sep [] = []"
| "py_join sep [s] = s"
| "py_join sep (s # ss) = s @ sep @ py_join sep ss"

definition py_repr_tuple :: "string list \<Rightarrow> string" where
  "py_repr_tuple ss =
     (case ss of
        [s] \<Rightarrow> ''('' @ py_repr s @ '',)''
      | _ \<Rightarrow> ''('' @ py_join '', '' (map py_repr ss) @ '')'')"

section \<open>Lemmas\<close>

lemma starts_at_append [simp]: "starts_at p (p @ s)"
  by (simp add: starts_at_def)

lemma starts_at_iff: "starts_at p s \<longleftrightarrow> (\<exists>t. s = p @ t)"
  by (metis append_eq_conv_conj append_take_drop_id starts_at_def)

lemma starts_at_simps [simp]:
  "starts_at [] s" "\<not> starts_at (c # p) []" "starts_at (c # p) (d # s) \<longleftrightarrow> c = d \<and> starts_at p s"
  by (auto simp: starts_at_def)

lemma starts_at_appendD: "starts_at (p @ q) s \<Longrightarrow> starts_at p s"
  by (auto simp: starts_at_iff)

lemma py_replace_here:
  assumes "old \<noteq> []"
  shows "py_replace old new (old @ s) = new @ py_replace old new s"
  using assms by (cases old) simp_all

lemma py_replace_skip [simp]: "\<not> starts_at old (c # cs) \<Longrightarrow> py_replace old new (c # cs) = c # py_replace old new cs"
  by simp

lemma py_replace_without:
  "c \<notin> set s \<Longrightarrow> py_replace (c # old) new (s @ t) = s @ py_replace (c # old) new t"
  by (induction s) (auto simp del: py_replace.simps)

lemma of_char_less [simp]: "(of_char c :: nat) < 256"
  using of_char_mod_256 [of c, where 'a = nat] by (metis mod_less_divisor zero_less_numeral)

text \<open>Reading back one character of a printed string.\<close>

definition hex_value :: "char \<Rightarrow> nat" where
  "hex_value c = (if of_char c < (58 :: nat) then of_char c - 48 else of_char c - 87)"

definition json_read_char :: "string \<Rightarrow> char \<times> string" where
  "json_read_char s =
     (if hd s \<noteq> backslash then (hd s, tl s)
      else let e = s ! 1 in
        if e = CHR ''u'' then (char_of (16 * hex_value (s ! 4) + hex_value (s ! 5)), drop 6 s)
        else (if e = CHR ''b'' then char_of (8::nat) else if e = CHR ''t'' then char_of (9::nat)
              else if e = CHR ''n'' then char_of (10::nat) else if e = CHR ''f'' then char_of (12::nat)
              else if e = CHR ''r'' then char_of (13::nat) else e, drop 2 s))"

lemma hex_value_digit [simp]: "d < 16 \<Longrightarrow> hex_value (hex_digit d) = d"
  by (simp add: hex_value_def hex_digit_def)

lemma json_read_escape [simp]: "json_read_char (json_escape_char c @ s) = (c, s)"
proof -
  define n :: nat where "n = of_char c"
  have c: "c = char_of n" by (simp add: n_def)
  have split: "16 * (n div 16) + n mod 16 = n" "n div 16 < 16" "n mod 16 < 16"
    using of_char_less [of c] unfolding n_def [symmetric] by (auto simp: div_less_iff_less_mult)
  consider (quote) "n = 34" | (backslash) "n = 92" | "n = 8" | "n = 9" | "n = 10" | "n = 12" | "n = 13"
    | (plain) "32 \<le> n" "n \<le> 126" "n \<noteq> 34" "n \<noteq> 92"
    | (other) "\<not> (32 \<le> n \<and> n \<le> 126)" "n \<notin> {8, 9, 10, 12, 13}" by force
  then show ?thesis
  proof cases
    case plain
    then have "c \<noteq> backslash" by (auto simp: n_def backslash_def)
    moreover have "json_escape_char c = [c]" using plain by (simp add: json_escape_char_def n_def [symmetric])
    ultimately show ?thesis by (simp add: json_read_char_def)
  next
    case other
    then have "json_escape_char c = [backslash, CHR ''u'', CHR ''0'', CHR ''0'', hex_digit (n div 16), hex_digit (n mod 16)]"
      by (auto simp: json_escape_char_def n_def [symmetric] hex2_def)
    then have "json_read_char (json_escape_char c @ s) = (char_of (16 * (n div 16) + n mod 16), s)"
      by (simp add: json_read_char_def split(2,3))
    then show ?thesis by (simp only: split(1) c)
  next
    case quote
    then have "c = CHR 0x22" by (simp add: c char_of_eq_iff)
    then show ?thesis by (simp add: json_escape_char_def json_read_char_def backslash_def)
  next
    case backslash
    then have "c = CHR 0x5C" by (simp add: c char_of_eq_iff)
    then show ?thesis by (simp add: json_escape_char_def json_read_char_def backslash_def)
  qed (simp_all add: c json_escape_char_def json_read_char_def backslash_def)
qed

lemma json_escape_char_head: "\<exists>a r. json_escape_char c = a # r \<and> a \<noteq> dquote"
  by (auto simp: json_escape_char_def Let_def backslash_def dquote_def)

lemma json_escape_simps [simp]: "json_escape [] = []" "json_escape (c # s) = json_escape_char c @ json_escape s"
  by (simp_all add: json_escape_def)

lemma json_escape_inject:
  "json_escape x @ dquote # t = json_escape y @ dquote # u \<longleftrightarrow> x = y \<and> t = u"
proof (induction x arbitrary: y)
  case Nil
  then show ?case using json_escape_char_head [of "hd y"] by (cases y) auto
next
  case (Cons c x)
  show ?case
  proof (cases y)
    case Nil
    then show ?thesis using json_escape_char_head [of c] by auto
  next
    case (Cons d y')
    have "c = d \<and> json_escape x @ dquote # t = json_escape y' @ dquote # u"
      if "json_escape_char c @ json_escape x @ dquote # t = json_escape_char d @ json_escape y' @ dquote # u"
      using json_read_escape [of c "json_escape x @ dquote # t"]
        json_read_escape [of d "json_escape y' @ dquote # u"] unfolding that by simp
    then show ?thesis using Cons.IH [of y'] Cons by auto
  qed
qed

end
