(* ===== verification/Review_Models.thy ===== *)
theory Review_Models
  imports Python_Text Json_Value
begin

text \<open>
  The data of the review loop (scripts/agent-control/review\_loop/models.py): delivery outcomes, the request
  envelope, the review receipt and the journal record, with their validation and their JSON text; and the
  delivery state machine (state\_machine.py).
\<close>

section \<open>Outcomes\<close>

datatype delivery_outcome =
    BUILT | LIVE_VALIDATED | DELIVERY_INSPECTED | SENT_CONFIRMED | ALREADY_PRESENT | SEND_OUTCOME_UNKNOWN
  | COMMENT_OUTCOME_UNKNOWN | RECONCILED | RESPONSE_CAPTURED | RESPONSE_UNAVAILABLE | RECEIPT_PARSED
  | RECEIPT_REJECTED | HEAD_REVALIDATED | COMMENT_POSTED | COMPLETE | AUTH_REQUIRED | INSPECTION_UNAVAILABLE
  | LOCK_BUSY | FAILED

primrec outcome_value :: "delivery_outcome \<Rightarrow> string" where
  "outcome_value BUILT = ''BUILT''"
| "outcome_value LIVE_VALIDATED = ''LIVE_VALIDATED''"
| "outcome_value DELIVERY_INSPECTED = ''DELIVERY_INSPECTED''"
| "outcome_value SENT_CONFIRMED = ''SENT_CONFIRMED''"
| "outcome_value ALREADY_PRESENT = ''ALREADY_PRESENT''"
| "outcome_value SEND_OUTCOME_UNKNOWN = ''SEND_OUTCOME_UNKNOWN''"
| "outcome_value COMMENT_OUTCOME_UNKNOWN = ''COMMENT_OUTCOME_UNKNOWN''"
| "outcome_value RECONCILED = ''RECONCILED''"
| "outcome_value RESPONSE_CAPTURED = ''RESPONSE_CAPTURED''"
| "outcome_value RESPONSE_UNAVAILABLE = ''RESPONSE_UNAVAILABLE''"
| "outcome_value RECEIPT_PARSED = ''RECEIPT_PARSED''"
| "outcome_value RECEIPT_REJECTED = ''RECEIPT_REJECTED''"
| "outcome_value HEAD_REVALIDATED = ''HEAD_REVALIDATED''"
| "outcome_value COMMENT_POSTED = ''COMMENT_POSTED''"
| "outcome_value COMPLETE = ''COMPLETE''"
| "outcome_value AUTH_REQUIRED = ''AUTH_REQUIRED''"
| "outcome_value INSPECTION_UNAVAILABLE = ''INSPECTION_UNAVAILABLE''"
| "outcome_value LOCK_BUSY = ''LOCK_BUSY''"
| "outcome_value FAILED = ''FAILED''"

definition all_outcomes :: "delivery_outcome list" where
  "all_outcomes = [BUILT, LIVE_VALIDATED, DELIVERY_INSPECTED, SENT_CONFIRMED, ALREADY_PRESENT, SEND_OUTCOME_UNKNOWN,
     COMMENT_OUTCOME_UNKNOWN, RECONCILED, RESPONSE_CAPTURED, RESPONSE_UNAVAILABLE, RECEIPT_PARSED, RECEIPT_REJECTED,
     HEAD_REVALIDATED, COMMENT_POSTED, COMPLETE, AUTH_REQUIRED, INSPECTION_UNAVAILABLE, LOCK_BUSY, FAILED]"

text \<open>\<^verbatim>\<open>DeliveryOutcome(value)\<close>; \<^verbatim>\<open>ValueError\<close> is \<open>None\<close>.\<close>

definition outcome_of :: "string \<Rightarrow> delivery_outcome option" where
  "outcome_of v = find (\<lambda>x. outcome_value x = v) all_outcomes"

section \<open>The request envelope\<close>

record review_request_envelope =
  env_schema_version :: string
  env_repository :: string
  env_pr_number :: int
  env_base_sha :: string
  env_head_sha :: string
  env_chat_key :: string
  env_evidence_index_sha256 :: string
  env_request_text_sha256 :: string
  env_implementation_session_id :: string

definition ENVELOPE_SCHEMA :: string where "ENVELOPE_SCHEMA = ''independent_review_request.v1''"
definition RECEIPT_SCHEMA :: string where "RECEIPT_SCHEMA = ''independent_review_receipt.v1''"
definition JOURNAL_SCHEMA :: string where "JOURNAL_SCHEMA = ''review_loop_journal.v1''"

definition error_if :: "bool \<Rightarrow> string \<Rightarrow> string list" where
  "error_if b msg = (if b then [msg] else [])"

definition envelope_validate :: "review_request_envelope \<Rightarrow> string list" where
  "envelope_validate e =
     error_if (env_schema_version e \<noteq> ENVELOPE_SCHEMA) (''unexpected schema_version '' @ py_repr (env_schema_version e)) @
     error_if (env_repository e = [] \<or> CHR ''/'' \<notin> set (env_repository e)) (''invalid repository '' @ py_repr (env_repository e)) @
     error_if (env_pr_number e \<le> 0) (''invalid pr_number '' @ show_int (env_pr_number e)) @
     concat (map (\<lambda>(name, v). error_if (\<not> hex_string 40 v) (name @ '' is not a 40-hex git object id: '' @ py_repr v))
       [(''base_sha'', env_base_sha e), (''head_sha'', env_head_sha e)]) @
     concat (map (\<lambda>(name, v). error_if (\<not> hex_string 64 v) (name @ '' is not a 64-hex sha: '' @ py_repr v))
       [(''evidence_index_sha256'', env_evidence_index_sha256 e), (''request_text_sha256'', env_request_text_sha256 e)]) @
     error_if (env_chat_key e = [] \<or> env_implementation_session_id e = [])
       ''chat_key and implementation_session_id are required''"

section \<open>The receipt\<close>

record review_receipt =
  rv_schema_version :: string
  rv_verdict :: string
  rv_repository :: string
  rv_pr_number :: int
  rv_base_sha :: string
  rv_head_sha :: string
  rv_diff_scope :: string
  rv_blockers :: "string list"
  rv_unresolved_objections :: "string list"
  rv_reviewer_session_id :: string
  rv_implementation_session_id :: string
  rv_transport :: string
  rv_deferred_notes :: "string list"

definition MAX_DEFERRED_NOTES :: nat where "MAX_DEFERRED_NOTES = 50"
definition MAX_NOTE_LEN :: nat where "MAX_NOTE_LEN = 2000"
definition MAX_DEFERRED_NOTES_TOTAL_BYTES :: nat where "MAX_DEFERRED_NOTES_TOTAL_BYTES = 64 * 1024"

definition receipt_validate :: "review_receipt \<Rightarrow> string list" where
  "receipt_validate r =
     error_if (rv_schema_version r \<noteq> RECEIPT_SCHEMA) (''unexpected schema_version '' @ py_repr (rv_schema_version r)) @
     error_if (rv_verdict r \<noteq> ''PASS'') (''verdict '' @ py_repr (rv_verdict r) @ '' is not an exact PASS'') @
     concat (map (\<lambda>(name, v). error_if (\<not> hex_string 40 v) (name @ '' is not a 40-hex git object id: '' @ py_repr v))
       [(''base_sha'', rv_base_sha r), (''head_sha'', rv_head_sha r)]) @
     error_if (rv_blockers r \<noteq> []) (''receipt has blockers: '' @ py_repr_tuple (rv_blockers r)) @
     error_if (rv_unresolved_objections r \<noteq> [])
       (''receipt has unresolved objections: '' @ py_repr_tuple (rv_unresolved_objections r)) @
     error_if (MAX_DEFERRED_NOTES < length (rv_deferred_notes r))
       (''deferred_notes exceeds cap of '' @ show_nat MAX_DEFERRED_NOTES) @
     error_if (list_ex (\<lambda>note. py_strip note = []) (rv_deferred_notes r)) ''deferred_notes must be non-empty strings'' @
     error_if (list_ex (\<lambda>note. MAX_NOTE_LEN < length note) (rv_deferred_notes r))
       (''deferred note exceeds length cap of '' @ show_nat MAX_NOTE_LEN) @
     error_if (list_ex (\<lambda>note. char_of (0::nat) \<in> set note \<or> char_of (13::nat) \<in> set note) (rv_deferred_notes r))
       ''deferred_notes must not contain unsupported control characters'' @
     error_if (MAX_DEFERRED_NOTES_TOTAL_BYTES < sum_list (map utf8_len (rv_deferred_notes r)))
       (''deferred_notes total size exceeds cap of '' @ show_nat MAX_DEFERRED_NOTES_TOTAL_BYTES @ '' bytes'') @
     error_if (rv_diff_scope r \<noteq> ''complete_base_head'')
       (''diff_scope '' @ py_repr (rv_diff_scope r) @ '' is not complete_base_head'') @
     error_if (rv_reviewer_session_id r = []) ''reviewer_session_id is empty'' @
     error_if (rv_reviewer_session_id r = rv_implementation_session_id r)
       ''reviewer session must differ from implementation session'' @
     error_if (rv_transport r \<noteq> ''parent-posted-on-behalf-of-independent-session'')
       (''transport '' @ py_repr (rv_transport r) @ '' is not in the allowed set'')"

definition matches_envelope :: "review_receipt \<Rightarrow> review_request_envelope \<Rightarrow> string list" where
  "matches_envelope r e =
     error_if (rv_repository r \<noteq> env_repository e) (''repository mismatch '' @ rv_repository r @ '' != '' @ env_repository e) @
     error_if (rv_pr_number r \<noteq> env_pr_number e)
       (''pr_number mismatch '' @ show_int (rv_pr_number r) @ '' != '' @ show_int (env_pr_number e)) @
     error_if (rv_base_sha r \<noteq> env_base_sha e) (''base_sha mismatch '' @ rv_base_sha r @ '' != '' @ env_base_sha e) @
     error_if (rv_head_sha r \<noteq> env_head_sha e) (''head_sha mismatch '' @ rv_head_sha r @ '' != '' @ env_head_sha e) @
     error_if (rv_implementation_session_id r \<noteq> env_implementation_session_id e)
       (''implementation_session_id mismatch '' @ rv_implementation_session_id r @ '' != '' @ env_implementation_session_id e)"

section \<open>JSON text\<close>

definition json_key :: "string \<Rightarrow> string" where
  "json_key k = [dquote] @ k @ [dquote] @ '': ''"

text \<open>\<^verbatim>\<open>json.dumps(..., sort_keys=True, indent=2)\<close>: one field or element to a line.\<close>

definition json_lines :: "string \<Rightarrow> string list \<Rightarrow> string" where
  "json_lines margin xs = py_join ('','' @ [char_of (10::nat)]) (map (\<lambda>x. margin @ x) xs)"

definition json_list :: "string list \<Rightarrow> string" where
  "json_list xs =
     (if xs = [] then ''[]''
      else ''['' @ [char_of (10::nat)] @ json_lines ''    '' (map json_str xs) @ [char_of (10::nat)] @ ''  ]'')"

definition receipt_to_json :: "review_receipt \<Rightarrow> string" where
  "receipt_to_json r =
     [CHR 0x7B, char_of (10::nat)] @
     json_lines ''  ''
       [json_key ''base_sha'' @ json_str (rv_base_sha r), json_key ''blockers'' @ json_list (rv_blockers r),
        json_key ''deferred_notes'' @ json_list (rv_deferred_notes r), json_key ''diff_scope'' @ json_str (rv_diff_scope r),
        json_key ''head_sha'' @ json_str (rv_head_sha r),
        json_key ''implementation_session_id'' @ json_str (rv_implementation_session_id r),
        json_key ''pr_number'' @ show_int (rv_pr_number r), json_key ''repository'' @ json_str (rv_repository r),
        json_key ''reviewer_session_id'' @ json_str (rv_reviewer_session_id r),
        json_key ''schema_version'' @ json_str (rv_schema_version r), json_key ''transport'' @ json_str (rv_transport r),
        json_key ''unresolved_objections'' @ json_list (rv_unresolved_objections r),
        json_key ''verdict'' @ json_str (rv_verdict r)] @
     [char_of (10::nat), CHR 0x7D]"

section \<open>The journal record\<close>

record transport_event =
  te_seq :: nat
  te_ts :: string
  te_event :: string
  te_chat_key :: string
  te_request_text_sha256 :: string
  te_detail :: string
  te_prev_sha :: string
  te_sha :: string

text \<open>\<^verbatim>\<open>json.dumps(dataclasses.asdict(self), sort_keys=True)\<close>.\<close>

definition event_to_json :: "transport_event \<Rightarrow> string" where
  "event_to_json r =
     [CHR 0x7B] @ json_key ''chat_key'' @ json_str (te_chat_key r) @ '', '' @
     json_key ''detail'' @ json_str (te_detail r) @ '', '' @ json_key ''event'' @ json_str (te_event r) @ '', '' @
     json_key ''prev_sha'' @ json_str (te_prev_sha r) @ '', '' @
     json_key ''request_text_sha256'' @ json_str (te_request_text_sha256 r) @ '', '' @
     json_key ''seq'' @ show_nat (te_seq r) @ '', '' @ json_key ''sha'' @ json_str (te_sha r) @ '', '' @
     json_key ''ts'' @ json_str (te_ts r) @ [CHR 0x7D]"

section \<open>The delivery state machine\<close>

fun edges_of :: "delivery_outcome option \<Rightarrow> delivery_outcome list option" where
  "edges_of None = Some [LIVE_VALIDATED, BUILT, FAILED, AUTH_REQUIRED, INSPECTION_UNAVAILABLE]"
| "edges_of (Some BUILT) = Some [LIVE_VALIDATED, FAILED]"
| "edges_of (Some LIVE_VALIDATED) =
     Some [LIVE_VALIDATED, DELIVERY_INSPECTED, AUTH_REQUIRED, INSPECTION_UNAVAILABLE, FAILED]"
| "edges_of (Some AUTH_REQUIRED) = Some [LIVE_VALIDATED, FAILED]"
| "edges_of (Some INSPECTION_UNAVAILABLE) = Some [LIVE_VALIDATED, FAILED]"
| "edges_of (Some DELIVERY_INSPECTED) =
     Some [SENT_CONFIRMED, ALREADY_PRESENT, SEND_OUTCOME_UNKNOWN, RECONCILED, FAILED]"
| "edges_of (Some SENT_CONFIRMED) = Some [RESPONSE_CAPTURED, RESPONSE_UNAVAILABLE]"
| "edges_of (Some ALREADY_PRESENT) = Some [RESPONSE_CAPTURED, RESPONSE_UNAVAILABLE]"
| "edges_of (Some SEND_OUTCOME_UNKNOWN) = Some [ALREADY_PRESENT, RECONCILED, FAILED]"
| "edges_of (Some COMMENT_OUTCOME_UNKNOWN) = Some [COMMENT_POSTED, HEAD_REVALIDATED, FAILED]"
| "edges_of (Some RECONCILED) = Some [LIVE_VALIDATED, FAILED]"
| "edges_of (Some RESPONSE_CAPTURED) = Some [RECEIPT_PARSED, RECEIPT_REJECTED, FAILED]"
| "edges_of (Some RESPONSE_UNAVAILABLE) = Some [RESPONSE_CAPTURED, FAILED]"
| "edges_of (Some RECEIPT_PARSED) = Some [HEAD_REVALIDATED, FAILED]"
| "edges_of (Some RECEIPT_REJECTED) = Some [RECEIPT_PARSED, FAILED]"
| "edges_of (Some HEAD_REVALIDATED) = Some [HEAD_REVALIDATED, COMMENT_POSTED, COMMENT_OUTCOME_UNKNOWN, FAILED]"
| "edges_of (Some COMMENT_POSTED) = Some [COMPLETE, FAILED]"
| "edges_of (Some COMPLETE) = Some []"
| "edges_of (Some FAILED) = Some []"
| "edges_of (Some LOCK_BUSY) = None"

definition transition_allowed :: "delivery_outcome option \<Rightarrow> delivery_outcome \<Rightarrow> bool" where
  "transition_allowed current observed =
     (case edges_of current of None \<Rightarrow> False | Some allowed \<Rightarrow> observed \<in> set allowed)"

definition next_state :: "delivery_outcome option \<Rightarrow> delivery_outcome \<Rightarrow> delivery_outcome option" where
  "next_state current observed = (if transition_allowed current observed then Some observed else None)"

definition can_send :: "delivery_outcome option \<Rightarrow> bool" where
  "can_send current = (case current of None \<Rightarrow> True | Some c \<Rightarrow> c \<in> {BUILT, LIVE_VALIDATED})"

definition can_poll :: "delivery_outcome option \<Rightarrow> bool" where
  "can_poll current = (case current of None \<Rightarrow> False
     | Some c \<Rightarrow> c \<in> {SENT_CONFIRMED, ALREADY_PRESENT, RESPONSE_CAPTURED, RESPONSE_UNAVAILABLE})"

section \<open>Lemmas\<close>

lemma outcome_of_value [simp]: "outcome_of (outcome_value x) = Some x"
  by (cases x) (simp_all add: outcome_of_def all_outcomes_def)

lemma error_if_Nil [simp]: "error_if b msg = [] \<longleftrightarrow> \<not> b"
  by (simp add: error_if_def)

end
