(* ===== verification/Review_Journal.thy ===== *)
theory Review_Journal
  imports Review_Models
begin

text \<open>
  The journal of the review loop (scripts/agent-control/review\_loop/journal.py): an append-only list of
  records, chained by sequence numbers and hashes. A record is a line of the file; its text, the hash over
  it and the check of the chain are those of the source, the hash itself and the clock are arguments.
\<close>

section \<open>The text that is hashed\<close>

definition sha_field :: "string \<Rightarrow> string" where
  "sha_field h = json_key ''sha'' @ [dquote] @ h @ [dquote]"

definition hashed_text :: "transport_event \<Rightarrow> string" where
  "hashed_text r = py_replace (sha_field (te_sha r)) (sha_field []) (event_to_json r)"

lemma value_not_key:
  assumes "dquote \<notin> set w" "backslash \<notin> set w"
    and "starts_at (w @ dquote # CHR '':'' # q) (json_escape x @ dquote # c # t)"
  shows "c = CHR '':''"
  using assms
proof (induction w arbitrary: x)
  case Nil
  then show ?case using json_escape_char_head [of "hd x"] by (cases x) auto
next
  case (Cons a w)
  then obtain d x' where x: "x = d # x'" by (cases x) auto
  have "json_escape_char d = [d] \<or> hd (json_escape_char d) = backslash" "json_escape_char d \<noteq> []"
    by (auto simp: json_escape_char_def Let_def)
  then have "json_escape_char d = [d]" using Cons.prems x by (cases "json_escape_char d") auto
  then show ?case using Cons.IH [of x'] Cons.prems x by simp
qed

lemma hex_digit_not_quote: "k < 16 \<Longrightarrow> hex_digit k \<noteq> dquote"
  by (auto simp: hex_digit_def dquote_def char_of_eq_iff take_bit_eq_mod)

lemma escape_char_quotes: "dquote \<notin> set (json_escape_char d) \<or> json_escape_char d = [backslash, dquote]"
proof (cases "d = dquote")
  case True
  then show ?thesis by (simp add: json_escape_char_def dquote_def)
next
  case False
  have "(of_char d :: nat) div 16 < 16" using of_char_less [of d] by (simp add: div_less_iff_less_mult del: of_char_less)
  then have "dquote \<notin> set (hex2 (of_char d))"
    using hex_digit_not_quote [of "of_char d div 16"] hex_digit_not_quote [of "of_char d mod 16"] by (auto simp: hex2_def)
  moreover have "backslash \<noteq> dquote" "dquote \<notin> set ''btnfru00''" by (simp_all add: dquote_def backslash_def)
  ultimately show ?thesis using False by (auto simp: json_escape_char_def Let_def)
qed

lemma replace_in_value:
  fixes w q :: string
  assumes "dquote \<notin> set w" "backslash \<notin> set w" "c \<noteq> CHR '':''"
  defines "p \<equiv> dquote # w @ dquote # CHR '':'' # q"
  shows "py_replace p new (json_escape x @ dquote # c # t) = json_escape x @ py_replace p new (dquote # c # t)"
proof (induction x)
  case (Cons d x)
  let ?rest = "json_escape x @ dquote # c # t"
  have no: "\<not> starts_at p (dquote # ?rest)"
    using value_not_key [OF assms(1,2), of q x c t] assms(3) by (auto simp: p_def)
  from escape_char_quotes [of d] show ?case
  proof
    assume "dquote \<notin> set (json_escape_char d)"
    then have "py_replace p new (json_escape_char d @ ?rest) = json_escape_char d @ py_replace p new ?rest"
      unfolding p_def by (rule py_replace_without)
    then show ?thesis using Cons.IH by simp
  next
    assume esc: "json_escape_char d = [backslash, dquote]"
    have "\<not> starts_at p (backslash # dquote # ?rest)" by (simp add: p_def backslash_def dquote_def)
    then show ?thesis using Cons.IH no esc by (simp del: py_replace.simps)
  qed
qed simp

lemma replace_over_string:
  fixes w q :: string
  assumes "dquote \<notin> set w" "backslash \<notin> set w" "c \<noteq> CHR '':''" "w = a # w'" "a \<noteq> c"
  defines "p \<equiv> dquote # w @ dquote # CHR '':'' # q"
  shows "py_replace p new (json_str x @ c # t) = json_str x @ py_replace p new (c # t)"
proof -
  have "\<not> starts_at p (dquote # json_escape x @ dquote # c # t)"
    using value_not_key [OF assms(1,2), of q x c t] assms(3) by (auto simp: p_def)
  moreover have "\<not> starts_at p (dquote # c # t)" using assms(4,5) by (simp add: p_def)
  ultimately show ?thesis
    using replace_in_value [OF assms(1-3), of q new x t]
    by (simp add: json_str_def p_def [symmetric] del: py_replace.simps)
qed

lemma show_nat_no_quote: "dquote \<notin> set (show_nat n)" "CHR '','' \<notin> set (show_nat n)"
  using show_nat_digits by (fastforce simp: dquote_def)+

text \<open>The replacement in the text blanks the hash field and nothing else.\<close>

lemma hashed_text_blank:
  assumes "json_escape (te_sha r) = te_sha r"
  shows "hashed_text r = event_to_json (r\<lparr>te_sha := []\<rparr>)"
proof -
  define p where "p = sha_field (te_sha r)"
  let ?q = "CHR '' '' # dquote # te_sha r @ [dquote]"
  have p: "p = dquote # ''sha'' @ dquote # CHR '':'' # ?q"
    by (simp add: p_def sha_field_def json_key_def)
  note over = replace_over_string [of "''sha''" _ "CHR ''s''" "''ha''" ?q, folded p]
  have str: "py_replace p new (json_str x @ c # t) = json_str x @ py_replace p new (c # t)"
    if "c = CHR '','' \<or> c = CHR 0x7D" for new x c t
    using that by (intro over) (auto simp: dquote_def backslash_def)
  have number: "py_replace p new (show_nat n @ t) = show_nat n @ py_replace p new t" for new n t
    unfolding p by (rule py_replace_without [OF show_nat_no_quote(1)])
  have key: "py_replace p new (json_key k @ t) = json_key k @ py_replace p new t"
    if "k \<in> {''chat_key'', ''detail'', ''event'', ''prev_sha'', ''request_text_sha256'', ''seq'', ''ts''}" for new k t
    using that by (auto simp: p json_key_def dquote_def)
  have plain: "py_replace p new (c # t) = c # py_replace p new t" if "c \<noteq> dquote" for new c t
    using that by (simp add: p)
  have here: "py_replace p new (json_key ''sha'' @ json_str (te_sha r) @ t) = new @ py_replace p new t" for new t
    using py_replace_here [of p new t] by (simp add: p_def sha_field_def json_str_def json_key_def assms)
  have blank: "sha_field [] = json_key ''sha'' @ json_str []" by (simp add: sha_field_def json_str_def)
  have chars: "CHR '','' \<noteq> dquote" "CHR '' '' \<noteq> dquote" "CHR 0x7B \<noteq> dquote" "CHR 0x7D \<noteq> dquote"
    by (simp_all add: dquote_def)
  show ?thesis
    unfolding hashed_text_def p_def [symmetric] event_to_json_def blank
    by (simp add: str number key plain here chars del: py_replace.simps(2))
qed

section \<open>Equal text, equal record\<close>

lemma json_str_inject [simp]: "json_str x @ t = json_str y @ u \<longleftrightarrow> x = y \<and> t = u"
  using json_escape_inject [of x t y u] by (simp add: json_str_def)

lemma json_str_eq [simp]: "json_str x = json_str y \<longleftrightarrow> x = y"
  using json_str_inject [of x "[]" y "[]"] by simp

lemma separated_inject:
  "c \<notin> set xs \<Longrightarrow> c \<notin> set ys \<Longrightarrow> xs @ c # t = ys @ c # u \<longleftrightarrow> xs = ys \<and> t = u"
proof (induction xs arbitrary: ys)
  case Nil
  then show ?case by (cases ys) auto
next
  case (Cons x xs)
  then show ?case by (cases ys) auto
qed

lemma show_nat_comma_inject:
  "show_nat m @ CHR '','' # t = show_nat n @ CHR '','' # u \<longleftrightarrow> m = n \<and> t = u"
  by (simp add: separated_inject show_nat_no_quote(2))

lemma event_to_json_inject: "event_to_json r = event_to_json r' \<longleftrightarrow> r = r'"
  by (auto simp: event_to_json_def show_nat_comma_inject intro!: transport_event.equality)

lemma hex_escape: "list_all is_hex h \<Longrightarrow> json_escape h = h"
  by (induction h) (auto simp: json_escape_char_def is_hex_def char_in_def Let_def)

section \<open>The chain\<close>

type_synonym journal = "transport_event list"

fun verify_records :: "(string \<Rightarrow> string) \<Rightarrow> transport_event option \<Rightarrow> nat \<Rightarrow> journal \<Rightarrow> (string, unit) result" where
  "verify_records sha256 previous index [] = Ok ()"
| "verify_records sha256 previous index (r # rs) =
     (if te_sha r = [] then Err (''seq '' @ show_nat (te_seq r) @ '' has no sha; chain broken'')
      else if te_seq r \<noteq> index + 1
      then Err (''sequence gap at seq '' @ show_nat (te_seq r) @ '' (expected '' @ show_nat (index + 1) @ '')'')
      else case (case previous of
          Some p \<Rightarrow> if te_prev_sha r \<noteq> te_sha p
            then Some (''chain break before seq '' @ show_nat (te_seq r) @ '': prev_sha mismatch'') else None
        | None \<Rightarrow> if te_prev_sha r \<noteq> []
            then Some (''first record has unexpected prev_sha '' @ py_repr (te_prev_sha r)) else None) of
        Some e \<Rightarrow> Err e
      | None \<Rightarrow>
          if sha256 (hashed_text r) \<noteq> te_sha r then Err (''seq '' @ show_nat (te_seq r) @ '' sha does not verify'')
          else verify_records sha256 (Some r) (index + 1) rs)"

definition verify_chain :: "(string \<Rightarrow> string) \<Rightarrow> journal \<Rightarrow> (string, unit) result" where
  "verify_chain sha256 records = verify_records sha256 None 0 records"

section \<open>Operations\<close>

definition latest_outcome :: "journal \<Rightarrow> string \<Rightarrow> string \<Rightarrow> delivery_outcome option" where
  "latest_outcome records chat_key request_sha =
     foldl (\<lambda>latest r.
        if te_chat_key r = chat_key \<and> te_request_text_sha256 r = request_sha
        then (case outcome_of (te_event r) of Some x \<Rightarrow> Some x | None \<Rightarrow> latest) else latest) None records"

definition build_record :: "(string \<Rightarrow> string) \<Rightarrow> string \<Rightarrow> journal \<Rightarrow> string \<Rightarrow> string \<Rightarrow> string \<Rightarrow> string \<Rightarrow> transport_event" where
  "build_record sha256 now existing event chat_key request_sha detail =
     (let previous = (if existing = [] then None else Some (last existing));
          record = \<lparr>te_seq = (case previous of Some p \<Rightarrow> te_seq p + 1 | None \<Rightarrow> 1), te_ts = now, te_event = event,
            te_chat_key = chat_key, te_request_text_sha256 = request_sha, te_detail = detail,
            te_prev_sha = (case previous of Some p \<Rightarrow> te_sha p | None \<Rightarrow> []), te_sha = []\<rparr>
      in record\<lparr>te_sha := sha256 (event_to_json record)\<rparr>)"

datatype journal_error = ValueError string | TransitionRejected "delivery_outcome option" string

definition journal_append :: "(string \<Rightarrow> string) \<Rightarrow> string \<Rightarrow> string \<Rightarrow> string \<Rightarrow> string \<Rightarrow> string \<Rightarrow> journal \<Rightarrow>
    (journal_error, transport_event) result \<times> journal" where
  "journal_append sha256 now event chat_key request_sha detail existing =
     (case verify_chain sha256 existing of
        Err e \<Rightarrow> (Err (ValueError e), existing)
      | Ok _ \<Rightarrow>
          let record = build_record sha256 now existing event chat_key request_sha detail
          in (Ok record, existing @ [record]))"

definition transition_append :: "(string \<Rightarrow> string) \<Rightarrow> string \<Rightarrow> string \<Rightarrow> string \<Rightarrow> string \<Rightarrow> string \<Rightarrow> journal \<Rightarrow>
    (journal_error, transport_event) result \<times> journal" where
  "transition_append sha256 now event chat_key request_sha detail existing =
     (case verify_chain sha256 existing of
        Err e \<Rightarrow> (Err (ValueError e), existing)
      | Ok _ \<Rightarrow>
          let latest = latest_outcome existing chat_key request_sha in
          case outcome_of event of
            None \<Rightarrow> (Err (ValueError (py_repr event @ '' is not a valid DeliveryOutcome'')), existing)
          | Some observed \<Rightarrow>
              if \<not> transition_allowed latest observed then (Err (TransitionRejected latest event), existing)
              else
                let record = build_record sha256 now existing event chat_key request_sha detail
                in (Ok record, existing @ [record]))"

definition replay :: "(string \<Rightarrow> string) \<Rightarrow> journal \<Rightarrow> (string, journal) result" where
  "replay sha256 records = bind_result (verify_chain sha256 records) (\<lambda>_. Ok records)"

text \<open>The projection: the number of events, and per chat the latest event and the number of events.\<close>

record journal_projection =
  jp_schema_version :: string
  jp_event_count :: nat
  jp_latest_event_per_chat :: "(string, string) hash_map"
  jp_event_count_per_chat :: "(string, nat) hash_map"

definition projection :: "(string \<Rightarrow> string) \<Rightarrow> journal \<Rightarrow> (string, journal_projection) result" where
  "projection sha256 records = bind_result (replay sha256 records) (\<lambda>events. Ok
     \<lparr>jp_schema_version = JOURNAL_SCHEMA, jp_event_count = length events,
      jp_latest_event_per_chat = foldl (\<lambda>m r. hm_put (te_chat_key r) (te_event r) m) [] events,
      jp_event_count_per_chat = foldl (\<lambda>m r. hm_modify (te_chat_key r) Suc (hm_or_insert (te_chat_key r) 0 m)) [] events\<rparr>)"

section \<open>Verified chains\<close>

definition chained_to :: "(string \<Rightarrow> string) \<Rightarrow> journal \<Rightarrow> transport_event \<Rightarrow> bool" where
  "chained_to sha256 js r \<longleftrightarrow> te_sha r \<noteq> [] \<and> te_seq r = length js + 1 \<and>
     te_prev_sha r = (if js = [] then [] else te_sha (last js)) \<and> sha256 (hashed_text r) = te_sha r"

lemma verify_records_snoc:
  "verify_records sha256 p k (js @ [r]) = Ok () \<longleftrightarrow> verify_records sha256 p k js = Ok () \<and>
     te_sha r \<noteq> [] \<and> te_seq r = k + length js + 1 \<and>
     te_prev_sha r = (if js = [] then (case p of Some q \<Rightarrow> te_sha q | None \<Rightarrow> []) else te_sha (last js)) \<and>
     sha256 (hashed_text r) = te_sha r"
  by (induction js arbitrary: p k) (auto split: option.splits if_splits)

lemma verify_chain_snoc:
  "verify_chain sha256 (js @ [r]) = Ok () \<longleftrightarrow> verify_chain sha256 js = Ok () \<and> chained_to sha256 js r"
  by (auto simp: verify_chain_def verify_records_snoc chained_to_def)

lemma verify_chain_Nil [simp]: "verify_chain sha256 [] = Ok ()"
  by (simp add: verify_chain_def)

lemma verify_seq: "verify_chain sha256 js = Ok () \<Longrightarrow> js \<noteq> [] \<Longrightarrow> te_seq (last js) = length js"
  by (cases js rule: rev_cases) (auto simp: verify_chain_snoc chained_to_def)

text \<open>What is relied on of the hash: its results are 64 hexadecimal digits.\<close>

definition hash_digits :: "(string \<Rightarrow> string) \<Rightarrow> bool" where
  "hash_digits sha256 \<longleftrightarrow> (\<forall>t. hex_string 64 (sha256 t))"

lemma hash_digitsD:
  assumes "hash_digits sha256"
  shows "sha256 t \<noteq> []" "json_escape (sha256 t) = sha256 t" "length (sha256 t) = 64" "list_all is_hex (sha256 t)"
  using assms by (auto simp: hash_digits_def hex_string_def intro: hex_escape)
    (metis list.size(3) zero_neq_numeral)

lemma build_record_chained:
  assumes "hash_digits sha256" "verify_chain sha256 js = Ok ()"
  shows "chained_to sha256 js (build_record sha256 now js event k h detail)"
  using assms verify_seq [OF assms(2)]
  by (auto simp: chained_to_def build_record_def Let_def hash_digitsD hashed_text_blank)

lemma transition_append_cases:
  assumes "transition_append sha256 now event k h detail js = (res, js')"
  shows "(\<exists>e. res = Err e \<and> js' = js) \<or>
    (\<exists>observed. outcome_of event = Some observed \<and> transition_allowed (latest_outcome js k h) observed \<and>
       verify_chain sha256 js = Ok () \<and> res = Ok (build_record sha256 now js event k h detail) \<and>
       js' = js @ [build_record sha256 now js event k h detail])"
  using assms by (auto simp: transition_append_def Let_def split: sum.splits option.splits if_splits)

lemma latest_outcome_snoc:
  "latest_outcome (js @ [r]) k h =
     (if te_chat_key r = k \<and> te_request_text_sha256 r = h \<and> outcome_of (te_event r) \<noteq> None
      then outcome_of (te_event r) else latest_outcome js k h)"
  by (auto simp: latest_outcome_def split: option.splits)

lemma latest_outcome_Nil [simp]: "latest_outcome [] k h = None"
  by (simp add: latest_outcome_def)

lemma build_record_fields [simp]:
  "te_chat_key (build_record sha256 now js event k h detail) = k"
  "te_request_text_sha256 (build_record sha256 now js event k h detail) = h"
  "te_event (build_record sha256 now js event k h detail) = event"
  by (simp_all add: build_record_def Let_def)

section \<open>The journal is tamper-evident\<close>

text \<open>C17. A journal is determined by the hash of its last record. If two journals that both pass the check of the
  chain end in the same hash, they are the same, record by record and field by field, unless the hash function
  collides on two of their texts: no record can be changed, removed, inserted or reordered without changing
  the last hash or breaking the chain.\<close>

theorem journal_tamper_evident:
  assumes "hash_digits sha256"
    and "verify_chain sha256 js = Ok ()" "verify_chain sha256 js' = Ok ()" "js \<noteq> []" "js' \<noteq> []"
    and "inj_on sha256 (hashed_text ` (set js \<union> set js'))"
    and "te_sha (last js) = te_sha (last js')"
  shows "js = js'"
  using assms(2-)
proof (induction js arbitrary: js' rule: rev_induct)
  case (snoc r js)
  obtain r' ks where js': "js' = ks @ [r']" using \<open>js' \<noteq> []\<close> by (cases js' rule: rev_cases) auto
  have verified: "verify_chain sha256 js = Ok ()" "verify_chain sha256 ks = Ok ()"
    and r: "chained_to sha256 js r" and r': "chained_to sha256 ks r'"
    using snoc.prems(1,2) by (auto simp: js' verify_chain_snoc)
  have sha: "te_sha r = te_sha r'" using snoc.prems(6) by (simp add: js')
  have "hashed_text r = hashed_text r'"
    using inj_onD [OF snoc.prems(5), of "hashed_text r" "hashed_text r'"] r r' sha
    by (simp add: js' chained_to_def)
  moreover have "json_escape (te_sha x) = te_sha x" if "chained_to sha256 xs x" for xs x
    using that hash_digitsD(2) [OF assms(1), of "hashed_text x"] by (simp add: chained_to_def)
  ultimately have "r\<lparr>te_sha := []\<rparr> = r'\<lparr>te_sha := []\<rparr>"
    using r r' by (simp add: hashed_text_blank event_to_json_inject)
  then have eq: "r = r'" using sha by (cases r; cases r') simp
  have "te_seq r = length js + 1" "te_seq r' = length ks + 1" using r r' by (simp_all add: chained_to_def)
  then have len: "length js = length ks" using eq by simp
  show ?case
  proof (cases "js = []")
    case True
    then show ?thesis using len eq js' by simp
  next
    case False
    then have "ks \<noteq> []" using len by auto
    have "te_sha (last js) = te_sha (last ks)" using r r' eq False \<open>ks \<noteq> []\<close> by (simp add: chained_to_def)
    moreover have "inj_on sha256 (hashed_text ` (set js \<union> set ks))"
      by (rule inj_on_subset [OF snoc.prems(5)]) (auto simp: js')
    ultimately have "js = ks" using snoc.IH [OF verified False \<open>ks \<noteq> []\<close>] by blast
    then show ?thesis using eq js' by simp
  qed
qed simp

text \<open>A stand-in for the hash in examples: the length of the text, in hexadecimal digits.\<close>

definition length_hash :: "string \<Rightarrow> string" where
  "length_hash t = replicate 60 (CHR ''0'') @ hex2 (length t div 256 mod 256) @ hex2 (length t mod 256)"

lemma length_hash_digits: "hash_digits length_hash"
proof -
  have "is_hex (hex_digit d)" if "d < 16" for d
    using that by (auto simp: is_hex_def hex_digit_def char_in_def)
  then have "list_all is_hex (hex2 (n mod 256))" for n
    by (simp add: hex2_def less_mult_imp_div_less)
  then show ?thesis
    by (simp add: hash_digits_def hex_string_def length_hash_def hex2_def is_hex_def char_in_def list_all_iff)
qed

lemma append_verified:
  assumes "hash_digits sha256" "verify_chain sha256 js = Ok ()"
  shows "verify_chain sha256 (js @ [build_record sha256 now js event k h detail]) = Ok ()"
  using assms build_record_chained [OF assms] by (simp add: verify_chain_snoc)

definition sample_journal :: journal where
  "sample_journal = [build_record length_hash ''t1'' [] ''LIVE_VALIDATED'' ''chat'' ''req'' ''first'']"

theorem journal_tamper_evident_witness:
  "sample_journal = snd (transition_append length_hash ''t1'' ''LIVE_VALIDATED'' ''chat'' ''req'' ''first'' [])"
proof (rule journal_tamper_evident [OF length_hash_digits])
  let ?js = "snd (transition_append length_hash ''t1'' ''LIVE_VALIDATED'' ''chat'' ''req'' ''first'' [])"
  have js: "?js = sample_journal"
    by (simp add: sample_journal_def transition_append_def outcome_of_def all_outcomes_def transition_allowed_def Let_def)
  show "verify_chain length_hash sample_journal = Ok ()"
    using append_verified [OF length_hash_digits, of "[]"] by (simp add: sample_journal_def)
  then show "verify_chain length_hash ?js = Ok ()" by (simp only: js)
  show "sample_journal \<noteq> []" "?js \<noteq> []" unfolding js by (simp_all add: sample_journal_def)
  show "inj_on length_hash (hashed_text ` (set sample_journal \<union> set ?js))"
    unfolding js by (simp add: sample_journal_def)
  show "te_sha (last sample_journal) = te_sha (last ?js)" unfolding js by (rule refl)
qed

section \<open>The journal follows the state machine\<close>

fun machine_path :: "delivery_outcome option \<Rightarrow> delivery_outcome list \<Rightarrow> bool" where
  "machine_path current [] \<longleftrightarrow> True"
| "machine_path current (x # xs) \<longleftrightarrow> transition_allowed current x \<and> machine_path (Some x) xs"

definition outcomes_for :: "journal \<Rightarrow> string \<Rightarrow> string \<Rightarrow> delivery_outcome list" where
  "outcomes_for js k h =
     List.map_filter (\<lambda>r. if te_chat_key r = k \<and> te_request_text_sha256 r = h then outcome_of (te_event r) else None) js"

lemma machine_path_snoc:
  "machine_path c (xs @ [x]) \<longleftrightarrow> machine_path c xs \<and> transition_allowed (if xs = [] then c else Some (last xs)) x"
  by (induction xs arbitrary: c) auto

lemma outcomes_for_snoc:
  "outcomes_for (js @ [r]) k h = outcomes_for js k h @
     (if te_chat_key r = k \<and> te_request_text_sha256 r = h then
        (case outcome_of (te_event r) of Some x \<Rightarrow> [x] | None \<Rightarrow> []) else [])"
  by (auto simp: outcomes_for_def map_filter_def split: option.split)

lemma latest_is_last:
  "latest_outcome js k h = (if outcomes_for js k h = [] then None else Some (last (outcomes_for js k h)))"
  by (induction js rule: rev_induct)
    (auto simp: latest_outcome_snoc outcomes_for_snoc outcomes_for_def map_filter_def split: option.splits)

text \<open>The journals that writers make: each appends through \<^verbatim>\<open>transition_append\<close>, whether or not it succeeds.\<close>

inductive journal_reachable :: "(string \<Rightarrow> string) \<Rightarrow> journal \<Rightarrow> bool" for sha256 where
  empty: "journal_reachable sha256 []"
| appended: "journal_reachable sha256 js \<Longrightarrow> transition_append sha256 now event k h detail js = (res, js') \<Longrightarrow>
    journal_reachable sha256 js'"

lemma journal_reachable_path:
  assumes "journal_reachable sha256 js"
  shows "machine_path None (outcomes_for js k h)"
  using assms
proof induction
  case empty
  then show ?case by (simp add: outcomes_for_def map_filter_def)
next
  case (appended js now event k' h' detail res js')
  from transition_append_cases [OF appended.hyps(2)] show ?case
    using appended.IH latest_is_last [of js k h]
    by (auto simp: outcomes_for_snoc machine_path_snoc split: option.splits)
qed

lemma journal_reachable_verified:
  assumes "journal_reachable sha256 js" "hash_digits sha256"
  shows "verify_chain sha256 js = Ok ()"
  using assms(1)
proof induction
  case (appended js now event k h detail res js')
  from transition_append_cases [OF appended.hyps(2)] appended.IH show ?case
    by (auto simp: append_verified [OF assms(2)])
qed simp

text \<open>C37. However the attempts of the writers are ordered, the journal they share always passes the check of its chain,
  the records of each request in each chat form a path of the delivery state machine from its start, and the
  state that a command rebuilds from the journal is the end of that path.\<close>

theorem journal_follows_machine:
  assumes "journal_reachable sha256 js" and "hash_digits sha256"
  shows "replay sha256 js = Ok js \<and> machine_path None (outcomes_for js k h) \<and>
    latest_outcome js k h = (if outcomes_for js k h = [] then None else Some (last (outcomes_for js k h)))"
  using journal_reachable_verified [OF assms] journal_reachable_path [OF assms(1)] latest_is_last
  by (simp add: replay_def)

theorem journal_follows_machine_witness:
  "replay length_hash sample_journal = Ok sample_journal \<and>
   machine_path None (outcomes_for sample_journal ''chat'' ''req'') \<and>
   latest_outcome sample_journal ''chat'' ''req'' =
     (if outcomes_for sample_journal ''chat'' ''req'' = [] then None
      else Some (last (outcomes_for sample_journal ''chat'' ''req'')))"
proof (rule journal_follows_machine [OF _ length_hash_digits])
  have "transition_append length_hash ''t1'' ''LIVE_VALIDATED'' ''chat'' ''req'' ''first'' [] =
      (Ok (build_record length_hash ''t1'' [] ''LIVE_VALIDATED'' ''chat'' ''req'' ''first''), sample_journal)"
    by (simp add: sample_journal_def transition_append_def outcome_of_def all_outcomes_def transition_allowed_def Let_def)
  then show "journal_reachable length_hash sample_journal" by (rule journal_reachable.appended [OF journal_reachable.empty])
qed

end
