(* ===== verification/Review_Protocol.thy ===== *)
theory Review_Protocol
  imports Review_Journal
begin

text \<open>
  The pure parts of the review loop around the journal: the canonical request text and its marker
  (scripts/agent-control/review\_loop/protocol.py), the receipt comment and its reconciliation
  (comment\_poster.py), the validation of the live pull request (live\_validation.py), the choice of the
  receipt among the JSON blocks of a reply (receipt\_parser.py), and the interfaces of the transport and of
  GitHub with the fakes of the repository (transport.py, github\_adapter.py).
\<close>

section \<open>Request text\<close>

definition LF :: char where "LF = char_of (10 :: nat)"
definition CR :: char where "CR = char_of (13 :: nat)"

definition canonicalize :: "string \<Rightarrow> string" where
  "canonicalize text = py_replace [CR] [LF] (py_replace [CR, LF] [LF] text)"

definition canonical_body :: "string \<Rightarrow> string" where
  "canonical_body request_text = py_strip (canonicalize request_text) @ [LF]"

definition request_sha256 :: "(string \<Rightarrow> string) \<Rightarrow> string \<Rightarrow> string" where
  "request_sha256 sha256 request_text = sha256 (canonical_body request_text)"

definition MARKER_PREFIX :: string where "MARKER_PREFIX = ''Review-Request-SHA256:''"

definition marker_line :: "string \<Rightarrow> string" where
  "marker_line sha = MARKER_PREFIX @ '' '' @ sha"

definition build_message :: "(string \<Rightarrow> string) \<Rightarrow> string \<Rightarrow> string \<times> string" where
  "build_message sha256 request_text =
     (let body = canonical_body request_text; sha = request_sha256 sha256 request_text
      in (marker_line sha @ [LF, LF] @ body, sha))"

text \<open>\<^verbatim>\<open>MARKER_RE\<close> at one position, and the first match in a text.\<close>

definition marker_at :: "string \<Rightarrow> string option" where
  "marker_at s =
     (case strip_prefix MARKER_PREFIX s of
        None \<Rightarrow> None
      | Some rest \<Rightarrow> let d = take 64 (dropWhile py_isspace rest) in if hex_string 64 d then Some d else None)"

fun extract_marker :: "string \<Rightarrow> string option" where
  "extract_marker [] = None"
| "extract_marker (c # cs) = (case marker_at (c # cs) of Some d \<Rightarrow> Some d | None \<Rightarrow> extract_marker cs)"

definition assert_canonical :: "string \<Rightarrow> (string, unit) result" where
  "assert_canonical text =
     (if text \<noteq> canonicalize text then Err ''request text is not canonical (NFC/LF/no-BOM)'' else Ok ())"

section \<open>Receipt comments\<close>

definition COMMENT_MARKER :: string where "COMMENT_MARKER = ''independent-review-receipt''"

definition comment_marker_line :: "string \<Rightarrow> string \<Rightarrow> string" where
  "comment_marker_line request_sha receipt_sha =
     ''<!-- '' @ COMMENT_MARKER @ '':'' @ request_sha @ '':'' @ receipt_sha @ '' -->''"

definition receipt_sha256 :: "(string \<Rightarrow> string) \<Rightarrow> review_receipt \<Rightarrow> string" where
  "receipt_sha256 sha256 r = sha256 (receipt_to_json r)"

definition backquote :: char where "backquote = char_of (96 :: nat)"

definition build_comment_body :: "(string \<Rightarrow> string) \<Rightarrow> review_request_envelope \<Rightarrow> review_receipt \<Rightarrow> string" where
  "build_comment_body sha256 e r =
     py_join [LF]
       [''**Exact-Head Independent Review Receipt**'', [],
        ''Reviewed head: '' @ [backquote] @ rv_head_sha r @ [backquote],
        ''Base: '' @ [backquote] @ rv_base_sha r @ [backquote],
        ''PR: '' @ show_int (rv_pr_number r),
        ''Verdict: **'' @ rv_verdict r @ ''**'' @
          (if rv_deferred_notes r \<noteq> [] then '' (deferred notes: '' @ show_nat (length (rv_deferred_notes r)) @ '')'' else []),
        [], replicate 3 backquote @ ''json'', receipt_to_json r, replicate 3 backquote, [],
        comment_marker_line (env_request_text_sha256 e) (receipt_sha256 sha256 r)]"

text \<open>\<^verbatim>\<open>MARKER_RE\<close> of the comments at one position: the two hashes and the text after the match.\<close>

definition comment_marker_at :: "string \<Rightarrow> ((string \<times> string) \<times> string) option" where
  "comment_marker_at s =
     Option.bind (strip_prefix ''<!--'' s) (\<lambda>s1.
     Option.bind (strip_prefix (COMMENT_MARKER @ '':'') (dropWhile py_isspace s1)) (\<lambda>s2.
     if \<not> hex_string 64 (take 64 s2) then None
     else Option.bind (strip_prefix '':'' (drop 64 s2)) (\<lambda>s3.
     if \<not> hex_string 64 (take 64 s3) then None
     else Option.bind (strip_prefix ''-->'' (dropWhile py_isspace (drop 64 s3))) (\<lambda>rest.
     Some ((take 64 s2, take 64 s3), rest)))))"

lemma strip_prefix_length: "strip_prefix p s = Some t \<Longrightarrow> length s = length p + length t"
  by (induction p s rule: strip_prefix.induct) (auto split: if_splits)

lemma comment_marker_at_shorter:
  assumes "comment_marker_at s = Some (m, rest)"
  shows "length rest < length s"
proof -
  obtain s1 s2 s3 where "strip_prefix ''<!--'' s = Some s1" "strip_prefix (COMMENT_MARKER @ '':'') (dropWhile py_isspace s1) = Some s2"
    "strip_prefix '':'' (drop 64 s2) = Some s3" "strip_prefix ''-->'' (dropWhile py_isspace (drop 64 s3)) = Some rest"
    using assms by (auto simp: comment_marker_at_def bind_eq_Some_conv split: if_splits)
  from this [THEN strip_prefix_length] show ?thesis
    using length_dropWhile_le [of py_isspace s1] length_dropWhile_le [of py_isspace "drop 64 s3"] by simp
qed

text \<open>\<^verbatim>\<open>MARKER_RE.finditer\<close>: the hashes and the whole of each match.\<close>

function find_markers :: "string \<Rightarrow> ((string \<times> string) \<times> string) list" where
  "find_markers [] = []"
| "find_markers (c # cs) =
     (case comment_marker_at (c # cs) of
        Some (m, rest) \<Rightarrow> (m, take (length (c # cs) - length rest) (c # cs)) # find_markers rest
      | None \<Rightarrow> find_markers cs)"
  by pat_completeness auto
termination by (relation "measure length") (auto dest: comment_marker_at_shorter)

text \<open>
  The markers of one comment: a different receipt for the request is a conflict; otherwise the number of
  identical markers, and the text with all its markers removed.
\<close>

fun scan_markers :: "string \<Rightarrow> string \<Rightarrow> ((string \<times> string) \<times> string) list \<Rightarrow> nat \<Rightarrow> string \<Rightarrow>
    (string, nat \<times> string) result" where
  "scan_markers request_sha receipt_sha [] identical scrubbed = Ok (identical, scrubbed)"
| "scan_markers request_sha receipt_sha (((found_request, found_receipt), whole) # ms) identical scrubbed =
     (if found_request = request_sha \<and> found_receipt \<noteq> receipt_sha
      then Err (''same request '' @ take 12 request_sha @ ''... but different receipt '' @ take 12 found_receipt @
             ''... already posted'')
      else scan_markers request_sha receipt_sha ms
             (if found_request = request_sha then identical + 1 else identical) (py_replace_first whole [] scrubbed))"

datatype comment_action = Skip | Post | Conflict | Unknown

fun scan_comments :: "string \<Rightarrow> string \<Rightarrow> string list \<Rightarrow> nat \<Rightarrow> (string, nat) result" where
  "scan_comments request_sha receipt_sha [] identical = Ok identical"
| "scan_comments request_sha receipt_sha (text # bodies) identical =
     bind_result (scan_markers request_sha receipt_sha (find_markers text) identical text) (\<lambda>(identical', scrubbed).
       if py_contains COMMENT_MARKER scrubbed then Err ''malformed or partial review-receipt marker present''
       else scan_comments request_sha receipt_sha bodies identical')"

definition reconcile_comments :: "string list option \<Rightarrow> string \<Rightarrow> string \<Rightarrow> comment_action \<times> string list" where
  "reconcile_comments existing_comments request_sha receipt_sha =
     (case existing_comments of
        None \<Rightarrow> (Unknown, [''existing comments unavailable''])
      | Some bodies \<Rightarrow>
          (case scan_comments request_sha receipt_sha bodies 0 of
             Err reason \<Rightarrow> (Conflict, [reason])
           | Ok identical \<Rightarrow>
               if identical \<noteq> 0 then (Skip, [''identical receipt already posted ('' @ take 12 request_sha @ ''...)''])
               else (Post, [])))"

section \<open>The live pull request\<close>

record live_facts =
  lf_repository :: string
  lf_pr_number :: int
  lf_state :: string
  lf_is_draft :: bool
  lf_merged :: bool
  lf_base_sha :: string
  lf_head_sha :: string
  lf_changed_files :: "string list"

definition validate_pr_live_state :: "review_request_envelope \<Rightarrow> live_facts \<Rightarrow> string list" where
  "validate_pr_live_state e live =
     error_if (lf_repository live \<noteq> env_repository e)
       (''observed repository mismatch: '' @ lf_repository live @ '' != '' @ env_repository e) @
     error_if (lf_pr_number live \<noteq> env_pr_number e)
       (''observed PR mismatch: '' @ show_int (lf_pr_number live) @ '' != '' @ show_int (env_pr_number e)) @
     error_if (lf_state live \<noteq> ''OPEN'') (''PR is not OPEN: '' @ lf_state live) @
     error_if (lf_merged live) ''PR is merged'' @
     error_if (\<not> lf_is_draft live) ''PR is not a Draft'' @
     error_if (lf_base_sha live \<noteq> env_base_sha e)
       (''base drifted '' @ lf_base_sha live @ '' != '' @ env_base_sha e) @
     error_if (lf_head_sha live \<noteq> env_head_sha e)
       (''head drifted '' @ lf_head_sha live @ '' != '' @ env_head_sha e)"

definition validate_diff_scope :: "string list \<Rightarrow> string list \<Rightarrow> string list" where
  "validate_diff_scope changed_files allowed_paths =
     error_if (length changed_files < 1) ''diff has fewer than 1 changed files'' @
     concat (map (\<lambda>path. error_if (path \<notin> set allowed_paths) (''changed file outside allowed paths: '' @ path)) changed_files)"

section \<open>Choosing the receipt\<close>

text \<open>
  The fenced blocks of a reply are an argument, each decoded by \<^verbatim>\<open>json.loads\<close> or refused with its message; so
  are \<^verbatim>\<open>repr\<close>, \<^verbatim>\<open>str\<close> and \<^verbatim>\<open>int\<close> of a JSON value. \<^verbatim>\<open>int\<close> raises where it is \<open>None\<close>.
\<close>

definition coerce_string_list :: "json option \<Rightarrow> string \<Rightarrow> (string, string list) result" where
  "coerce_string_list v field =
     (case v of
        Some (JArray items) \<Rightarrow>
          (if list_all (\<lambda>i. as_str i \<noteq> None) items then Ok (List.map_filter as_str items)
           else Err (field @ '' contains a non-string''))
      | _ \<Rightarrow> Err (field @ '' is not a list''))"

definition block_candidate :: "(json option \<Rightarrow> string) \<Rightarrow> string + json \<Rightarrow> (string, json) result" where
  "block_candidate repr block =
     (case block of
        Inl exc \<Rightarrow> Err (''JSON block unparseable: '' @ exc)
      | Inr v \<Rightarrow>
          if as_object v = None then Err ''JSON block is not an object''
          else if json_get v ''schema_version'' \<noteq> Some (JString RECEIPT_SCHEMA) 
          then Err (''receipt schema_version mismatch: '' @ repr (json_get v ''schema_version''))
          else Ok v)"

text \<open>\<open>Err\<close> is \<^verbatim>\<open>int\<close> raising; otherwise the receipt or the reason why there is none.\<close>

definition receipt_of :: "(json \<Rightarrow> string) \<Rightarrow> (json \<Rightarrow> int option) \<Rightarrow> json \<Rightarrow> (string, string list + review_receipt) result" where
  "receipt_of py_str py_int v =
     (let text = (\<lambda>k. case json_get v k of Some x \<Rightarrow> py_str x | None \<Rightarrow> []) in
      case coerce_string_list (json_get v ''blockers'') ''blockers'' of
        Err e \<Rightarrow> Ok (Inl [e])
      | Ok blockers \<Rightarrow>
      (case coerce_string_list (json_get v ''unresolved_objections'') ''unresolved_objections'' of
        Err e \<Rightarrow> Ok (Inl [e])
      | Ok objections \<Rightarrow>
      (case coerce_string_list (case json_get v ''deferred_notes'' of None \<Rightarrow> Some (JArray []) | x \<Rightarrow> x) ''deferred_notes'' of
        Err e \<Rightarrow> Ok (Inl [e])
      | Ok deferred \<Rightarrow>
      (case (case json_get v ''pr_number'' of None \<Rightarrow> Some 0 | Some x \<Rightarrow> py_int x) of
        None \<Rightarrow> Err ''invalid literal for int()''
      | Some pr \<Rightarrow>
          Ok (Inr \<lparr>rv_schema_version = text ''schema_version'', rv_verdict = text ''verdict'', rv_repository = text ''repository'',
              rv_pr_number = pr, rv_base_sha = text ''base_sha'', rv_head_sha = text ''head_sha'',
              rv_diff_scope = text ''diff_scope'', rv_blockers = blockers, rv_unresolved_objections = objections,
              rv_reviewer_session_id = text ''reviewer_session_id'',
              rv_implementation_session_id = text ''implementation_session_id'', rv_transport = text ''transport'',
              rv_deferred_notes = deferred\<rparr>)))))"

definition parse_receipt :: "(json option \<Rightarrow> string) \<Rightarrow> (json \<Rightarrow> string) \<Rightarrow> (json \<Rightarrow> int option) \<Rightarrow> (string + json) list \<Rightarrow>
    (string, review_receipt option \<times> string list) result" where
  "parse_receipt repr py_str py_int blocks =
     (if blocks = [] then Ok (None, [''no JSON receipt block found in reviewer output''])
      else
        let read = map (block_candidate repr) blocks;
            errors = List.map_filter (\<lambda>r. case r of Inl e \<Rightarrow> Some e | Inr _ \<Rightarrow> None) read;
            candidates = List.map_filter (\<lambda>r. case r of Inl _ \<Rightarrow> None | Inr v \<Rightarrow> Some v) read
        in case candidates of
             [] \<Rightarrow> Ok (None, errors)
           | [v] \<Rightarrow>
               bind_result (receipt_of py_str py_int v) (\<lambda>read.
                 case read of
                   Inl es \<Rightarrow> Ok (None, es)
                 | Inr receipt \<Rightarrow>
                     if receipt_validate receipt \<noteq> [] then Ok (None, receipt_validate receipt) else Ok (Some receipt, []))
           | _ \<Rightarrow> Ok (None, [''expected exactly one receipt object, found '' @ show_nat (length candidates)]))"

section \<open>Transport and GitHub\<close>

text \<open>
  What inspecting a thread can answer; \<open>None\<close> stands for an answer outside the closed set. A transport is
  bound to one chat. Inspecting and sending are given the thread as it is: the texts of the user messages,
  the newest last. Sending returns the thread after the call and, when it raised, the name and the text of
  the exception.
\<close>

datatype thread_inspection = EMPTY_THREAD | MESSAGE string | UNAVAILABLE

record transport =
  read_auth_state :: bool
  inspect_last_user_message :: "string list \<Rightarrow> thread_inspection option"
  send_user_message :: "string \<Rightarrow> string list \<Rightarrow> (string \<times> string) option \<times> string list"
  read_latest_assistant_message :: "string option"

text \<open>
  What the documentation of the interface promises: an empty thread and the newest message are reported only
  when they are so, a send that returns has delivered exactly one message, and one that raises at most one.
\<close>

definition transport_ok :: "transport \<Rightarrow> bool" where
  "transport_ok tr \<longleftrightarrow>
     (\<forall>th. inspect_last_user_message tr th = Some EMPTY_THREAD \<longrightarrow> th = []) \<and>
     (\<forall>th m. inspect_last_user_message tr th = Some (MESSAGE m) \<longrightarrow> th \<noteq> [] \<and> last th = m) \<and>
     (\<forall>m th. case send_user_message tr m th of
        (None, th') \<Rightarrow> th' = th @ [m]
      | (Some exc, th') \<Rightarrow> th' = th \<or> th' = th @ [m])"

text \<open>The fake transport of the repository, over the thread it is given.\<close>

definition fake_transport :: "bool \<Rightarrow> bool \<Rightarrow> (string \<times> string) option \<Rightarrow> string list \<Rightarrow> transport" where
  "fake_transport authed unavailable send_failure assistant_replies =
     \<lparr>read_auth_state = authed,
      inspect_last_user_message = (\<lambda>th.
        if unavailable then Some UNAVAILABLE else if th = [] then Some EMPTY_THREAD else Some (MESSAGE (last th))),
      send_user_message = (\<lambda>m th. case send_failure of Some exc \<Rightarrow> (Some exc, th) | None \<Rightarrow> (None, th @ [m])),
      read_latest_assistant_message = (if assistant_replies = [] then None else Some (last assistant_replies))\<rparr>"

lemma fake_transport_ok: "transport_ok (fake_transport authed unavailable send_failure assistant_replies)"
  by (auto simp: transport_ok_def fake_transport_def split: if_splits option.splits)

text \<open>
  GitHub: the facts of the pull request, the comments and the creation of one. \<open>Inl\<close> is a call that raised.
\<close>

record live_github =
  fetch_pr :: "string + live_facts option"
  list_comments :: "string list \<Rightarrow> string + string list option"
  create_comment :: "string \<Rightarrow> string list \<Rightarrow> ((string \<times> string) + string) \<times> string list"

definition github_ok :: "live_github \<Rightarrow> bool" where
  "github_ok gh \<longleftrightarrow>
     (\<forall>cs bodies. list_comments gh cs = Inr (Some bodies) \<longrightarrow> bodies = cs) \<and>
     (\<forall>b cs. case create_comment gh b cs of
        (Inr url, cs') \<Rightarrow> cs' = cs @ [b]
      | (Inl exc, cs') \<Rightarrow> cs' = cs \<or> cs' = cs @ [b])"

definition fake_github :: "live_facts \<Rightarrow> nat \<Rightarrow> bool \<Rightarrow> bool \<Rightarrow> live_github" where
  "fake_github facts posted fail_next_fetch fail_next_post =
     \<lparr>fetch_pr = (if fail_next_fetch then Inl ''live GitHub unavailable'' else Inr (Some facts)),
      list_comments = (\<lambda>cs. Inr (Some cs)),
      create_comment = (\<lambda>b cs.
        if fail_next_post then (Inl (''RuntimeError'', ''comment POST outcome unknown''), cs)
        else (Inr (''https://fake/comments/'' @ show_nat (posted + 1)), cs @ [b]))\<rparr>"

lemma fake_github_ok: "github_ok (fake_github facts posted fail_next_fetch fail_next_post)"
  by (simp add: github_ok_def fake_github_def)

section \<open>Lemmas\<close>

lemma strip_prefix_append [simp]: "strip_prefix p (p @ s) = Some s"
  by (induction p) simp_all

lemma hex_not_space: "is_hex c \<Longrightarrow> \<not> py_isspace c"
  by (auto simp: is_hex_def py_isspace_def char_in_def)

lemma dropWhile_hex: "list_all is_hex h \<Longrightarrow> h \<noteq> [] \<Longrightarrow> dropWhile py_isspace (h @ s) = h @ s"
  by (cases h) (auto simp: hex_not_space)

lemma extract_marker_message:
  assumes "hash_digits sha256"
  shows "extract_marker (fst (build_message sha256 t)) = Some (request_sha256 sha256 t)"
proof -
  define h where "h = request_sha256 sha256 t"
  have h: "length h = 64" "list_all is_hex h" "h \<noteq> []"
    using hash_digitsD [OF assms] by (auto simp: h_def request_sha256_def)
  define tail where "tail = CHR '' '' # h @ [LF, LF] @ canonical_body t"
  have msg: "fst (build_message sha256 t) = MARKER_PREFIX @ tail"
    by (simp add: build_message_def Let_def marker_line_def h_def tail_def)
  have "dropWhile py_isspace tail = h @ [LF, LF] @ canonical_body t"
    using dropWhile_hex [OF h(2,3)] by (simp add: tail_def py_isspace_def char_in_def)
  then have "marker_at (MARKER_PREFIX @ tail) = Some h"
    using h by (simp add: marker_at_def hex_string_def)
  then show ?thesis unfolding msg h_def by (simp add: MARKER_PREFIX_def)
qed

text \<open>Canonical text has no carriage return, and making it canonical again changes nothing.\<close>

lemma replace_removes: "c \<notin> set new \<Longrightarrow> c \<notin> set (py_replace [c] new s)"
  by (induction "[c]" new s rule: py_replace.induct) auto

lemma replace_absent: "c \<notin> set s \<Longrightarrow> py_replace (c # old) new s = s"
  using py_replace_without [of c s old new "[]"] by simp

lemma strip_subset: "set (py_strip s) \<subseteq> set s"
  unfolding py_strip_def using set_dropWhileD by (metis set_rev subsetI)

lemma canonicalize_id: "CR \<notin> set s \<Longrightarrow> canonicalize s = s"
  by (simp add: canonicalize_def replace_absent)

lemma strip_ends:
  assumes "py_strip s \<noteq> []"
  shows "\<not> py_isspace (hd (py_strip s))" "\<not> py_isspace (last (py_strip s))"
proof -
  let ?t = "dropWhile py_isspace s"
  have t: "?t \<noteq> []"
  proof
    assume "?t = []"
    with assms show False unfolding py_strip_def by (simp only: rev.simps dropWhile.simps)
  qed
  show "\<not> py_isspace (last (py_strip s))"
    using assms hd_dropWhile [of py_isspace "rev ?t"] by (simp add: py_strip_def last_rev)
  have "hd (py_strip s) = hd ?t"
    using assms unfolding py_strip_def
    by (metis append_is_Nil_conv hd_append2 rev_append rev_rev_ident takeWhile_dropWhile_id)
  then show "\<not> py_isspace (hd (py_strip s))" using hd_dropWhile [OF t] by simp
qed

lemma LF_space [simp]: "py_isspace LF"
  by (simp add: LF_def py_isspace_def char_in_def)

lemma strip_line: "py_strip (py_strip s @ [LF]) = py_strip s"
proof (cases "py_strip s = []")
  case True
  show ?thesis unfolding True by (simp add: py_strip_def)
next
  case False
  have "dropWhile py_isspace (py_strip s @ [LF]) = py_strip s @ [LF]"
    using strip_ends(1) [OF False] False by (simp add: dropWhile_eq_self_iff)
  moreover have "dropWhile py_isspace (rev (py_strip s)) = rev (py_strip s)"
    using strip_ends(2) [OF False] by (simp add: dropWhile_eq_self_iff hd_rev)
  ultimately show ?thesis by (simp add: py_strip_def [of "py_strip s @ [LF]"])
qed

lemma canonical_body_idem: "canonical_body (canonical_body t) = canonical_body t"
proof -
  have "CR \<notin> set (canonicalize t)" unfolding canonicalize_def by (rule replace_removes) (simp add: LF_def CR_def)
  then have "CR \<notin> set (canonical_body t)"
    using strip_subset [of "canonicalize t"] by (auto simp: canonical_body_def LF_def CR_def)
  then have "canonicalize (canonical_body t) = canonical_body t" by (rule canonicalize_id)
  then show ?thesis by (simp add: canonical_body_def [of "canonical_body t"]) (simp add: canonical_body_def strip_line)
qed

section \<open>Markers in comments\<close>

lemma strip_prefix_SomeD: "strip_prefix p s = Some t \<Longrightarrow> s = p @ t"
  by (induction p s rule: strip_prefix.induct) (auto split: if_splits)

lemma space_split: "\<exists>w. s = w @ dropWhile py_isspace s \<and> list_all py_isspace w"
  by (rule exI [of _ "takeWhile py_isspace s"]) (auto simp: list_all_iff dest: set_takeWhileD)

lemma no_angle: "hex_string k h \<Longrightarrow> CHR ''<'' \<notin> set h" "list_all py_isspace w \<Longrightarrow> CHR ''<'' \<notin> set w"
proof -
  have "\<not> is_hex (CHR ''<'')" "\<not> py_isspace (CHR ''<'')" by (simp_all add: is_hex_def py_isspace_def char_in_def)
  then show "hex_string k h \<Longrightarrow> CHR ''<'' \<notin> set h" "list_all py_isspace w \<Longrightarrow> CHR ''<'' \<notin> set w"
    by (auto simp: hex_string_def list_all_iff)
qed

lemma comment_marker_at_shape:
  assumes "comment_marker_at s = Some (m, rest)"
  shows "\<exists>w. s = CHR ''<'' # w @ rest \<and> CHR ''<'' \<notin> set w"
proof -
  obtain s1 s2 s3 where at: "strip_prefix ''<!--'' s = Some s1" "strip_prefix (COMMENT_MARKER @ '':'') (dropWhile py_isspace s1) = Some s2"
    "strip_prefix '':'' (drop 64 s2) = Some s3" "strip_prefix ''-->'' (dropWhile py_isspace (drop 64 s3)) = Some rest"
    "hex_string 64 (take 64 s2)" "hex_string 64 (take 64 s3)"
    using assms by (auto simp: comment_marker_at_def bind_eq_Some_conv split: if_splits)
  obtain w1 where w1: "s1 = w1 @ dropWhile py_isspace s1" "list_all py_isspace w1" using space_split by blast
  obtain w2 where w2: "drop 64 s3 = w2 @ dropWhile py_isspace (drop 64 s3)" "list_all py_isspace w2" using space_split by blast
  note parts = at(1-4) [THEN strip_prefix_SomeD]
  have "s = CHR ''<'' # (''!--'' @ w1 @ COMMENT_MARKER @ '':'' @ take 64 s2 @ '':'' @ take 64 s3 @ w2 @ ''-->'') @ rest"
    using parts w1(1) w2(1) append_take_drop_id [of 64 s2] append_take_drop_id [of 64 s3] by (metis append.assoc append_Cons append_Nil)
  moreover have "CHR ''<'' \<notin> set (''!--'' @ w1 @ COMMENT_MARKER @ '':'' @ take 64 s2 @ '':'' @ take 64 s3 @ w2 @ ''-->'')"
    using no_angle(1) [OF at(5)] no_angle(1) [OF at(6)] no_angle(2) [OF w1(2)] no_angle(2) [OF w2(2)]
    by (simp add: COMMENT_MARKER_def)
  ultimately show ?thesis by blast
qed

lemma comment_marker_at_line:
  assumes "hex_string 64 q" "hex_string 64 p"
  shows "comment_marker_at (comment_marker_line q p @ rest) = Some ((q, p), rest)"
proof -
  have line: "comment_marker_line q p @ rest = ''<!--'' @ '' '' @ (COMMENT_MARKER @ '':'') @ q @ '':'' @ p @ '' -->'' @ rest"
    by (simp add: comment_marker_line_def)
  have sp: "py_isspace (CHR '' '')" "\<not> py_isspace (CHR ''i'')" "\<not> py_isspace (CHR ''-'')"
    by (simp_all add: py_isspace_def char_in_def)
  have "dropWhile py_isspace ('' '' @ (COMMENT_MARKER @ '':'') @ t) = (COMMENT_MARKER @ '':'') @ t" for t
    by (simp add: sp COMMENT_MARKER_def)
  moreover have "dropWhile py_isspace ('' -->'' @ rest) = ''-->'' @ rest" by (simp add: sp)
  moreover have "strip_prefix '':'' ('':'' @ t) = Some t" "strip_prefix ''-->'' (''-->'' @ t) = Some t"
    "strip_prefix ''<!--'' (''<!--'' @ t) = Some t" for t by (simp_all only: strip_prefix_append)
  moreover have "take 64 (q @ t) = q" "drop 64 (q @ t) = t" "take 64 (p @ t) = p" "drop 64 (p @ t) = t" for t
    using assms by (simp_all add: hex_string_def)
  ultimately show ?thesis unfolding line comment_marker_at_def
    using assms by (simp only: strip_prefix_append Option.bind.simps if_False not_True_eq_False)
qed

lemma find_markers_from:
  assumes here: "comment_marker_at L = Some (m, tail)" and L: "L = CHR ''<'' # L'"
  shows "m \<in> fst ` set (find_markers (pre @ L))"
proof (induction pre rule: length_induct)
  case (1 pre)
  show ?case
  proof (cases pre)
    case Nil
    then show ?thesis using here by (simp add: L)
  next
    case (Cons c cs)
    show ?thesis
    proof (cases "comment_marker_at (pre @ L)")
      case None
      then show ?thesis using 1 [rule_format, of cs] Cons by simp
    next
      case (Some r)
      obtain m' rest where r: "r = (m', rest)" by (cases r)
      from comment_marker_at_shape [OF Some [unfolded r]] obtain w where
        w: "pre @ L = (CHR ''<'' # w) @ rest" "CHR ''<'' \<notin> set w" by auto
      have "\<exists>pre'. rest = pre' @ L \<and> length pre' < length pre"
      proof -
        obtain us where "pre = (CHR ''<'' # w) @ us \<and> us @ L = rest \<or> pre @ us = CHR ''<'' # w \<and> L = us @ rest"
          using w(1) by (auto simp: append_eq_append_conv2 simp del: append_Cons)
        then show ?thesis
        proof
          assume "pre = (CHR ''<'' # w) @ us \<and> us @ L = rest"
          then show ?thesis by (intro exI [of _ us]) auto
        next
          assume us: "pre @ us = CHR ''<'' # w \<and> L = us @ rest"
          have "us = []"
          proof (rule ccontr)
            assume "us \<noteq> []"
            then have "CHR ''<'' \<in> set us" using us L by (cases us) auto
            then show False using us Cons w(2) by auto
          qed
          then show ?thesis using us Cons by (intro exI [of _ "[]"]) auto
        qed
      qed
      then obtain pre' where "rest = pre' @ L" "length pre' < length pre" by blast
      then show ?thesis using 1 [rule_format, of pre'] Some r Cons by simp
    qed
  qed
qed

lemma find_markers_line:
  assumes "hex_string 64 q" "hex_string 64 p"
  shows "(q, p) \<in> fst ` set (find_markers (pre @ comment_marker_line q p))"
proof (rule find_markers_from)
  show "comment_marker_at (comment_marker_line q p) = Some ((q, p), [])"
    using comment_marker_at_line [OF assms, of "[]"] by simp
  show "comment_marker_line q p = CHR ''<'' # tl (comment_marker_line q p)" by (simp add: comment_marker_line_def)
qed

lemma py_join_snoc: "py_join sep (xs @ [x]) = (if xs = [] then x else py_join sep xs @ sep @ x)"
  by (induction sep xs rule: py_join.induct) auto

lemma py_join_last: "xs \<noteq> [] \<Longrightarrow> last xs = x \<Longrightarrow> \<exists>pre. py_join sep xs = pre @ x"
  by (cases xs rule: rev_cases) (auto simp: py_join_snoc)

lemma comment_ends:
  "\<exists>pre. build_comment_body sha256 e r = pre @ comment_marker_line (env_request_text_sha256 e) (receipt_sha256 sha256 r)"
  unfolding build_comment_body_def by (rule py_join_last) simp_all

text \<open>Posting is decided only when no marker of the request is in any comment.\<close>

lemma scan_markers_count:
  "scan_markers q p ms n s = Ok (n', s') \<Longrightarrow> n' = n + length (filter (\<lambda>m. fst (fst m) = q) ms)"
  by (induction q p ms n s rule: scan_markers.induct) (auto split: if_splits)

lemma scan_comments_none:
  "scan_comments q p bodies n = Ok n' \<Longrightarrow>
     n \<le> n' \<and> (n' = n \<longrightarrow> (\<forall>b \<in> set bodies. \<forall>m \<in> set (find_markers b). fst (fst m) \<noteq> q))"
proof (induction q p bodies n rule: scan_comments.induct)
  case (2 q p body bodies n)
  from "2.prems" obtain k s where k: "scan_markers q p (find_markers body) n body = Ok (k, s)" "scan_comments q p bodies k = Ok n'"
    "\<not> py_contains COMMENT_MARKER s"
    by (cases "scan_markers q p (find_markers body) n body") (auto split: if_splits)
  have rest: "k \<le> n' \<and> (n' = k \<longrightarrow> (\<forall>b \<in> set bodies. \<forall>m \<in> set (find_markers b). fst (fst m) \<noteq> q))"
    by (rule "2.IH" [OF k(3,2)])
  have k_eq: "k = n + length (filter (\<lambda>m. fst (fst m) = q) (find_markers body))" by (rule scan_markers_count [OF k(1)])
  have "(\<forall>b \<in> set (body # bodies). \<forall>m \<in> set (find_markers b). fst (fst m) \<noteq> q)" if "n' = n"
  proof -
    have "k \<le> n'" using rest by blast
    then have "k = n'" and len: "length (filter (\<lambda>m. fst (fst m) = q) (find_markers body)) = 0" using that k_eq by linarith+
    then have "\<forall>b \<in> set bodies. \<forall>m \<in> set (find_markers b). fst (fst m) \<noteq> q" using rest by blast
    moreover have "\<forall>m \<in> set (find_markers body). fst (fst m) \<noteq> q" using len unfolding length_0_conv filter_empty_conv .
    ultimately show ?thesis by simp
  qed
  moreover have "n \<le> n'" using rest k_eq by linarith
  ultimately show ?case by blast
qed auto

lemma post_decided:
  assumes "reconcile_comments (Some bodies) q p = (Post, reasons)" "b \<in> set bodies"
  shows "q \<notin> fst ` fst ` set (find_markers b)"
proof -
  have "scan_comments q p bodies 0 = Ok 0"
    using assms(1) by (auto simp: reconcile_comments_def split: sum.splits if_splits)
  from scan_comments_none [OF this] assms(2) show ?thesis by force
qed

end
