(* ===== verification/Review_Cli.thy ===== *)
theory Review_Cli
  imports Review_Protocol
begin

text \<open>
  The commands of the review loop (scripts/agent-control/review\_loop/cli.py) over a world that holds the
  journal, the threads of the chats and the comments of the pull requests. A command runs until it returns or
  exits; printing is left out, so that an exit is its code. A process can be interrupted before any of its
  effects: the world says how many effects it has left. The per-chat lock makes the commands on a chat run
  one after the other, and a command takes its chat's transport.
\<close>

section \<open>World and commands\<close>

record world =
  w_journal :: journal
  w_threads :: "string \<Rightarrow> string list"
  w_comments :: "string \<times> int \<Rightarrow> string list"
  w_effects_left :: nat

datatype exit = SystemExit nat | Uncaught string | Interrupted

type_synonym 'a cmd = "world \<Rightarrow> (exit, 'a) result \<times> world"

definition ret :: "'a \<Rightarrow> 'a cmd" where
  "ret a w = (Ok a, w)"

definition sys_exit :: "nat \<Rightarrow> 'a cmd" where
  "sys_exit code w = (Err (SystemExit code), w)"

definition raise_exn :: "string \<Rightarrow> 'a cmd" where
  "raise_exn e w = (Err (Uncaught e), w)"

definition and_then :: "'a cmd \<Rightarrow> ('a \<Rightarrow> 'b cmd) \<Rightarrow> 'b cmd" where
  "and_then m f w = (case m w of (Err e, w') \<Rightarrow> (Err e, w') | (Ok a, w') \<Rightarrow> f a w')"

text \<open>The hash and the clock; the clock gives the time of the n-th record.\<close>

record review_setup =
  rs_sha256 :: "string \<Rightarrow> string"
  rs_clock :: "nat \<Rightarrow> string"

definition record_outcome :: "review_setup \<Rightarrow> string \<Rightarrow> string \<Rightarrow> delivery_outcome \<Rightarrow> string \<Rightarrow> delivery_outcome cmd" where
  "record_outcome S chat_key request_sha observed detail w =
     (if w_effects_left w = 0 then (Err Interrupted, w)
      else case transition_append (rs_sha256 S) (rs_clock S (length (w_journal w))) (outcome_value observed)
                  chat_key request_sha detail (w_journal w) of
        (Ok _, js) \<Rightarrow> (Ok observed, w\<lparr>w_journal := js, w_effects_left := w_effects_left w - 1\<rparr>)
      | (Err (TransitionRejected _ _), js) \<Rightarrow> (Err (SystemExit 2), w)
      | (Err (ValueError e), js) \<Rightarrow> (Err (Uncaught e), w))"

definition journal_state :: "review_setup \<Rightarrow> string \<Rightarrow> string \<Rightarrow> delivery_outcome option cmd" where
  "journal_state S chat_key request_sha w =
     (case replay (rs_sha256 S) (w_journal w) of
        Err e \<Rightarrow> (Err (Uncaught e), w)
      | Ok records \<Rightarrow> (Ok (latest_outcome records chat_key request_sha), w))"

definition load_envelope :: "review_request_envelope \<Rightarrow> unit cmd" where
  "load_envelope e = (if envelope_validate e \<noteq> [] then sys_exit 1 else ret ())"

section \<open>build\<close>

text \<open>
  The envelope, the message and the body that are written out. The errors of the evidence index and the
  session identifier are arguments.
\<close>

definition cmd_build :: "(string \<Rightarrow> string) \<Rightarrow> string \<Rightarrow> string list \<Rightarrow> review_request_envelope \<Rightarrow>
    (exit, review_request_envelope \<times> string \<times> string) result" where
  "cmd_build sha256 request_text evidence_errors args =
     (if py_strip request_text = [] then Err (SystemExit 1)
      else if evidence_errors \<noteq> [] then Err (SystemExit 1)
      else
        let envelope = args\<lparr>env_schema_version := ENVELOPE_SCHEMA, env_request_text_sha256 := request_sha256 sha256 request_text\<rparr>
        in if envelope_validate envelope \<noteq> [] then Err (SystemExit 1)
           else Ok (envelope, fst (build_message sha256 request_text), canonical_body request_text))"

section \<open>send and reconcile\<close>

definition inspect :: "transport \<Rightarrow> string \<Rightarrow> thread_inspection option cmd" where
  "inspect tr chat_key w = (Ok (inspect_last_user_message tr (w_threads w chat_key)), w)"

definition send_message :: "transport \<Rightarrow> string \<Rightarrow> string \<Rightarrow> (string \<times> string) option cmd" where
  "send_message tr chat_key message w =
     (if w_effects_left w = 0 then (Err Interrupted, w)
      else let (raised, thread) = send_user_message tr message (w_threads w chat_key)
           in (Ok raised, w\<lparr>w_threads := (w_threads w)(chat_key := thread), w_effects_left := w_effects_left w - 1\<rparr>))"

definition live_check :: "live_github \<Rightarrow> review_request_envelope \<Rightarrow> string list \<Rightarrow> live_facts cmd" where
  "live_check gh e allowed_paths =
     (case fetch_pr gh of
        Inl exc \<Rightarrow> raise_exn exc
      | Inr None \<Rightarrow> sys_exit 1
      | Inr (Some live) \<Rightarrow>
          if validate_pr_live_state e live \<noteq> [] then sys_exit 1
          else if validate_diff_scope (lf_changed_files live) allowed_paths \<noteq> [] then sys_exit 1
          else ret live)"

datatype reconcile_action = Already_Present | May_Send | Blocked

definition reconcile :: "review_setup \<Rightarrow> transport \<Rightarrow> review_request_envelope \<Rightarrow> string \<Rightarrow> reconcile_action cmd" where
  "reconcile S tr e request_sha =
     and_then (inspect tr (env_chat_key e)) (\<lambda>inspection.
       case inspection of
         None \<Rightarrow> ret Blocked
       | Some UNAVAILABLE \<Rightarrow> ret Blocked
       | Some (MESSAGE text) \<Rightarrow>
           if extract_marker text = Some request_sha
           then and_then (record_outcome S (env_chat_key e) request_sha ALREADY_PRESENT
                    (''reconcile: identical marker '' @ take 12 request_sha @ ''... in thread'')) (\<lambda>_. ret Already_Present)
           else sys_exit 2
       | Some EMPTY_THREAD \<Rightarrow>
           and_then (record_outcome S (env_chat_key e) request_sha RECONCILED
                  ''reconcile: thread provably empty; resend is safe'') (\<lambda>_. ret May_Send))"

definition inspection_name :: "thread_inspection \<Rightarrow> string" where
  "inspection_name i = (case i of EMPTY_THREAD \<Rightarrow> ''EMPTY_THREAD'' | MESSAGE _ \<Rightarrow> ''MESSAGE'' | UNAVAILABLE \<Rightarrow> ''INSPECTION_UNAVAILABLE'')"

text \<open>The effect and what is recorded of it.\<close>

definition deliver :: "review_setup \<Rightarrow> transport \<Rightarrow> string \<Rightarrow> string \<Rightarrow> string \<Rightarrow> unit cmd" where
  "deliver S tr chat_key request_sha body =
     and_then (send_message tr chat_key (fst (build_message (rs_sha256 S) body))) (\<lambda>raised.
       case raised of
         Some (name, msg) \<Rightarrow>
           and_then (record_outcome S chat_key request_sha SEND_OUTCOME_UNKNOWN
                  (''send raised '' @ name @ '': '' @ take 200 msg)) (\<lambda>_. sys_exit 2)
       | None \<Rightarrow>
           and_then (record_outcome S chat_key request_sha SENT_CONFIRMED
                  ''message delivered and transport confirmed'') (\<lambda>_. ret ()))"

text \<open>From the live facts on: inspection, and the send when the request is not there already.\<close>

definition inspect_and_deliver :: "review_setup \<Rightarrow> transport \<Rightarrow> string \<Rightarrow> string \<Rightarrow> string \<Rightarrow> unit cmd" where
  "inspect_and_deliver S tr chat_key request_sha body =
     and_then (inspect tr chat_key) (\<lambda>inspection.
       case inspection of
         None \<Rightarrow>
           and_then (record_outcome S chat_key request_sha INSPECTION_UNAVAILABLE
                  ''transport returned invalid inspection state; fail closed'') (\<lambda>_. sys_exit 2)
       | Some i \<Rightarrow>
           if i = UNAVAILABLE
           then and_then (record_outcome S chat_key request_sha INSPECTION_UNAVAILABLE
                  ''thread inspection unavailable; pre-effect; retry is safe'') (\<lambda>_. sys_exit 2)
           else
             let existing_sha = (case i of MESSAGE text \<Rightarrow> extract_marker text | _ \<Rightarrow> None) in
             if existing_sha = Some request_sha
             then and_then (record_outcome S chat_key request_sha ALREADY_PRESENT
                    (''identical marker '' @ take 12 request_sha @ ''... already in thread'')) (\<lambda>_. sys_exit 0)
             else and_then (record_outcome S chat_key request_sha DELIVERY_INSPECTED
                    (''inspection='' @ inspection_name i @ '' prior_marker='' @ unwrap_or existing_sha ''NONE'' @ ''; sending''))
                  (\<lambda>_. deliver S tr chat_key request_sha body))"

definition cmd_send :: "review_setup \<Rightarrow> transport \<Rightarrow> live_github \<Rightarrow> review_request_envelope \<Rightarrow> string \<Rightarrow> string list \<Rightarrow>
    string list \<Rightarrow> unit cmd" where
  "cmd_send S tr gh e body evidence_errors allowed_paths =
     (let request_sha = request_sha256 (rs_sha256 S) body; chat_key = env_chat_key e in
      and_then (load_envelope e) (\<lambda>_.
      if request_sha \<noteq> env_request_text_sha256 e then sys_exit 1
      else and_then (journal_state S chat_key request_sha) (\<lambda>current.
        if current = Some SENT_CONFIRMED \<or> current = Some ALREADY_PRESENT then sys_exit 0
        else and_then
          (if current = Some SEND_OUTCOME_UNKNOWN \<or> current = Some DELIVERY_INSPECTED
           then and_then (reconcile S tr e request_sha) (\<lambda>action.
             case action of Already_Present \<Rightarrow> sys_exit 0 | Blocked \<Rightarrow> sys_exit 2 | May_Send \<Rightarrow> ret ())
           else ret ()) (\<lambda>_.
        if evidence_errors \<noteq> [] then sys_exit 1
        else and_then (live_check gh e allowed_paths) (\<lambda>live.
        and_then (record_outcome S chat_key request_sha LIVE_VALIDATED
               ''live PR and diff validated via read-only adapter'') (\<lambda>_.
        if \<not> read_auth_state tr
        then and_then (record_outcome S chat_key request_sha AUTH_REQUIRED
               ''login expired; no send attempted; retry after login'') (\<lambda>_. sys_exit 2)
        else inspect_and_deliver S tr chat_key request_sha body))))))"

definition cmd_reconcile :: "review_setup \<Rightarrow> transport \<Rightarrow> review_request_envelope \<Rightarrow> unit cmd" where
  "cmd_reconcile S tr e =
     and_then (load_envelope e) (\<lambda>_.
     and_then (journal_state S (env_chat_key e) (env_request_text_sha256 e)) (\<lambda>current.
       if current \<noteq> Some SEND_OUTCOME_UNKNOWN \<and> current \<noteq> Some DELIVERY_INSPECTED then sys_exit 0
       else and_then (reconcile S tr e (env_request_text_sha256 e)) (\<lambda>action.
         case action of Already_Present \<Rightarrow> sys_exit 0 | May_Send \<Rightarrow> sys_exit 0 | Blocked \<Rightarrow> sys_exit 2)))"

section \<open>poll and parse\<close>

definition cmd_poll :: "review_setup \<Rightarrow> transport \<Rightarrow> string \<Rightarrow> string \<Rightarrow> string \<Rightarrow> unit cmd" where
  "cmd_poll S tr chat_key request_sha out =
     and_then (journal_state S chat_key request_sha) (\<lambda>current.
       if \<not> can_poll current then sys_exit 2
       else
         let reply = unwrap_or (read_latest_assistant_message tr) [] in
         if py_strip reply = []
         then and_then (record_outcome S chat_key request_sha RESPONSE_UNAVAILABLE ''no assistant reply captured'')
                (\<lambda>_. sys_exit 2)
         else and_then (record_outcome S chat_key request_sha RESPONSE_CAPTURED
                (''reply '' @ show_nat (length reply) @ '' chars saved to '' @ out)) (\<lambda>_. ret ()))"

text \<open>
  What \<^verbatim>\<open>parse_receipt\<close> makes of the reply is an argument, \<open>None\<close> when there is no file. The receipt is what is
  written out.
\<close>

definition cmd_parse :: "review_setup \<Rightarrow> review_request_envelope \<Rightarrow> (string, review_receipt option \<times> string list) result option \<Rightarrow>
    string \<Rightarrow> review_receipt cmd" where
  "cmd_parse S e parsed out =
     and_then (load_envelope e) (\<lambda>_.
     and_then (journal_state S (env_chat_key e) (env_request_text_sha256 e)) (\<lambda>current.
       case parsed of
         None \<Rightarrow> sys_exit 1
       | Some (Err exc) \<Rightarrow> raise_exn exc
       | Some (Ok (None, errors)) \<Rightarrow>
           and_then (record_outcome S (env_chat_key e) (env_request_text_sha256 e) RECEIPT_REJECTED
                  (''parse rejected: '' @ py_join ''; '' errors)) (\<lambda>_. sys_exit 1)
       | Some (Ok (Some receipt, _)) \<Rightarrow>
           let match_errors = matches_envelope receipt e in
           if match_errors \<noteq> []
           then and_then (record_outcome S (env_chat_key e) (env_request_text_sha256 e) RECEIPT_REJECTED
                  (''identity mismatch: '' @ py_join ''; '' match_errors)) (\<lambda>_. sys_exit 1)
           else and_then (record_outcome S (env_chat_key e) (env_request_text_sha256 e) RECEIPT_PARSED
                  (''exact structured PASS parsed -> '' @ out)) (\<lambda>_. ret receipt)))"

section \<open>post\<close>

definition read_comments :: "live_github \<Rightarrow> string \<times> int \<Rightarrow> string list option cmd" where
  "read_comments gh pr w =
     (case list_comments gh (w_comments w pr) of
        Inl exc \<Rightarrow> (Err (Uncaught exc), w)
      | Inr bodies \<Rightarrow> (Ok bodies, w))"

definition post_comment :: "live_github \<Rightarrow> string \<times> int \<Rightarrow> string \<Rightarrow> ((string \<times> string) + string) cmd" where
  "post_comment gh pr body w =
     (if w_effects_left w = 0 then (Err Interrupted, w)
      else let (res, comments) = create_comment gh body (w_comments w pr)
           in (Ok res, w\<lparr>w_comments := (w_comments w)(pr := comments), w_effects_left := w_effects_left w - 1\<rparr>))"

definition decide_comment :: "review_setup \<Rightarrow> live_github \<Rightarrow> review_request_envelope \<Rightarrow> review_receipt \<Rightarrow>
    (comment_action \<times> string list) cmd" where
  "decide_comment S gh e r =
     and_then (read_comments gh (env_repository e, env_pr_number e)) (\<lambda>existing.
       ret (reconcile_comments existing (env_request_text_sha256 e) (receipt_sha256 (rs_sha256 S) r)))"

text \<open>From the recorded revalidation of the head on.\<close>

definition post_receipt :: "review_setup \<Rightarrow> live_github \<Rightarrow> review_request_envelope \<Rightarrow> review_receipt \<Rightarrow> unit cmd" where
  "post_receipt S gh e r =
     and_then (decide_comment S gh e r) (\<lambda>(action, reasons).
       case action of
         Skip \<Rightarrow>
           and_then (record_outcome S (env_chat_key e) (env_request_text_sha256 e) COMMENT_POSTED
                  (''skip; '' @ py_join ''; '' reasons)) (\<lambda>_. sys_exit 0)
       | Conflict \<Rightarrow> sys_exit 1
       | Unknown \<Rightarrow> sys_exit 1
       | Post \<Rightarrow>
           and_then (post_comment gh (env_repository e, env_pr_number e) (build_comment_body (rs_sha256 S) e r)) (\<lambda>res.
             case res of
               Inl (name, msg) \<Rightarrow>
                 and_then (record_outcome S (env_chat_key e) (env_request_text_sha256 e) COMMENT_OUTCOME_UNKNOWN
                        (''comment POST raised '' @ name @ '': '' @ take 200 msg)) (\<lambda>_. sys_exit 2)
             | Inr url \<Rightarrow>
                 and_then (record_outcome S (env_chat_key e) (env_request_text_sha256 e) COMMENT_POSTED url) (\<lambda>_. ret ())))"

definition cmd_post :: "review_setup \<Rightarrow> live_github \<Rightarrow> review_request_envelope \<Rightarrow> review_receipt \<Rightarrow> string list \<Rightarrow> unit cmd" where
  "cmd_post S gh e r allowed_paths =
     and_then (load_envelope e) (\<lambda>_.
     if receipt_validate r \<noteq> [] then sys_exit 1
     else if matches_envelope r e \<noteq> [] then sys_exit 1
     else and_then (journal_state S (env_chat_key e) (env_request_text_sha256 e)) (\<lambda>current.
       and_then
         (if current = Some COMMENT_OUTCOME_UNKNOWN \<or> current = Some HEAD_REVALIDATED
          then and_then (decide_comment S gh e r) (\<lambda>(action, reasons).
            if action = Skip
            then and_then (record_outcome S (env_chat_key e) (env_request_text_sha256 e) COMMENT_POSTED
                   (''post reconcile: '' @ py_join ''; '' reasons)) (\<lambda>_. sys_exit 0)
            else if action \<noteq> Post then sys_exit 2 else ret ())
          else if current = Some COMMENT_POSTED
          then and_then (decide_comment S gh e r) (\<lambda>(action, reasons). if action = Skip then sys_exit 0 else sys_exit 2)
          else ret ()) (\<lambda>_.
       and_then (live_check gh e allowed_paths) (\<lambda>live.
       and_then (record_outcome S (env_chat_key e) (env_request_text_sha256 e) HEAD_REVALIDATED
              (''live head '' @ take 12 (lf_head_sha live) @ ''... revalidated'')) (\<lambda>_.
       post_receipt S gh e r)))))"

end
