(* ===== verification/Review_Invariants.thy ===== *)
theory Review_Invariants
  imports Review_Cli
begin

text \<open>
  Invariants of the review loop: a calculus of triples for its commands, the reachable worlds, and three
  invariants of them: a request is in its chat at most once, the journal's chain stays intact, and a pull
  request has at most one receipt comment for a request.
\<close>

section \<open>Triples\<close>

text \<open>
  From a world with \<open>P\<close>, the command leaves a world with \<open>Q\<close> when it returns and one with \<open>I\<close> when it exits
  or is interrupted.
\<close>

definition triple :: "(world \<Rightarrow> bool) \<Rightarrow> (world \<Rightarrow> bool) \<Rightarrow> 'a cmd \<Rightarrow> ('a \<Rightarrow> world \<Rightarrow> bool) \<Rightarrow> bool" where
  "triple I P c Q \<longleftrightarrow> (\<forall>w. P w \<longrightarrow> (case c w of (Ok a, w') \<Rightarrow> Q a w' | (Err e, w') \<Rightarrow> I w'))"

abbreviation keeps :: "(world \<Rightarrow> bool) \<Rightarrow> 'a cmd \<Rightarrow> bool" where
  "keeps I c \<equiv> triple I I c (\<lambda>_. I)"

named_theorems steps \<open>rules for the triples\<close>

lemma triple_and_then: "triple I P m R \<Longrightarrow> (\<And>a. triple I (R a) (f a) Q) \<Longrightarrow> triple I P (and_then m f) Q"
  by (fastforce simp: triple_def and_then_def split: prod.splits sum.splits)

lemma triple_weaken: "triple I P c Q \<Longrightarrow> (\<And>w. P' w \<Longrightarrow> P w) \<Longrightarrow> (\<And>a w. Q a w \<Longrightarrow> Q' a w) \<Longrightarrow> triple I P' c Q'"
  by (fastforce simp: triple_def split: prod.splits sum.splits)

lemma triple_pre: "triple I P c Q \<Longrightarrow> (\<And>w. P' w \<Longrightarrow> P w) \<Longrightarrow> triple I P' c Q"
  by (rule triple_weaken)

lemma triple_ex: "(\<And>x. R x \<Longrightarrow> triple I (P x) c Q) \<Longrightarrow> triple I (\<lambda>w. \<exists>x. P x w \<and> R x) c Q"
  unfolding triple_def by (intro allI impI, elim exE conjE) simp

lemma keeps_and_then [steps]: "keeps I m \<Longrightarrow> (\<And>a. keeps I (f a)) \<Longrightarrow> keeps I (and_then m f)"
  by (rule triple_and_then)

lemma keeps_plain [steps]: "keeps I (ret a)" "keeps I (sys_exit n)" "keeps I (raise_exn e)"
  by (simp_all add: triple_def ret_def sys_exit_def raise_exn_def)

lemma triple_ret: "(\<And>w. P w \<Longrightarrow> Q a w) \<Longrightarrow> triple I P (ret a) Q"
  by (simp add: triple_def ret_def)

lemma keeps_reads [steps]:
  "keeps I (journal_state S k h)" "keeps I (inspect tr k)" "keeps I (read_comments gh pr)"
  by (auto simp: triple_def journal_state_def inspect_def read_comments_def split: sum.splits)

lemma keeps_if [steps]: "keeps I c \<Longrightarrow> keeps I d \<Longrightarrow> keeps I (if b then c else d)"
  by simp

lemma keeps_load [steps]: "keeps I (load_envelope e)"
  by (simp add: load_envelope_def steps)

lemma keeps_live [steps]: "keeps I (live_check gh e allowed)"
  by (auto simp: live_check_def intro!: steps split: sum.split option.split)

lemma keeps_decide [steps]: "keeps I (decide_comment S gh e r)"
  unfolding decide_comment_def by (intro steps)

lemma triple_run:
  assumes "triple I P c Q" "P w" "c w = (res, w')" "\<And>a. Q a w' \<Longrightarrow> I w'"
  shows "I w'"
  using assms unfolding triple_def by (cases res) fastforce+

section \<open>At most one delivery\<close>

definition copies :: "world \<Rightarrow> string \<Rightarrow> string \<Rightarrow> nat" where
  "copies w k h = length (filter (\<lambda>m. extract_marker m = Some h) (w_threads w k))"

abbreviation state_of :: "world \<Rightarrow> string \<Rightarrow> string \<Rightarrow> delivery_outcome option" where
  "state_of w k h \<equiv> latest_outcome (w_journal w) k h"

text \<open>The states in which the request may already be in the thread.\<close>

definition maybe_delivered :: "delivery_outcome option \<Rightarrow> bool" where
  "maybe_delivered s \<longleftrightarrow>
     s \<notin> {None, Some BUILT, Some LIVE_VALIDATED, Some AUTH_REQUIRED, Some INSPECTION_UNAVAILABLE, Some RECONCILED,
         Some LOCK_BUSY}"

definition once :: "world \<Rightarrow> bool" where
  "once w \<longleftrightarrow> (\<forall>k h. copies w k h = 0 \<or> copies w k h = 1 \<and> maybe_delivered (state_of w k h))"

lemma only_reconciliation_clears:
  assumes "transition_allowed s x" "maybe_delivered s" "x \<noteq> RECONCILED"
  shows "maybe_delivered (Some x)"
proof -
  obtain c where "s = Some c" using assms(2) by (cases s) (auto simp: maybe_delivered_def)
  then show ?thesis using assms by (cases c) (auto simp: transition_allowed_def maybe_delivered_def)
qed

text \<open>What a successful recording gives.\<close>

definition recorded :: "world \<Rightarrow> string \<Rightarrow> string \<Rightarrow> delivery_outcome \<Rightarrow> world \<Rightarrow> bool" where
  "recorded w k h x w' \<longleftrightarrow> transition_allowed (state_of w k h) x \<and> w_threads w' = w_threads w \<and>
     w_comments w' = w_comments w \<and>
     (\<forall>k' h'. state_of w' k' h' = (if k' = k \<and> h' = h then Some x else state_of w k' h'))"

lemma record_outcome_cases:
  "(\<exists>e. record_outcome S k h x d w = (Err e, w)) \<or>
   (\<exists>w'. record_outcome S k h x d w = (Ok x, w') \<and> recorded w k h x w')"
proof (cases "w_effects_left w = 0")
  case False
  obtain res js where ta: "transition_append (rs_sha256 S) (rs_clock S (length (w_journal w))) (outcome_value x) k h d
      (w_journal w) = (res, js)" by fastforce
  from transition_append_cases [OF ta] show ?thesis
  proof
    assume "\<exists>e. res = Err e \<and> js = w_journal w"
    then show ?thesis using ta False by (auto simp: record_outcome_def split: journal_error.split)
  next
    assume "\<exists>observed. outcome_of (outcome_value x) = Some observed \<and> transition_allowed (state_of w k h) observed \<and>
      verify_chain (rs_sha256 S) (w_journal w) = Ok () \<and>
      res = Ok (build_record (rs_sha256 S) (rs_clock S (length (w_journal w))) (w_journal w) (outcome_value x) k h d) \<and>
      js = w_journal w @ [build_record (rs_sha256 S) (rs_clock S (length (w_journal w))) (w_journal w) (outcome_value x) k h d]"
    then show ?thesis using ta False
      by (auto simp: record_outcome_def recorded_def latest_outcome_snoc)
  qed
qed (simp add: record_outcome_def)

lemma recorded_once:
  assumes "once w" "recorded w k h x w'" "x = RECONCILED \<Longrightarrow> copies w k h = 0"
  shows "once w'"
  unfolding once_def
proof (intro allI)
  fix k' h'
  have copies: "copies w' k' h' = copies w k' h'" using assms(2) by (simp add: recorded_def copies_def)
  have was: "copies w k' h' = 0 \<or> copies w k' h' = 1 \<and> maybe_delivered (state_of w k' h')" using assms(1) by (simp add: once_def)
  show "copies w' k' h' = 0 \<or> copies w' k' h' = 1 \<and> maybe_delivered (state_of w' k' h')"
  proof (cases "k' = k \<and> h' = h")
    case True
    then show ?thesis
      using was copies assms(2,3) only_reconciliation_clears [of "state_of w k h" x]
      by (cases "x = RECONCILED") (auto simp: recorded_def)
  next
    case False
    then have "state_of w' k' h' = state_of w k' h'" using assms(2) unfolding recorded_def by presburger
    then show ?thesis using was copies by simp
  qed
qed

lemma triple_record:
  assumes "\<And>w. P w \<Longrightarrow> E w" "\<And>w w'. P w \<Longrightarrow> recorded w k h x w' \<Longrightarrow> Q x w'"
  shows "triple E P (record_outcome S k h x d) Q"
  unfolding triple_def
proof (intro allI impI)
  fix w assume "P w"
  then show "case record_outcome S k h x d w of (Inl e, w') \<Rightarrow> E w' | (Inr a, w') \<Rightarrow> Q a w'"
    using record_outcome_cases [of S k h x d w] assms by auto
qed

lemma record_keeps_once [steps]: "x \<noteq> RECONCILED \<Longrightarrow> keeps once (record_outcome S k h x d)"
  by (rule triple_record) (auto intro: recorded_once)

lemma record_reconciled: "triple once (\<lambda>w. once w \<and> copies w k h = 0) (record_outcome S k h RECONCILED d) (\<lambda>_. once)"
  by (rule triple_record) (auto intro: recorded_once)

text \<open>Recording that the thread was inspected proves that the request is not there.\<close>

lemma inspected_not_delivered: "transition_allowed s DELIVERY_INSPECTED \<Longrightarrow> \<not> maybe_delivered s"
  by (cases s rule: edges_of.cases) (auto simp: transition_allowed_def maybe_delivered_def)

lemma record_inspected:
  "triple once once (record_outcome S k h DELIVERY_INSPECTED d)
     (\<lambda>_ w. once w \<and> copies w k h = 0 \<and> state_of w k h = Some DELIVERY_INSPECTED)"
proof (rule triple_record)
  fix w w' assume w: "once w" "recorded w k h DELIVERY_INSPECTED w'"
  then have "copies w k h = 0"
    using inspected_not_delivered [of "state_of w k h"] by (auto simp: once_def recorded_def)
  then show "once w' \<and> copies w' k h = 0 \<and> state_of w' k h = Some DELIVERY_INSPECTED"
    using recorded_once [OF w] w(2) by (auto simp: recorded_def copies_def)
qed

lemma send_once:
  assumes "transport_ok tr" "extract_marker m = Some h"
  shows "triple once (\<lambda>w. once w \<and> copies w k h = 0 \<and> state_of w k h = Some DELIVERY_INSPECTED) (send_message tr k m) (\<lambda>_. once)"
  unfolding triple_def
proof (intro allI impI)
  fix w assume w: "once w \<and> copies w k h = 0 \<and> state_of w k h = Some DELIVERY_INSPECTED"
  obtain raised th where send: "send_user_message tr m (w_threads w k) = (raised, th)" by fastforce
  have th: "th = w_threads w k \<or> th = w_threads w k @ [m]"
    using assms(1) send unfolding transport_ok_def by (cases raised) (force split: prod.splits)+
  have "once (w\<lparr>w_threads := (w_threads w)(k := th), w_effects_left := n\<rparr>)" for n
    unfolding once_def
  proof (intro allI)
    fix k' h'
    let ?w = "w\<lparr>w_threads := (w_threads w)(k := th), w_effects_left := n\<rparr>"
    have "copies w k' h' = 0 \<or> copies w k' h' = 1 \<and> maybe_delivered (state_of w k' h')" using w by (simp add: once_def)
    moreover have "copies ?w k' h' = copies w k' h' \<or> k' = k \<and> h' = h \<and> copies ?w k' h' = 1"
      using th assms(2) w by (cases "h = h'") (auto simp: copies_def)
    moreover have "maybe_delivered (state_of w k h)" using w by (simp add: maybe_delivered_def)
    ultimately show "copies ?w k' h' = 0 \<or> copies ?w k' h' = 1 \<and> maybe_delivered (state_of ?w k' h')" by auto
  qed
  then show "case send_message tr k m w of (Ok a, w') \<Rightarrow> once w' | (Err e, w') \<Rightarrow> once w'"
    using w by (simp add: send_message_def send)
qed

lemma deliver_once:
  assumes "transport_ok tr" "hash_digits (rs_sha256 S)" "h = request_sha256 (rs_sha256 S) body"
  shows "triple once (\<lambda>w. once w \<and> copies w k h = 0 \<and> state_of w k h = Some DELIVERY_INSPECTED) (deliver S tr k h body) (\<lambda>_. once)"
  unfolding deliver_def
proof (rule triple_and_then)
  show "triple once (\<lambda>w. once w \<and> copies w k h = 0 \<and> state_of w k h = Some DELIVERY_INSPECTED)
      (send_message tr k (fst (build_message (rs_sha256 S) body))) (\<lambda>_. once)"
    using send_once [OF assms(1) extract_marker_message [OF assms(2)]] assms(3) by simp
qed (auto intro!: steps split: option.split prod.split)

lemma inspect_and_deliver_once:
  assumes "transport_ok tr" "hash_digits (rs_sha256 S)" "h = request_sha256 (rs_sha256 S) body"
  shows "keeps once (inspect_and_deliver S tr k h body)"
  unfolding inspect_and_deliver_def
proof (rule keeps_and_then)
  have "keeps once (and_then (record_outcome S k h DELIVERY_INSPECTED d) (\<lambda>_. deliver S tr k h body))" for d
    by (rule triple_and_then [OF record_inspected deliver_once [OF assms]])
  then show "keeps once (case inspection of
      None \<Rightarrow> and_then (record_outcome S k h INSPECTION_UNAVAILABLE ''transport returned invalid inspection state; fail closed'')
        (\<lambda>_. sys_exit 2)
    | Some i \<Rightarrow> if i = UNAVAILABLE
        then and_then (record_outcome S k h INSPECTION_UNAVAILABLE ''thread inspection unavailable; pre-effect; retry is safe'')
          (\<lambda>_. sys_exit 2)
        else let existing_sha = (case i of MESSAGE text \<Rightarrow> extract_marker text | _ \<Rightarrow> None) in
          if existing_sha = Some h
          then and_then (record_outcome S k h ALREADY_PRESENT (''identical marker '' @ take 12 h @ ''... already in thread'')) (\<lambda>_. sys_exit 0)
          else and_then (record_outcome S k h DELIVERY_INSPECTED
            (''inspection='' @ inspection_name i @ '' prior_marker='' @ unwrap_or existing_sha ''NONE'' @ ''; sending''))
            (\<lambda>_. deliver S tr k h body))" for inspection
    by (auto simp: Let_def intro!: steps split: option.split)
qed (rule steps)

lemma reconcile_once:
  assumes "transport_ok tr"
  shows "keeps once (reconcile S tr e h)"
  unfolding reconcile_def
proof (rule triple_and_then)
  show "triple once once (inspect tr (env_chat_key e)) (\<lambda>i w. once w \<and> (i = Some EMPTY_THREAD \<longrightarrow> copies w (env_chat_key e) h = 0))"
    using assms by (auto simp: triple_def inspect_def transport_ok_def copies_def)
  have empty: "triple once (\<lambda>w. once w \<and> copies w (env_chat_key e) h = 0)
      (and_then (record_outcome S (env_chat_key e) h RECONCILED d) (\<lambda>_. ret May_Send)) (\<lambda>_. once)" for d
    by (rule triple_and_then [OF record_reconciled]) (rule steps)
  show "triple once (\<lambda>w. once w \<and> (i = Some EMPTY_THREAD \<longrightarrow> copies w (env_chat_key e) h = 0))
      (case i of None \<Rightarrow> ret Blocked | Some UNAVAILABLE \<Rightarrow> ret Blocked
       | Some (MESSAGE text) \<Rightarrow> if extract_marker text = Some h
           then and_then (record_outcome S (env_chat_key e) h ALREADY_PRESENT
                (''reconcile: identical marker '' @ take 12 h @ ''... in thread'')) (\<lambda>_. ret Already_Present)
           else sys_exit 2
       | Some EMPTY_THREAD \<Rightarrow> and_then (record_outcome S (env_chat_key e) h RECONCILED
              ''reconcile: thread provably empty; resend is safe'') (\<lambda>_. ret May_Send)) (\<lambda>_. once)" for i
  proof (cases "i = Some EMPTY_THREAD")
    case True
    then show ?thesis using empty by simp
  next
    case False
    then have "keeps once (case i of None \<Rightarrow> ret Blocked | Some UNAVAILABLE \<Rightarrow> ret Blocked
       | Some (MESSAGE text) \<Rightarrow> if extract_marker text = Some h
           then and_then (record_outcome S (env_chat_key e) h ALREADY_PRESENT
                (''reconcile: identical marker '' @ take 12 h @ ''... in thread'')) (\<lambda>_. ret Already_Present)
           else sys_exit 2
       | Some EMPTY_THREAD \<Rightarrow> and_then (record_outcome S (env_chat_key e) h RECONCILED
              ''reconcile: thread provably empty; resend is safe'') (\<lambda>_. ret May_Send))"
      by (auto intro!: steps split: option.split thread_inspection.split)
    then show ?thesis by (rule triple_pre) simp
  qed
qed

lemma post_comment_once [steps]: "keeps once (post_comment gh pr body)"
  by (auto simp: triple_def post_comment_def once_def copies_def split: prod.splits)

lemma post_receipt_once: "keeps once (post_receipt S gh e r)"
  unfolding post_receipt_def by (auto intro!: steps split: comment_action.split prod.split sum.split)

section \<open>Reachable worlds\<close>

text \<open>
  The commands run one after the other on one setup, each to its end or to its interruption, against any
  transport and any service that behave as documented. Other people write to the chats and the pull requests.
\<close>

inductive review_reachable :: "review_setup \<Rightarrow> world \<Rightarrow> bool" for S :: review_setup where
  start: "review_reachable S \<lparr>w_journal = [], w_threads = (\<lambda>_. []), w_comments = (\<lambda>_. []), w_effects_left = n\<rparr>"
| process: "review_reachable S w \<Longrightarrow> review_reachable S (w\<lparr>w_effects_left := n\<rparr>)"
| message: "review_reachable S w \<Longrightarrow> extract_marker m = None \<Longrightarrow>
    review_reachable S (w\<lparr>w_threads := (w_threads w)(k := w_threads w k @ [m])\<rparr>)"
| comment: "review_reachable S w \<Longrightarrow> find_markers c = [] \<Longrightarrow>
    review_reachable S (w\<lparr>w_comments := (w_comments w)(pr := w_comments w pr @ [c])\<rparr>)"
| send: "review_reachable S w \<Longrightarrow> transport_ok tr \<Longrightarrow> github_ok gh \<Longrightarrow> cmd_send S tr gh e body errs allowed w = (res, w') \<Longrightarrow>
    review_reachable S w'"
| reconcile: "review_reachable S w \<Longrightarrow> transport_ok tr \<Longrightarrow> cmd_reconcile S tr e w = (res, w') \<Longrightarrow> review_reachable S w'"
| poll: "review_reachable S w \<Longrightarrow> transport_ok tr \<Longrightarrow> cmd_poll S tr k h out w = (res, w') \<Longrightarrow> review_reachable S w'"
| parse: "review_reachable S w \<Longrightarrow> cmd_parse S e parsed out w = (pres, w') \<Longrightarrow> review_reachable S w'"
| post: "review_reachable S w \<Longrightarrow> github_ok gh \<Longrightarrow> cmd_post S gh e r allowed w = (res, w') \<Longrightarrow> review_reachable S w'"

text \<open>
  What it takes for a property of the world to hold in every reachable world: the parts of the commands that
  have effects keep it.
\<close>

locale world_invariant =
  fixes S :: review_setup
    and I :: "world \<Rightarrow> bool"
  assumes start: "I \<lparr>w_journal = [], w_threads = (\<lambda>_. []), w_comments = (\<lambda>_. []), w_effects_left = n\<rparr>"
    and process: "I w \<Longrightarrow> I (w\<lparr>w_effects_left := n\<rparr>)"
    and message: "I w \<Longrightarrow> extract_marker m = None \<Longrightarrow> I (w\<lparr>w_threads := (w_threads w)(k := w_threads w k @ [m])\<rparr>)"
    and comment: "I w \<Longrightarrow> find_markers c = [] \<Longrightarrow> I (w\<lparr>w_comments := (w_comments w)(pr := w_comments w pr @ [c])\<rparr>)"
    and records: "hash_digits (rs_sha256 S) \<Longrightarrow> x \<noteq> RECONCILED \<Longrightarrow> keeps I (record_outcome S k h x d)"
    and reconciles: "hash_digits (rs_sha256 S) \<Longrightarrow> transport_ok tr \<Longrightarrow> keeps I (reconcile S tr e h)"
    and delivers: "hash_digits (rs_sha256 S) \<Longrightarrow> transport_ok tr \<Longrightarrow> h = request_sha256 (rs_sha256 S) body \<Longrightarrow>
      keeps I (inspect_and_deliver S tr k h body)"
    and posts: "hash_digits (rs_sha256 S) \<Longrightarrow> github_ok gh \<Longrightarrow> envelope_validate e = [] \<Longrightarrow> receipt_validate r = [] \<Longrightarrow>
      matches_envelope r e = [] \<Longrightarrow> keeps I (post_receipt S gh e r)"
begin

lemma send_keeps:
  assumes "hash_digits (rs_sha256 S)" "transport_ok tr"
  shows "keeps I (cmd_send S tr gh e body errs allowed)"
  unfolding cmd_send_def Let_def
  by (intro steps delivers [OF assms] reconciles [OF assms] records [OF assms(1)] refl)
    (auto intro!: steps split: reconcile_action.split)

lemma reconcile_keeps:
  assumes "hash_digits (rs_sha256 S)" "transport_ok tr"
  shows "keeps I (cmd_reconcile S tr e)"
  unfolding cmd_reconcile_def
  by (intro steps reconciles [OF assms]) (auto intro!: steps split: reconcile_action.split)

lemma poll_keeps: "hash_digits (rs_sha256 S) \<Longrightarrow> keeps I (cmd_poll S tr k h out)"
  unfolding cmd_poll_def Let_def by (intro steps records) auto

lemma parse_keeps: "hash_digits (rs_sha256 S) \<Longrightarrow> keeps I (cmd_parse S e parsed out)"
  unfolding cmd_parse_def Let_def by (auto intro!: steps records split: prod.split option.split sum.split)

lemma post_keeps:
  assumes "hash_digits (rs_sha256 S)" "github_ok gh"
  shows "keeps I (cmd_post S gh e r allowed)"
proof (cases "envelope_validate e = [] \<and> receipt_validate r = [] \<and> matches_envelope r e = []")
  case True
  then show ?thesis unfolding cmd_post_def
    by (intro steps posts [OF assms]) (auto intro!: steps records [OF assms(1)] split: prod.split)
next
  case False
  then show ?thesis
    by (auto simp: triple_def cmd_post_def load_envelope_def and_then_def ret_def sys_exit_def)
qed

lemma reachable:
  assumes "review_reachable S w" "hash_digits (rs_sha256 S)"
  shows "I w"
  using assms(1)
proof induction
  case (send w tr gh e body errs allowed res w')
  then show ?case using send_keeps [OF assms(2)] triple_run by blast
next
  case (reconcile w tr e res w')
  then show ?case using reconcile_keeps [OF assms(2)] triple_run by blast
next
  case (poll w tr k h out res w')
  then show ?case using poll_keeps [OF assms(2)] triple_run by blast
next
  case (parse w e parsed out pres w')
  then show ?case using parse_keeps [OF assms(2)] triple_run by blast
next
  case (post w gh e r allowed res w')
  then show ?case using post_keeps [OF assms(2)] triple_run by blast
qed (simp_all add: start process message comment)

end

interpretation delivery: world_invariant S once for S
proof
  show "once (w\<lparr>w_threads := (w_threads w)(k := w_threads w k @ [m])\<rparr>)" if "once w" "extract_marker m = None" for w m k
    using that by (auto simp: once_def copies_def)
qed (simp_all add: record_keeps_once reconcile_once inspect_and_deliver_once post_receipt_once, simp_all add: once_def copies_def)

section \<open>The journal stays intact\<close>

abbreviation intact :: "review_setup \<Rightarrow> world \<Rightarrow> bool" where
  "intact S w \<equiv> verify_chain (rs_sha256 S) (w_journal w) = Ok ()"

lemma record_intact:
  assumes "hash_digits (rs_sha256 S)"
  shows "keeps (intact S) (record_outcome S k h x d)"
  unfolding triple_def
proof (intro allI impI)
  fix w assume w: "intact S w"
  obtain res js where ta: "transition_append (rs_sha256 S) (rs_clock S (length (w_journal w))) (outcome_value x) k h d
      (w_journal w) = (res, js)" by fastforce
  have "verify_chain (rs_sha256 S) js = Ok ()"
    using transition_append_cases [OF ta] w append_verified [OF assms w] by auto
  then show "case record_outcome S k h x d w of (Inl e, w') \<Rightarrow> intact S w' | (Inr a, w') \<Rightarrow> intact S w'"
    using w ta by (auto simp: record_outcome_def split: sum.split journal_error.split)
qed

lemma effects_intact [steps]: "keeps (intact S) (send_message tr k m)" "keeps (intact S) (post_comment gh pr body)"
  by (auto simp: triple_def send_message_def post_comment_def split: prod.splits)

interpretation chain: world_invariant S "intact S" for S
proof
  assume hash: "hash_digits (rs_sha256 S)"
  note [steps] = record_intact [OF hash]
  show "keeps (intact S) (record_outcome S k h x d)" for k h x d by (rule steps)
  show "keeps (intact S) (reconcile S tr e h)" for tr e h
    unfolding reconcile_def by (auto intro!: steps split: option.split thread_inspection.split)
  have "keeps (intact S) (deliver S tr k h body)" for tr k h body
    unfolding deliver_def by (auto intro!: steps split: option.split prod.split)
  then show "keeps (intact S) (inspect_and_deliver S tr k h body)" for tr k h body
    unfolding inspect_and_deliver_def Let_def by (auto intro!: steps split: option.split)
  show "keeps (intact S) (post_receipt S gh e r)" for gh e r
    unfolding post_receipt_def by (auto intro!: steps split: comment_action.split prod.split sum.split)
qed simp_all

section \<open>At most one receipt comment\<close>

text \<open>A comment is a receipt for a request when its last line is the marker of the request.\<close>

definition receipt_for :: "string \<Rightarrow> string \<Rightarrow> bool" where
  "receipt_for h c \<longleftrightarrow> (\<exists>pre p. hex_string 64 p \<and> c = pre @ comment_marker_line h p)"

text \<open>The comment is what the post command writes for a valid exact PASS of the request on this pull request.\<close>

definition authorized :: "review_setup \<Rightarrow> string \<times> int \<Rightarrow> string \<Rightarrow> string \<Rightarrow> bool" where
  "authorized S pr h c \<longleftrightarrow>
     (\<exists>e r. c = build_comment_body (rs_sha256 S) e r \<and> envelope_validate e = [] \<and> receipt_validate r = [] \<and>
        matches_envelope r e = [] \<and> env_request_text_sha256 e = h \<and> (env_repository e, env_pr_number e) = pr)"

definition receipts_once :: "review_setup \<Rightarrow> world \<Rightarrow> bool" where
  "receipts_once S w \<longleftrightarrow>
     (\<forall>pr h. hex_string 64 h \<longrightarrow> length (filter (receipt_for h) (w_comments w pr)) \<le> 1 \<and>
        list_all (authorized S pr h) (filter (receipt_for h) (w_comments w pr)))"

lemma receipt_for_unique:
  assumes "receipt_for h c" "receipt_for h' c" "hex_string 64 h" "hex_string 64 h'"
  shows "h = h'"
proof -
  obtain pre p pre' p' where c: "c = pre @ comment_marker_line h p" "c = pre' @ comment_marker_line h' p'" "hex_string 64 p" "hex_string 64 p'"
    using assms(1,2) unfolding receipt_for_def by blast
  have "length (comment_marker_line h p) = length (comment_marker_line h' p')"
    using assms(3,4) c(3,4) by (simp add: comment_marker_line_def hex_string_def)
  then have "comment_marker_line h p = comment_marker_line h' p'" using c(1,2) by simp
  then show ?thesis using assms(3,4) by (simp add: comment_marker_line_def hex_string_def)
qed

lemma receipt_for_marked: "receipt_for h c \<Longrightarrow> hex_string 64 h \<Longrightarrow> h \<in> fst ` fst ` set (find_markers c)"
  using find_markers_line unfolding receipt_for_def by (metis (no_types, lifting) fst_conv image_iff)

lemma envelope_hash: "envelope_validate e = [] \<Longrightarrow> hex_string 64 (env_request_text_sha256 e)"
  by (simp add: envelope_validate_def)

lemma body_receipt_for:
  assumes "hash_digits sha256"
  shows "receipt_for (env_request_text_sha256 e) (build_comment_body sha256 e r)"
  using comment_ends [of sha256 e r] assms unfolding receipt_for_def
  by (auto simp: hash_digits_def receipt_sha256_def)

lemma recorded_receipts: "receipts_once S w \<Longrightarrow> recorded w k h x w' \<Longrightarrow> receipts_once S w'"
  by (simp add: receipts_once_def recorded_def)

lemma record_receipts [steps]: "keeps (receipts_once S) (record_outcome S k h x d)"
  by (rule triple_record) (auto intro: recorded_receipts)

lemma send_receipts [steps]: "keeps (receipts_once S) (send_message tr k m)"
  by (auto simp: triple_def send_message_def receipts_once_def split: prod.splits)

text \<open>The decision to post is made on the comments that are there.\<close>

definition none_for :: "world \<Rightarrow> review_request_envelope \<Rightarrow> bool" where
  "none_for w e \<longleftrightarrow> filter (receipt_for (env_request_text_sha256 e)) (w_comments w (env_repository e, env_pr_number e)) = []"

lemma decide_post:
  assumes "github_ok gh" "envelope_validate e = []"
  shows "triple (receipts_once S) (receipts_once S) (decide_comment S gh e r)
     (\<lambda>d w. receipts_once S w \<and> (fst d = Post \<longrightarrow> none_for w e))"
  unfolding triple_def
proof (intro allI impI)
  fix w assume w: "receipts_once S w"
  let ?pr = "(env_repository e, env_pr_number e)"
  show "case decide_comment S gh e r w of (Inl x, w') \<Rightarrow> receipts_once S w'
    | (Inr d, w') \<Rightarrow> receipts_once S w' \<and> (fst d = Post \<longrightarrow> none_for w' e)"
  proof (cases "list_comments gh (w_comments w ?pr)")
    case (Inl exc)
    then show ?thesis using w by (simp add: decide_comment_def and_then_def read_comments_def)
  next
    case (Inr existing)
    let ?d = "reconcile_comments existing (env_request_text_sha256 e) (receipt_sha256 (rs_sha256 S) r)"
    have "none_for w e" if "fst ?d = Post"
    proof (cases existing)
      case None
      then show ?thesis using that by (simp add: reconcile_comments_def)
    next
      case (Some bodies)
      then have "bodies = w_comments w ?pr" using Inr assms(1) by (auto simp: github_ok_def)
      then show ?thesis
        using that Some receipt_for_marked [OF _ envelope_hash [OF assms(2)]]
          post_decided [of bodies "env_request_text_sha256 e" "receipt_sha256 (rs_sha256 S) r" "snd ?d"]
        by (auto simp: none_for_def filter_empty_conv prod_eq_iff)
    qed
    then show ?thesis using w Inr by (simp add: decide_comment_def and_then_def read_comments_def ret_def)
  qed
qed

lemma post_comment_receipts:
  assumes "github_ok gh" "hash_digits (rs_sha256 S)" "envelope_validate e = []" "receipt_validate r = []" "matches_envelope r e = []"
  shows "triple (receipts_once S) (\<lambda>w. receipts_once S w \<and> none_for w e)
     (post_comment gh (env_repository e, env_pr_number e) (build_comment_body (rs_sha256 S) e r)) (\<lambda>_. receipts_once S)"
  unfolding triple_def
proof (intro allI impI)
  let ?pr = "(env_repository e, env_pr_number e)" and ?h = "env_request_text_sha256 e" and ?b = "build_comment_body (rs_sha256 S) e r"
  fix w assume w: "receipts_once S w \<and> none_for w e"
  obtain res cs where cc: "create_comment gh ?b (w_comments w ?pr) = (res, cs)" by fastforce
  have cs: "cs = w_comments w ?pr \<or> cs = w_comments w ?pr @ [?b]"
    using assms(1) cc unfolding github_ok_def by (cases res) (force split: prod.splits)+
  have auth: "authorized S ?pr ?h ?b" using assms unfolding authorized_def by blast
  have mine: "h = ?h" if "hex_string 64 h" "receipt_for h ?b" for h
    using receipt_for_unique [OF that(2) body_receipt_for [OF assms(2)] that(1) envelope_hash [OF assms(3)]] .
  have "receipts_once S (w\<lparr>w_comments := (w_comments w)(?pr := cs), w_effects_left := n\<rparr>)" for n
    using w cs auth mine unfolding receipts_once_def none_for_def by fastforce
  then show "case post_comment gh ?pr ?b w of (Inl e, w') \<Rightarrow> receipts_once S w' | (Inr a, w') \<Rightarrow> receipts_once S w'"
    using w by (simp add: post_comment_def cc)
qed

lemma post_receipt_receipts:
  assumes "hash_digits (rs_sha256 S)" "github_ok gh" "envelope_validate e = []" "receipt_validate r = []" "matches_envelope r e = []"
  shows "keeps (receipts_once S) (post_receipt S gh e r)"
  unfolding post_receipt_def
proof (rule triple_and_then [OF decide_post [OF assms(2,3)]])
  fix d :: "comment_action \<times> string list"
  obtain action reasons where d: "d = (action, reasons)" by (cases d)
  have post: "triple (receipts_once S) (\<lambda>w. receipts_once S w \<and> none_for w e)
      (and_then (post_comment gh (env_repository e, env_pr_number e) (build_comment_body (rs_sha256 S) e r)) f) (\<lambda>_. receipts_once S)"
    if "\<And>res. keeps (receipts_once S) (f res)" for f :: "(string \<times> string) + string \<Rightarrow> unit cmd"
    by (rule triple_and_then [OF post_comment_receipts [OF assms(2,1,3-5)]]) (rule that)
  show "triple (receipts_once S) (\<lambda>w. receipts_once S w \<and> (fst d = Post \<longrightarrow> none_for w e))
     (case d of (action, reasons) \<Rightarrow> case action of
         Skip \<Rightarrow>
           and_then (record_outcome S (env_chat_key e) (env_request_text_sha256 e) COMMENT_POSTED
                  (''skip; '' @ py_join ''; '' reasons)) (\<lambda>_. sys_exit 0)
       | Post \<Rightarrow>
           and_then (post_comment gh (env_repository e, env_pr_number e) (build_comment_body (rs_sha256 S) e r)) (\<lambda>res.
             case res of
               Inl (name, msg) \<Rightarrow>
                 and_then (record_outcome S (env_chat_key e) (env_request_text_sha256 e) COMMENT_OUTCOME_UNKNOWN
                        (''comment POST raised '' @ name @ '': '' @ take 200 msg)) (\<lambda>_. sys_exit 2)
             | Inr url \<Rightarrow>
                 and_then (record_outcome S (env_chat_key e) (env_request_text_sha256 e) COMMENT_POSTED url) (\<lambda>_. ret ()))
       | Conflict \<Rightarrow> sys_exit 1
       | Unknown \<Rightarrow> sys_exit 1) (\<lambda>_. receipts_once S)"
  proof (cases action)
    case Post
    then show ?thesis unfolding d by (auto intro!: post steps split: sum.split)
  qed (unfold d, auto intro!: steps intro: triple_pre)
qed

interpretation receipts: world_invariant S "receipts_once S" for S
proof
  show "receipts_once S (w\<lparr>w_comments := (w_comments w)(pr := w_comments w pr @ [c])\<rparr>)"
    if "receipts_once S w" "find_markers c = []" for w pr c
  proof -
    have "\<not> receipt_for h c" if "hex_string 64 h" for h using receipt_for_marked [OF _ that, of c] \<open>find_markers c = []\<close> by auto
    then show ?thesis using that(1) by (auto simp: receipts_once_def)
  qed
  show "keeps (receipts_once S) (reconcile S tr e h)" for tr e h
    unfolding reconcile_def by (auto intro!: steps split: option.split thread_inspection.split)
  have "keeps (receipts_once S) (deliver S tr k h body)" for tr k h body
    unfolding deliver_def by (auto intro!: steps split: option.split prod.split)
  then show "keeps (receipts_once S) (inspect_and_deliver S tr k h body)" for tr k h body
    unfolding inspect_and_deliver_def Let_def by (auto intro!: steps split: option.split)
qed (simp_all add: record_receipts post_receipt_receipts, simp_all add: receipts_once_def)

end
