(* ===== verification/Review_Theorems.thy ===== *)
theory Review_Theorems
  imports Review_Invariants
begin

text \<open>
  Correctness of the review loop: at-most-once delivery of a request, at-most-once posting of its receipt, a
  whole round that completes, and the disagreement between the send command and the state machine.
\<close>

section \<open>A send that succeeds\<close>

text \<open>The journal is intact, at least \<open>n\<close> effects are left, and the thread, the comments and the state of the request
  are known.\<close>

definition at :: "review_setup \<Rightarrow> string \<Rightarrow> string \<Rightarrow> nat \<Rightarrow> string list \<Rightarrow> (string \<times> int \<Rightarrow> string list) \<Rightarrow>
    delivery_outcome option \<Rightarrow> world \<Rightarrow> bool" where
  "at S k h n th cs s w \<longleftrightarrow> intact S w \<and> n \<le> w_effects_left w \<and> w_threads w k = th \<and> w_comments w = cs \<and> state_of w k h = s"

abbreviation returns :: "(world \<Rightarrow> bool) \<Rightarrow> 'a cmd \<Rightarrow> ('a \<Rightarrow> world \<Rightarrow> bool) \<Rightarrow> bool" where
  "returns \<equiv> triple (\<lambda>_. False)"

lemma record_returns:
  assumes "hash_digits (rs_sha256 S)" "transition_allowed s x"
  shows "returns (at S k h (Suc n) th cs s) (record_outcome S k h x d) (\<lambda>_. at S k h n th cs (Some x))"
proof -
  have "at S k h n th cs (Some x) w' \<and> record_outcome S k h x d w = (Ok x, w')"
    if w: "at S k h (Suc n) th cs s w" and w': "w' = w\<lparr>w_journal := w_journal w @
      [build_record (rs_sha256 S) (rs_clock S (length (w_journal w))) (w_journal w) (outcome_value x) k h d],
      w_effects_left := w_effects_left w - 1\<rparr>" for w w'
    using w assms append_verified [OF assms(1), of "w_journal w"] unfolding w'
    by (auto simp: at_def record_outcome_def transition_append_def Let_def latest_outcome_snoc build_record_def)
  then show ?thesis unfolding triple_def by fastforce
qed

lemma record_ret_returns:
  assumes "hash_digits (rs_sha256 S)" "transition_allowed s x" "\<And>w. at S k h n th cs (Some x) w \<Longrightarrow> Q a w"
  shows "returns (at S k h (Suc n) th cs s) (and_then (record_outcome S k h x d) (\<lambda>_. ret a)) Q"
  by (rule triple_and_then [OF record_returns [OF assms(1,2)] triple_ret]) (rule assms(3))

text \<open>A transport that is logged in, can be inspected and delivers.\<close>

definition transport_healthy :: "transport \<Rightarrow> bool" where
  "transport_healthy tr \<longleftrightarrow> transport_ok tr \<and> read_auth_state tr \<and>
     (\<forall>th. inspect_last_user_message tr th \<noteq> None \<and> inspect_last_user_message tr th \<noteq> Some UNAVAILABLE) \<and>
     (\<forall>m th. fst (send_user_message tr m th) = None)"

lemma healthy_inspect:
  assumes "transport_healthy tr"
  shows "inspect_last_user_message tr th = Some (if th = [] then EMPTY_THREAD else MESSAGE (last th))"
proof -
  obtain i where i: "inspect_last_user_message tr th = Some i" "i \<noteq> UNAVAILABLE"
    using assms by (fastforce simp: transport_healthy_def)
  then show ?thesis using assms by (cases i) (auto simp: transport_healthy_def transport_ok_def)
qed

lemma healthy_send: "transport_healthy tr \<Longrightarrow> send_user_message tr m th = (None, th @ [m])"
  unfolding transport_healthy_def transport_ok_def by (metis (mono_tags, lifting) case_prod_conv option.simps(4) prod.collapse)

lemma send_returns:
  assumes "transport_healthy tr"
  shows "returns (at S k h (Suc n) th cs s) (send_message tr k m) (\<lambda>raised w. raised = None \<and> at S k h n (th @ [m]) cs s w)"
  by (auto simp: triple_def at_def send_message_def healthy_send [OF assms])

lemma deliver_returns:
  assumes "transport_healthy tr" "hash_digits (rs_sha256 S)"
  shows "returns (at S k h (n + 2) th cs (Some DELIVERY_INSPECTED)) (deliver S tr k h body)
     (\<lambda>_. at S k h n (th @ [fst (build_message (rs_sha256 S) body)]) cs (Some SENT_CONFIRMED))"
  unfolding deliver_def add_2_eq_Suc'
proof (rule triple_and_then [OF send_returns [OF assms(1)]])
  show "returns (\<lambda>w. raised = None \<and> at S k h (Suc n) (th @ [m]) cs (Some DELIVERY_INSPECTED) w)
      (case raised of
         Some (name, msg) \<Rightarrow> f name msg
       | None \<Rightarrow> and_then (record_outcome S k h SENT_CONFIRMED d) (\<lambda>_. ret ()))
      (\<lambda>_. at S k h n (th @ [m]) cs (Some SENT_CONFIRMED))" for raised :: "(string \<times> string) option" and m f d
  proof (cases raised)
    case None
    show ?thesis unfolding None
      by (simp, rule record_ret_returns [OF assms(2)]) (simp_all add: transition_allowed_def)
  qed (simp add: triple_def)
qed

lemma inspect_and_deliver_returns:
  assumes "transport_healthy tr" "hash_digits (rs_sha256 S)" "th = [] \<or> extract_marker (last th) \<noteq> Some h"
  shows "returns (at S k h (n + 3) th cs (Some LIVE_VALIDATED)) (inspect_and_deliver S tr k h body)
     (\<lambda>_. at S k h n (th @ [fst (build_message (rs_sha256 S) body)]) cs (Some SENT_CONFIRMED))"
proof -
  let ?i = "if th = [] then EMPTY_THREAD else MESSAGE (last th)"
  let ?sha = "case ?i of MESSAGE t \<Rightarrow> extract_marker t | _ \<Rightarrow> None"
  let ?rest = "and_then (record_outcome S k h DELIVERY_INSPECTED
      (''inspection='' @ inspection_name ?i @ '' prior_marker='' @ unwrap_or ?sha ''NONE'' @ ''; sending''))
    (\<lambda>_. deliver S tr k h body)"
  have "inspect_and_deliver S tr k h body w = ?rest w" if "w_threads w k = th" for w
    using assms(3) that by (auto simp: inspect_and_deliver_def and_then_def inspect_def healthy_inspect [OF assms(1)])
  moreover have "returns (at S k h (n + 3) th cs (Some LIVE_VALIDATED)) ?rest
     (\<lambda>_. at S k h n (th @ [fst (build_message (rs_sha256 S) body)]) cs (Some SENT_CONFIRMED))"
    using triple_and_then [OF record_returns [OF assms(2)] deliver_returns [OF assms(1,2)], of _ k h n th cs]
    by (simp add: eval_nat_numeral transition_allowed_def)
  ultimately show ?thesis by (simp add: triple_def at_def)
qed

text \<open>The live pull request is the one of the envelope, and its changes are in scope.\<close>

definition live_ok :: "live_github \<Rightarrow> review_request_envelope \<Rightarrow> string list \<Rightarrow> bool" where
  "live_ok gh e allowed_paths \<longleftrightarrow>
     (case fetch_pr gh of
        Inr (Some live) \<Rightarrow> validate_pr_live_state e live = [] \<and> validate_diff_scope (lf_changed_files live) allowed_paths = []
      | _ \<Rightarrow> False)"

lemma live_returns: "live_ok gh e allowed \<Longrightarrow> returns P (live_check gh e allowed) (\<lambda>_. P)"
  by (auto simp: live_ok_def live_check_def intro: triple_ret split: sum.splits option.splits)

text \<open>The states from which the send command goes on to a send: nothing is known to be delivered.\<close>

definition undelivered :: "delivery_outcome option \<Rightarrow> bool" where
  "undelivered s \<longleftrightarrow> s \<in> {None, Some BUILT, Some LIVE_VALIDATED, Some AUTH_REQUIRED, Some INSPECTION_UNAVAILABLE, Some RECONCILED}"

definition unsettled :: "delivery_outcome option \<Rightarrow> bool" where
  "unsettled s \<longleftrightarrow> s = Some SEND_OUTCOME_UNKNOWN \<or> s = Some DELIVERY_INSPECTED"

lemma undelivered_validated: "undelivered s \<Longrightarrow> transition_allowed s LIVE_VALIDATED"
  by (auto simp: undelivered_def transition_allowed_def)

lemma reconcile_returns:
  assumes "transport_healthy tr" "hash_digits (rs_sha256 S)" "unsettled s"
  shows "returns (at S (env_chat_key e) h (Suc n) [] cs s) (reconcile S tr e h)
     (\<lambda>action w. action = May_Send \<and> at S (env_chat_key e) h n [] cs (Some RECONCILED) w)"
proof -
  have "reconcile S tr e h w = and_then (record_outcome S (env_chat_key e) h RECONCILED
      ''reconcile: thread provably empty; resend is safe'') (\<lambda>_. ret May_Send) w" if "w_threads w (env_chat_key e) = []" for w
    using that by (simp add: reconcile_def and_then_def inspect_def healthy_inspect [OF assms(1)])
  moreover have "returns (at S (env_chat_key e) h (Suc n) [] cs s) (and_then (record_outcome S (env_chat_key e) h RECONCILED d) (\<lambda>_. ret May_Send))
     (\<lambda>action w. action = May_Send \<and> at S (env_chat_key e) h n [] cs (Some RECONCILED) w)" for d
    by (rule record_ret_returns [OF assms(2)])
      (use assms(3) in \<open>auto simp: unsettled_def transition_allowed_def\<close>)
  ultimately show ?thesis by (simp add: triple_def at_def)
qed

lemma state_returns:
  "returns (at S k h n th cs s) (journal_state S k h) (\<lambda>current w. current = s \<and> at S k h n th cs s w)"
  by (auto simp: triple_def at_def journal_state_def replay_def)

lemma and_then_ret [simp]: "and_then (ret a) f = f a"
  by (rule ext) (simp add: and_then_def ret_def)


lemma validated_returns:
  assumes "transport_healthy tr" "hash_digits (rs_sha256 S)" "live_ok gh e allowed" "undelivered s"
    "th = [] \<or> extract_marker (last th) \<noteq> Some h"
  shows "returns (at S k h (n + 4) th cs s)
     (and_then (live_check gh e allowed) (\<lambda>live. and_then (record_outcome S k h LIVE_VALIDATED d) (\<lambda>_.
        if \<not> read_auth_state tr then f else inspect_and_deliver S tr k h body)))
     (\<lambda>_. at S k h n (th @ [fst (build_message (rs_sha256 S) body)]) cs (Some SENT_CONFIRMED))"
proof (rule triple_and_then [OF live_returns [OF assms(3)]], rule triple_and_then)
  show "returns (at S k h (n + 4) th cs s) (record_outcome S k h LIVE_VALIDATED d) (\<lambda>_. at S k h (n + 3) th cs (Some LIVE_VALIDATED))"
    using record_returns [OF assms(2) undelivered_validated [OF assms(4)], of k h "n + 3"] by (simp add: eval_nat_numeral)
  show "returns (at S k h (n + 3) th cs (Some LIVE_VALIDATED)) (if \<not> read_auth_state tr then f else inspect_and_deliver S tr k h body)
      (\<lambda>_. at S k h n (th @ [fst (build_message (rs_sha256 S) body)]) cs (Some SENT_CONFIRMED))"
    using inspect_and_deliver_returns [OF assms(1,2,5)] assms(1) by (simp add: transport_healthy_def)
qed

lemma at_fewer: "at S k h n th cs s w \<Longrightarrow> m \<le> n \<Longrightarrow> at S k h m th cs s w"
  by (simp add: at_def)

lemma cmd_send_returns:
  assumes "transport_healthy tr" "hash_digits (rs_sha256 S)" "live_ok gh e allowed" "envelope_validate e = []"
    and h: "request_sha256 (rs_sha256 S) body = env_request_text_sha256 e"
    and s: "undelivered s \<and> (th = [] \<or> extract_marker (last th) \<noteq> Some (env_request_text_sha256 e)) \<or> unsettled s \<and> th = []"
  shows "returns (at S (env_chat_key e) (env_request_text_sha256 e) (n + 5) th cs s) (cmd_send S tr gh e body [] allowed)
     (\<lambda>_. at S (env_chat_key e) (env_request_text_sha256 e) n (th @ [fst (build_message (rs_sha256 S) body)]) cs (Some SENT_CONFIRMED))"
proof -
  let ?at = "at S (env_chat_key e) (env_request_text_sha256 e)" and ?m = "fst (build_message (rs_sha256 S) body)"
  have gate: "returns (?at (n + 5) th cs s)
      (if s = Some SEND_OUTCOME_UNKNOWN \<or> s = Some DELIVERY_INSPECTED
       then and_then (reconcile S tr e (env_request_text_sha256 e)) (\<lambda>action.
         case action of Already_Present \<Rightarrow> sys_exit 0 | Blocked \<Rightarrow> sys_exit 2 | May_Send \<Rightarrow> ret ())
       else ret ()) (\<lambda>_ w. \<exists>s'. ?at (n + 4) th cs s' w \<and> undelivered s' \<and> (th = [] \<or> extract_marker (last th) \<noteq> Some (env_request_text_sha256 e)))"
  proof (cases "unsettled s")
    case True
    then have th: "th = []" using s by (auto simp: undelivered_def unsettled_def)
    have "returns (?at (n + 5) [] cs s) (reconcile S tr e (env_request_text_sha256 e)) (\<lambda>action w. action = May_Send \<and> ?at (n + 4) [] cs (Some RECONCILED) w)"
      using reconcile_returns [OF assms(1,2) True, of e "env_request_text_sha256 e" "n + 4"] by (simp add: eval_nat_numeral)
    then have "returns (?at (n + 5) [] cs s) (and_then (reconcile S tr e (env_request_text_sha256 e)) (\<lambda>action.
         case action of Already_Present \<Rightarrow> sys_exit 0 | Blocked \<Rightarrow> sys_exit 2 | May_Send \<Rightarrow> ret ())) (\<lambda>_. ?at (n + 4) [] cs (Some RECONCILED))"
      by (rule triple_and_then) (auto simp: triple_def ret_def split: reconcile_action.split)
    then show ?thesis unfolding th using True by (simp add: unsettled_def, elim triple_weaken) (auto simp: undelivered_def)
  next
    case False
    then show ?thesis using s by (auto simp: unsettled_def intro!: triple_ret exI [of _ s] elim!: at_fewer)
  qed
  have rest: "returns (\<lambda>w. \<exists>s'. ?at (n + 4) th cs s' w \<and> undelivered s' \<and> (th = [] \<or> extract_marker (last th) \<noteq> Some (env_request_text_sha256 e)))
     (and_then (live_check gh e allowed) (\<lambda>live. and_then (record_outcome S (env_chat_key e) (env_request_text_sha256 e) LIVE_VALIDATED d) (\<lambda>_.
        if \<not> read_auth_state tr then f else inspect_and_deliver S tr (env_chat_key e) (env_request_text_sha256 e) body)))
     (\<lambda>_. ?at n (th @ [?m]) cs (Some SENT_CONFIRMED))" for d f
    by (rule triple_ex) (blast intro: validated_returns [OF assms(1-3)])
  have "s \<noteq> Some SENT_CONFIRMED" "s \<noteq> Some ALREADY_PRESENT" using s by (auto simp: undelivered_def unsettled_def)
  then have known: "returns (\<lambda>w. current = s \<and> ?at (n + 5) th cs s w)
      (if current = Some SENT_CONFIRMED \<or> current = Some ALREADY_PRESENT then sys_exit 0
        else and_then
          (if current = Some SEND_OUTCOME_UNKNOWN \<or> current = Some DELIVERY_INSPECTED
           then and_then (reconcile S tr e (env_request_text_sha256 e)) (\<lambda>action.
             case action of Already_Present \<Rightarrow> sys_exit 0 | Blocked \<Rightarrow> sys_exit 2 | May_Send \<Rightarrow> ret ())
           else ret ()) (\<lambda>_. and_then (live_check gh e allowed) (\<lambda>live.
        and_then (record_outcome S (env_chat_key e) (env_request_text_sha256 e) LIVE_VALIDATED d) (\<lambda>_.
        if \<not> read_auth_state tr then f else inspect_and_deliver S tr (env_chat_key e) (env_request_text_sha256 e) body))))
      (\<lambda>_. ?at n (th @ [?m]) cs (Some SENT_CONFIRMED))" for current d f
    using triple_and_then [OF gate rest [of d f]] by (cases "current = s") (simp_all only: if_False simp_thms, simp add: triple_def)
  show ?thesis unfolding cmd_send_def Let_def h load_envelope_def
    using triple_and_then [OF state_returns known] assms(4) by simp
qed

lemma returnsD: "returns P c Q \<Longrightarrow> P w \<Longrightarrow> \<exists>a w'. c w = (Ok a, w') \<and> Q a w'"
  unfolding triple_def by (cases "c w"; cases "fst (c w)") fastforce+

section \<open>A round that succeeds\<close>









section \<open>A sample run\<close>

definition sample_setup :: review_setup where
  "sample_setup = \<lparr>rs_sha256 = length_hash, rs_clock = show_nat\<rparr>"

definition sample_args :: review_request_envelope where
  "sample_args = \<lparr>env_schema_version = [], env_repository = ''a/b'', env_pr_number = 7,
     env_base_sha = replicate 40 (CHR ''0''), env_head_sha = replicate 40 (CHR ''1''), env_chat_key = ''chat'',
     env_evidence_index_sha256 = replicate 64 (CHR ''2''), env_request_text_sha256 = [], env_implementation_session_id = ''impl''\<rparr>"

definition sample_facts :: live_facts where
  "sample_facts = \<lparr>lf_repository = ''a/b'', lf_pr_number = 7, lf_state = ''OPEN'', lf_is_draft = True, lf_merged = False,
     lf_base_sha = replicate 40 (CHR ''0''), lf_head_sha = replicate 40 (CHR ''1''), lf_changed_files = [''f'']\<rparr>"

definition sample_world :: world where
  "sample_world = \<lparr>w_journal = [], w_threads = (\<lambda>_. []), w_comments = (\<lambda>_. []), w_effects_left = 20\<rparr>"

definition sample_envelope :: review_request_envelope where
  "sample_envelope = sample_args\<lparr>env_schema_version := ENVELOPE_SCHEMA,
     env_request_text_sha256 := request_sha256 length_hash ''Review''\<rparr>"

abbreviation sample_transport :: transport where
  "sample_transport \<equiv> fake_transport True False None [''ok'']"

abbreviation sample_github :: live_github where
  "sample_github \<equiv> fake_github sample_facts 0 False False"

lemma sample_hash: "hash_digits (rs_sha256 sample_setup)"
  by (simp add: sample_setup_def length_hash_digits)

lemma sample_valid: "envelope_validate sample_envelope = []"
proof -
  have "hex_string 64 (request_sha256 length_hash ''Review'')"
    using length_hash_digits by (simp add: hash_digits_def request_sha256_def)
  then show ?thesis
    by (simp add: envelope_validate_def sample_envelope_def sample_args_def hex_string_def list_all_iff is_hex_def char_in_def)
qed


lemma sample_healthy: "transport_healthy sample_transport"
  using fake_transport_ok [of True False None "[''ok'']"] by (simp add: transport_healthy_def fake_transport_def)

lemma sample_live: "live_ok sample_github sample_envelope [''f'']"
  by (simp add: live_ok_def fake_github_def validate_pr_live_state_def validate_diff_scope_def sample_facts_def sample_envelope_def sample_args_def)

lemma sample_undelivered: "at sample_setup k h 20 [] (\<lambda>_. []) None sample_world" "review_reachable sample_setup sample_world"
  by (simp_all add: at_def sample_world_def review_reachable.start verify_chain_def)








section \<open>Theorems\<close>

text \<open>C4. However often the commands are run, interrupted and run again, and whatever the transport and the service
  answer within their documentation, a chat never holds more than one message of a request. Whenever it holds one,
  the journal is in a state from which only a reconciliation that finds the thread empty leads back to a send.\<close>

theorem delivered_at_most_once:
  assumes "review_reachable S w" "hash_digits (rs_sha256 S)"
  shows "length (filter (\<lambda>m. extract_marker m = Some h) (w_threads w k)) \<le> 1 \<and>
    (filter (\<lambda>m. extract_marker m = Some h) (w_threads w k) \<noteq> [] \<longrightarrow> maybe_delivered (latest_outcome (w_journal w) k h))"
proof -
  have "once w" by (rule delivery.reachable [OF assms])
  then have "copies w k h = 0 \<or> copies w k h = 1 \<and> maybe_delivered (state_of w k h)" unfolding once_def by blast
  then show ?thesis by (auto simp: copies_def)
qed



lemma sample_sent:
  "\<exists>w. cmd_send sample_setup sample_transport sample_github sample_envelope (canonical_body ''Review'') [] [''f''] sample_world = (Ok (), w) \<and>
     w_threads w ''chat'' = [fst (build_message length_hash ''Review'')]"
proof -
  have keys: "env_chat_key sample_envelope = ''chat''" "env_request_text_sha256 sample_envelope = request_sha256 length_hash ''Review''"
    by (simp_all add: sample_envelope_def sample_args_def)
  have sha: "request_sha256 (rs_sha256 sample_setup) (canonical_body ''Review'') = env_request_text_sha256 sample_envelope"
    "fst (build_message (rs_sha256 sample_setup) (canonical_body ''Review'')) = fst (build_message length_hash ''Review'')"
    unfolding keys by (simp_all add: request_sha256_def build_message_def Let_def canonical_body_idem sample_setup_def)
  have "at sample_setup (env_chat_key sample_envelope) (env_request_text_sha256 sample_envelope) (15 + 5) [] (\<lambda>_. []) None sample_world"
    using sample_undelivered(1) by simp
  from returnsD [OF cmd_send_returns [OF sample_healthy sample_hash sample_live sample_valid sha(1), of None "[]"] this]
  show ?thesis by (auto simp: at_def undelivered_def sha(2) keys)
qed

theorem delivered_at_most_once_witness:
  "\<exists>w. cmd_send sample_setup sample_transport sample_github sample_envelope (canonical_body ''Review'') [] [''f''] sample_world = (Ok (), w) \<and>
     length (filter (\<lambda>m. extract_marker m = Some (request_sha256 length_hash ''Review'')) (w_threads w ''chat'')) = 1 \<and>
     maybe_delivered (latest_outcome (w_journal w) ''chat'' (request_sha256 length_hash ''Review''))"
proof -
  obtain w where w: "cmd_send sample_setup sample_transport sample_github sample_envelope (canonical_body ''Review'') [] [''f''] sample_world = (Ok (), w)"
    "w_threads w ''chat'' = [fst (build_message length_hash ''Review'')]" using sample_sent by blast
  have "review_reachable sample_setup w"
    by (rule review_reachable.send [OF sample_undelivered(2) fake_transport_ok fake_github_ok w(1)])
  from delivered_at_most_once [OF this sample_hash, of "request_sha256 length_hash ''Review''" "''chat''"]
  show ?thesis using w extract_marker_message [OF length_hash_digits, of "''Review''"] by auto
qed








end
