(* ===== verification/Review_Convergence.thy ===== *)
theory Review_Convergence
  imports Review_Journal
begin

text \<open>
  The review convergence protocol (scripts/agent-control/review\_convergence.py): findings, decisions and round
  states, their validation, the persisted form of a state, and the transitions of the two review rounds. A
  Python dictionary is a \<open>JObject\<close> with its keys in the order of insertion; \<open>Err\<close> is an exception with its
  text. SHA-256 is a parameter.
\<close>

section \<open>Constants\<close>

definition REVIEW_PROTOCOL_VERSION :: string where "REVIEW_PROTOCOL_VERSION = ''review-convergence.v1''"
definition REVIEW_STATE_KIND :: string where "REVIEW_STATE_KIND = ''agent-orchestrator-review-state''"
definition REVIEW_STATE_VERSION :: nat where "REVIEW_STATE_VERSION = 3"
definition MAX_SUBSTANTIVE_REVIEW_ROUNDS :: int where "MAX_SUBSTANTIVE_REVIEW_ROUNDS = 2"
definition MAX_AUTONOMOUS_REPAIR_BATCHES :: int where "MAX_AUTONOMOUS_REPAIR_BATCHES = 1"
definition INITIAL_AUTONOMOUS_REPAIRS_REMAINING :: int where
  "INITIAL_AUTONOMOUS_REPAIRS_REMAINING = MAX_AUTONOMOUS_REPAIR_BATCHES"
definition REVIEW_MODES :: "string list" where "REVIEW_MODES = [''full'', ''repair_verification'']"
definition SEVERITIES :: "string list" where "SEVERITIES = [''blocker'', ''major'', ''minor'', ''note'']"
definition DISPOSITIONS :: "string list" where "DISPOSITIONS = [''block_current_head'', ''defer'', ''decision_required'']"
definition SCOPE_RELATIONS :: "string list" where
  "SCOPE_RELATIONS = [''in_scope'', ''out_of_scope'', ''in_packet'', ''out_of_packet'']"
definition FINDING_STATUSES :: "string list" where "FINDING_STATUSES = [''open'', ''resolved'', ''deferred'']"
definition ADMISSION_REASONS :: "string list" where
  "ADMISSION_REASONS = [''repair_regression'', ''prior_evidence_unavailable'', ''hard_stop_miss'']"
definition CONTROL_VERDICTS :: "string list" where
  "CONTROL_VERDICTS = [''PASS'', ''PASS_WITH_NOTES'', ''BLOCKED'', ''FAIL'', ''DECISION_REQUIRED'', ''INVALIDATED'']"
definition MAX_FINDINGS :: nat where "MAX_FINDINGS = 200"
definition MAX_SUMMARY_LEN :: nat where "MAX_SUMMARY_LEN = 2000"

definition finding_id_char :: "char \<Rightarrow> bool" where
  "finding_id_char c \<longleftrightarrow> char_in c 65 90 \<or> char_in c 97 122 \<or> char_in c 48 57 \<or> c \<in> set ''._:/-''"

definition finding_id_ok :: "string \<Rightarrow> bool" where
  "finding_id_ok s \<longleftrightarrow> 1 \<le> length s \<and> length s \<le> 160 \<and> list_all finding_id_char s"

section \<open>Python values\<close>

text \<open>\<^verbatim>\<open>d.get(key)\<close>, an integer that is not a bool, truth and iteration. A float is its \<^verbatim>\<open>repr\<close>.\<close>

definition dget :: "(string \<times> json) list \<Rightarrow> string \<Rightarrow> json" where
  "dget d k = (case map_of d k of None \<Rightarrow> JNull | Some v \<Rightarrow> v)"

fun as_int :: "json \<Rightarrow> int option" where
  "as_int (JNumber (PosInt n)) = Some (int n)"
| "as_int (JNumber (NegInt i)) = Some i"
| "as_int _ = None"

fun py_truthy :: "json \<Rightarrow> bool" where
  "py_truthy JNull = False"
| "py_truthy (JBool b) = b"
| "py_truthy (JNumber (PosInt n)) = (n \<noteq> 0)"
| "py_truthy (JNumber (NegInt i)) = (i \<noteq> 0)"
| "py_truthy (JNumber (Float s)) = list_ex (\<lambda>c. char_in c 49 57) (takeWhile (\<lambda>c. c \<noteq> CHR ''e'') s)"
| "py_truthy (JString s) = (s \<noteq> [])"
| "py_truthy (JArray xs) = (xs \<noteq> [])"
| "py_truthy (JObject m) = (m \<noteq> [])"

definition py_or :: "json \<Rightarrow> json \<Rightarrow> json" where
  "py_or a b = (if py_truthy a then a else b)"

fun py_iter :: "json \<Rightarrow> (string, json list) result" where
  "py_iter (JArray xs) = Ok xs"
| "py_iter (JString s) = Ok (map (\<lambda>c. JString [c]) s)"
| "py_iter (JObject m) = Ok (map (JString \<circ> fst) m)"
| "py_iter _ = Err ''object is not iterable''"

definition py_repr_list :: "string list \<Rightarrow> string" where
  "py_repr_list ss = ''['' @ py_join '', '' (map py_repr ss) @ '']''"

text \<open>\<^verbatim>\<open>str\<close>, \<^verbatim>\<open>int\<close> and \<^verbatim>\<open>repr\<close> of a JSON value; \<^verbatim>\<open>int\<close> raises where it is \<open>None\<close>.\<close>

record py_builtins =
  bi_str :: "json \<Rightarrow> string"
  bi_int :: "json \<Rightarrow> int option"
  bi_repr :: "json \<Rightarrow> string"

definition require :: "bool \<Rightarrow> string \<Rightarrow> (string, unit) result" where
  "require b reason = (if b then Ok () else Err reason)"

section \<open>Findings\<close>

record review_finding =
  rf_id :: string
  rf_axis :: string
  rf_evidence :: string
  rf_severity :: string
  rf_disposition :: string
  rf_scope_relation :: string
  rf_origin_head :: string
  rf_acceptance_condition :: string
  rf_status :: string
  rf_admission_reason :: "string option"

definition finding_to_dict :: "review_finding \<Rightarrow> json" where
  "finding_to_dict f = JObject
     ([(''id'', JString (rf_id f)), (''axis'', JString (rf_axis f)), (''evidence'', JString (rf_evidence f)),
       (''severity'', JString (rf_severity f)), (''disposition'', JString (rf_disposition f)),
       (''scope_relation'', JString (rf_scope_relation f)), (''origin_head'', JString (rf_origin_head f)),
       (''acceptance_condition'', JString (rf_acceptance_condition f)), (''status'', JString (rf_status f))] @
      (case rf_admission_reason f of None \<Rightarrow> [] | Some r \<Rightarrow> [(''admission_reason'', JString r)]))"

definition open_blocker :: "review_finding \<Rightarrow> bool" where
  "open_blocker f \<longleftrightarrow> rf_disposition f = ''block_current_head'' \<and> rf_status f = ''open''"

definition deferred_note :: "review_finding \<Rightarrow> bool" where
  "deferred_note f \<longleftrightarrow> rf_disposition f = ''defer'' \<or> rf_status f = ''deferred''"

definition open_decision :: "review_finding \<Rightarrow> bool" where
  "open_decision f \<longleftrightarrow> rf_disposition f = ''decision_required'' \<and> rf_status f = ''open''"

definition FINDING_KEYS :: "string list" where
  "FINDING_KEYS = [''axis'', ''evidence'', ''severity'', ''disposition'', ''scope_relation'', ''origin_head'',
     ''acceptance_condition'', ''status'']"

text \<open>The member of a closed set of strings.\<close>

definition str_in :: "string list \<Rightarrow> json \<Rightarrow> bool" where
  "str_in allowed v = (case v of JString s \<Rightarrow> s \<in> set allowed | _ \<Rightarrow> False)"

definition str_of :: "json \<Rightarrow> string" where
  "str_of v = (case v of JString s \<Rightarrow> s | _ \<Rightarrow> [])"

text \<open>The checks on the keys and the values of a finding.\<close>

definition finding_checks :: "(string \<times> json) list \<Rightarrow> (string, unit) result" where
  "finding_checks d =
     (let unknown = sort (filter (\<lambda>k. k \<notin> set ([''id''] @ FINDING_KEYS @ [''admission_reason''])) (remdups (map fst d))) in
      bind_result (require (case dget d ''id'' of JString s \<Rightarrow> finding_id_ok s | _ \<Rightarrow> False) ''finding id is invalid'') (\<lambda>_.
      bind_result (case find (\<lambda>k. k \<notin> set (map fst d)) FINDING_KEYS of
          None \<Rightarrow> Ok () | Some k \<Rightarrow> Err (''finding missing '' @ k)) (\<lambda>_.
      bind_result (require (unknown = []) (''finding has unexpected keys: '' @ py_repr_list unknown)) (\<lambda>_.
      bind_result (case find (\<lambda>k. as_str (dget d k) = None) [''axis'', ''evidence'', ''acceptance_condition''] of
          None \<Rightarrow> Ok () | Some k \<Rightarrow> Err (''finding '' @ k @ '' must be a string'')) (\<lambda>_.
      bind_result (require (str_in SEVERITIES (dget d ''severity'')) ''invalid severity'') (\<lambda>_.
      bind_result (require (str_in DISPOSITIONS (dget d ''disposition'')) ''invalid disposition'') (\<lambda>_.
      bind_result (require (str_in SCOPE_RELATIONS (dget d ''scope_relation'')) ''invalid scope_relation'') (\<lambda>_.
      bind_result (require (str_in FINDING_STATUSES (dget d ''status'')) ''invalid status'') (\<lambda>_.
      bind_result (require (dget d ''admission_reason'' = JNull \<or> str_in ADMISSION_REASONS (dget d ''admission_reason''))
        ''invalid admission_reason'') (\<lambda>_.
      require (case dget d ''origin_head'' of JString s \<Rightarrow> hex_string 40 s | _ \<Rightarrow> False) ''origin_head is invalid''))))))))))"

definition finding_of :: "(string \<times> json) list \<Rightarrow> review_finding" where
  "finding_of d =
     \<lparr>rf_id = str_of (dget d ''id''), rf_axis = take 200 (str_of (dget d ''axis'')),
      rf_evidence = take (MAX_NOTE_LEN * 6) (str_of (dget d ''evidence'')), rf_severity = str_of (dget d ''severity''),
      rf_disposition = str_of (dget d ''disposition''), rf_scope_relation = str_of (dget d ''scope_relation''),
      rf_origin_head = str_of (dget d ''origin_head''),
      rf_acceptance_condition = take (MAX_NOTE_LEN * 2) (str_of (dget d ''acceptance_condition'')),
      rf_status = str_of (dget d ''status''), rf_admission_reason = as_str (dget d ''admission_reason'')\<rparr>"

definition normalize_finding :: "json \<Rightarrow> (string, review_finding) result" where
  "normalize_finding raw =
     (case raw of
        JObject d \<Rightarrow> bind_result (finding_checks d) (\<lambda>_. Ok (finding_of d))
      | _ \<Rightarrow> Err ''finding must be an object'')"

text \<open>\<^verbatim>\<open>json.dumps(..., ensure_ascii=False)\<close> of a string: only quotes, backslashes and control characters are escaped.\<close>

definition json_raw_char :: "char \<Rightarrow> string" where
  "json_raw_char c = (if (127 :: nat) \<le> of_char c then [c] else json_escape_char c)"

definition json_raw_str :: "string \<Rightarrow> string" where
  "json_raw_str s = [dquote] @ concat (map json_raw_char s) @ [dquote]"

definition json_raw_field :: "string \<Rightarrow> string \<Rightarrow> string" where
  "json_raw_field k v = json_raw_str k @ '':'' @ json_raw_str v"

definition ledger_row :: "review_finding \<Rightarrow> string" where
  "ledger_row f = [CHR 0x7B] @ py_join '',''
     [json_raw_field ''acceptance_condition'' (rf_acceptance_condition f), json_raw_field ''disposition'' (rf_disposition f),
      json_raw_field ''id'' (rf_id f), json_raw_field ''origin_head'' (rf_origin_head f),
      json_raw_field ''severity'' (rf_severity f), json_raw_field ''status'' (rf_status f)] @ [CHR 0x7D]"

definition ledger_text :: "review_finding list \<Rightarrow> string" where
  "ledger_text findings = ''['' @ py_join '','' (map ledger_row (sort_key rf_id findings)) @ '']''"

definition ledger_digest :: "(string \<Rightarrow> string) \<Rightarrow> review_finding list \<Rightarrow> string" where
  "ledger_digest sha256 findings = sha256 (ledger_text findings)"

section \<open>Decisions\<close>

record review_decision =
  rd_verdict :: string
  rd_summary :: string
  rd_reviewed_base :: string
  rd_reviewed_head :: string
  rd_reviewed_range :: string
  rd_review_mode :: string
  rd_review_round :: int
  rd_findings :: "review_finding list"
  rd_prior_reviewed_head :: string
  rd_findings_structured :: bool
  rd_security_ok :: bool
  rd_rollback_ok :: bool
  rd_observed_ci_status :: string

definition open_blocker_ids :: "review_finding list \<Rightarrow> string list" where
  "open_blocker_ids fs = map rf_id (filter open_blocker fs)"

definition deferred_note_ids :: "review_finding list \<Rightarrow> string list" where
  "deferred_note_ids fs = map rf_id (filter deferred_note fs)"

definition decision_required_ids :: "review_finding list \<Rightarrow> string list" where
  "decision_required_ids fs = map rf_id (filter open_decision fs)"

definition validate_decision_cross_fields :: "review_decision \<Rightarrow> (string, unit) result" where
  "validate_decision_cross_fields d =
     (let open_blockers = open_blocker_ids (rd_findings d); open_decisions = decision_required_ids (rd_findings d);
          notes = require (length (deferred_note_ids (rd_findings d)) \<le> MAX_DEFERRED_NOTES) ''too many deferred notes'' in
      bind_result (require (rd_review_mode d \<in> set REVIEW_MODES) ''invalid review_mode'') (\<lambda>_.
      bind_result (require (rd_verdict d = ''INVALIDATED'' \<or> 1 \<le> rd_review_round d \<and> rd_review_round d \<le> MAX_SUBSTANTIVE_REVIEW_ROUNDS)
        ''review_round must be within the substantive review round budget'') (\<lambda>_.
      if rd_verdict d = ''PASS'' then
        bind_result (require (open_blockers = []) ''PASS cannot have open blockers'') (\<lambda>_.
        bind_result (require (open_decisions = []) ''PASS cannot have open decision_required'') (\<lambda>_.
        bind_result (require (rd_security_ok d \<and> rd_rollback_ok d) ''PASS requires security_ok and rollback_ok'') (\<lambda>_. notes)))
      else if rd_verdict d = ''PASS_WITH_NOTES'' then
        bind_result (require (open_blockers = []) ''PASS_WITH_NOTES cannot have open blockers'') (\<lambda>_. notes)
      else if rd_verdict d = ''BLOCKED'' then
        bind_result (require (open_blockers \<noteq> []) ''BLOCKED requires open blockers'') (\<lambda>_. notes)
      else if rd_verdict d = ''DECISION_REQUIRED'' then
        bind_result (require (open_decisions \<noteq> [] \<or> rd_review_mode d = ''repair_verification'' \<and> open_blockers \<noteq> [])
          ''DECISION_REQUIRED requires open decision_required or R2 open blockers'') (\<lambda>_. notes)
      else notes)))"

section \<open>Legacy artifacts\<close>

text \<open>\<^verbatim>\<open>str(v)\<close>: a string is itself.\<close>

definition py_str :: "py_builtins \<Rightarrow> json \<Rightarrow> string" where
  "py_str P v = (case v of JString s \<Rightarrow> s | _ \<Rightarrow> bi_str P v)"

definition legacy_blocker :: "string \<Rightarrow> nat \<Rightarrow> string \<Rightarrow> review_finding" where
  "legacy_blocker origin_head index body =
     \<lparr>rf_id = ''blocker-'' @ show_nat (index + 1), rf_axis = ''legacy'', rf_evidence = take MAX_NOTE_LEN body, rf_severity = ''blocker'',
      rf_disposition = ''block_current_head'', rf_scope_relation = ''in_scope'', rf_origin_head = origin_head,
      rf_acceptance_condition = take MAX_NOTE_LEN body, rf_status = ''open'', rf_admission_reason = None\<rparr>"

definition legacy_note :: "string \<Rightarrow> string \<Rightarrow> nat \<Rightarrow> string \<Rightarrow> review_finding" where
  "legacy_note severity origin_head index body =
     \<lparr>rf_id = severity @ ''-'' @ show_nat (index + 1), rf_axis = ''legacy'', rf_evidence = take MAX_NOTE_LEN body, rf_severity = severity,
      rf_disposition = ''defer'', rf_scope_relation = ''in_scope'', rf_origin_head = origin_head,
      rf_acceptance_condition = ''deferred residual risk'', rf_status = ''deferred'', rf_admission_reason = None\<rparr>"

fun legacy_blockers :: "string \<Rightarrow> nat \<Rightarrow> json list \<Rightarrow> (string, review_finding list) result" where
  "legacy_blockers origin_head index [] = Ok []"
| "legacy_blockers origin_head index (v # vs) =
     (case v of
        JString body \<Rightarrow>
          if py_strip body = [] then Err ''blocker text is invalid''
          else bind_result (legacy_blockers origin_head (index + 1) vs) (\<lambda>fs. Ok (legacy_blocker origin_head index body # fs))
      | _ \<Rightarrow> Err ''blocker text is invalid'')"

text \<open>The lists are what remains of \<^verbatim>\<open>artifact.get(...) or []\<close>.\<close>

definition findings_from_legacy_lists :: "py_builtins \<Rightarrow> json \<Rightarrow> json \<Rightarrow> json \<Rightarrow> string \<Rightarrow> (string, review_finding list) result" where
  "findings_from_legacy_lists P blockers major_notes minor_notes origin_head =
     bind_result (py_iter blockers) (\<lambda>bs.
     bind_result (legacy_blockers origin_head 0 bs) (\<lambda>blocker_findings.
     bind_result (py_iter major_notes) (\<lambda>majors.
     bind_result (py_iter minor_notes) (\<lambda>minors.
       let findings = blocker_findings @ map (\<lambda>(i, v). legacy_note ''major'' origin_head i (py_str P v)) (enumerate 0 majors) @
             map (\<lambda>(i, v). legacy_note ''minor'' origin_head i (py_str P v)) (enumerate 0 minors)
       in bind_result (require (length findings \<le> MAX_FINDINGS) ''too many findings'') (\<lambda>_. Ok findings)))))"

fun normalize_findings :: "json list \<Rightarrow> (string, review_finding list) result" where
  "normalize_findings [] = Ok []"
| "normalize_findings (v # vs) =
     bind_result (normalize_finding v) (\<lambda>f. bind_result (normalize_findings vs) (\<lambda>fs. Ok (f # fs)))"

definition artifact_findings :: "py_builtins \<Rightarrow> (string \<times> json) list \<Rightarrow> string \<Rightarrow> (string, review_finding list \<times> bool) result" where
  "artifact_findings P artifact head =
     (if dget artifact ''findings'' \<noteq> JNull
      then case dget artifact ''findings'' of
          JArray items \<Rightarrow>
            bind_result (require (list_all (\<lambda>field. dget artifact field = JNull \<or> dget artifact field = JArray [])
                [''blockers'', ''major_notes'', ''minor_notes''])
              ''structured findings cannot be mixed with legacy finding lists'') (\<lambda>_.
            bind_result (normalize_findings items) (\<lambda>fs. Ok (fs, True)))
        | _ \<Rightarrow> Err ''findings must be a list''
      else bind_result (findings_from_legacy_lists P (py_or (dget artifact ''blockers'') (JArray []))
          (py_or (dget artifact ''major_notes'') (JArray [])) (py_or (dget artifact ''minor_notes'') (JArray [])) head)
        (\<lambda>fs. Ok (fs, False)))"

text \<open>\<^verbatim>\<open>v not in allowed\<close> raises on a value that cannot be hashed; either way the artifact is refused.\<close>

definition artifact_base :: "py_builtins \<Rightarrow> (string \<times> json) list \<Rightarrow> string \<Rightarrow> string" where
  "artifact_base P artifact base_sha =
     (let zeros = replicate 40 (CHR ''0'');
          base = py_str P (py_or (dget artifact ''reviewed_base'') (py_or (JString base_sha) (JString zeros)))
      in if hex_string 40 base then base
         else if base_sha \<noteq> [] \<and> hex_string 40 base_sha then base_sha else zeros)"

definition artifact_ci_status :: "py_builtins \<Rightarrow> (string \<times> json) list \<Rightarrow> string" where
  "artifact_ci_status P artifact =
     (if ''observed_ci_status'' \<in> set (map fst artifact)
      then py_str P (py_or (dget artifact ''observed_ci_status'') (JString ''unknown''))
      else if ''ci_green'' \<in> set (map fst artifact)
      then (if dget artifact ''ci_green'' = JBool True then ''model_reported_green'' else ''model_reported_not_green'')
      else ''unknown'')"

definition get_bool :: "(string \<times> json) list \<Rightarrow> string \<Rightarrow> bool option" where
  "get_bool d k = (case map_of d k of None \<Rightarrow> Some True | Some v \<Rightarrow> as_bool v)"

definition artifact_head :: "(string \<times> json) list \<Rightarrow> json" where
  "artifact_head a = py_or (dget a ''reviewed_head_sha'') (dget a ''reviewed_head'')"

definition artifact_mode :: "(string \<times> json) list \<Rightarrow> string \<Rightarrow> json" where
  "artifact_mode a review_mode = py_or (dget a ''review_mode'') (JString review_mode)"

definition artifact_round :: "py_builtins \<Rightarrow> (string \<times> json) list \<Rightarrow> int \<Rightarrow> (string, int) result" where
  "artifact_round P a review_round =
     (if \<not> py_truthy (dget a ''review_round'') then Ok review_round
      else case bi_int P (dget a ''review_round'') of None \<Rightarrow> Err ''invalid literal for int()'' | Some i \<Rightarrow> Ok i)"

definition artifact_flags :: "(string \<times> json) list \<Rightarrow> (string, bool \<times> bool) result" where
  "artifact_flags a =
     (case get_bool a ''security_ok'' of
        None \<Rightarrow> Err ''security_ok/rollback_ok must be booleans''
      | Some security_ok \<Rightarrow>
          (case get_bool a ''rollback_ok'' of
             None \<Rightarrow> Err ''security_ok/rollback_ok must be booleans''
           | Some rollback_ok \<Rightarrow> Ok (security_ok, rollback_ok)))"

text \<open>The decision, once the fields are known.\<close>

definition artifact_decision :: "py_builtins \<Rightarrow> (string \<times> json) list \<Rightarrow> string \<Rightarrow> string \<Rightarrow> string \<Rightarrow> review_finding list \<times> bool \<Rightarrow>
    bool \<times> bool \<Rightarrow> int \<Rightarrow> review_decision" where
  "artifact_decision P a review_mode base_sha prior_reviewed_head findings flags review_round =
     (let head = str_of (artifact_head a); base = artifact_base P a base_sha in
      \<lparr>rd_verdict = str_of (dget a ''verdict''), rd_summary = str_of (dget a ''summary''), rd_reviewed_base = base,
       rd_reviewed_head = head,
       rd_reviewed_range = py_str P (py_or (dget a ''reviewed_range'') (JString (base @ ''...'' @ head))),
       rd_review_mode = str_of (artifact_mode a review_mode), rd_review_round = review_round, rd_findings = fst findings,
       rd_prior_reviewed_head = py_str P (py_or (dget a ''prior_reviewed_head'') (JString prior_reviewed_head)),
       rd_findings_structured = snd findings, rd_security_ok = fst flags, rd_rollback_ok = snd flags,
       rd_observed_ci_status = artifact_ci_status P a\<rparr>)"

definition decision_from_legacy_artifact :: "py_builtins \<Rightarrow> json \<Rightarrow> string \<Rightarrow> int \<Rightarrow> string \<Rightarrow> string \<Rightarrow>
    (string, review_decision) result" where
  "decision_from_legacy_artifact P artifact review_mode review_round base_sha prior_reviewed_head =
     (case as_object artifact of
        None \<Rightarrow> Err ''artifact must be an object''
      | Some a \<Rightarrow>
          bind_result (require (str_in (filter (\<lambda>v. v \<noteq> ''INVALIDATED'') CONTROL_VERDICTS) (dget a ''verdict''))
            (''unsupported verdict '' @ bi_repr P (dget a ''verdict''))) (\<lambda>_.
          bind_result (require (as_str (artifact_head a) \<noteq> None \<and> hex_string 40 (str_of (artifact_head a))) ''reviewed head is invalid'') (\<lambda>_.
          bind_result (require (as_str (dget a ''summary'') \<noteq> None \<and> 1 \<le> length (str_of (dget a ''summary'')) \<and>
              length (str_of (dget a ''summary'')) \<le> MAX_SUMMARY_LEN) ''summary is invalid'') (\<lambda>_.
          bind_result (artifact_findings P a (str_of (artifact_head a))) (\<lambda>findings.
          bind_result (require (str_in REVIEW_MODES (artifact_mode a review_mode)) ''review_mode is invalid'') (\<lambda>_.
          bind_result (artifact_flags a) (\<lambda>flags.
          bind_result (artifact_round P a review_round) (\<lambda>round.
            let decision = artifact_decision P a review_mode base_sha prior_reviewed_head findings flags round
            in bind_result (validate_decision_cross_fields decision) (\<lambda>_. Ok decision)))))))))"

section \<open>Round states\<close>

record review_round_state =
  rs_review_protocol_version :: string
  rs_review_mode :: string
  rs_review_round :: int
  rs_prior_reviewed_head :: string
  rs_reviewed_base :: string
  rs_reviewed_head :: string
  rs_reviewed_range :: string
  rs_verdict :: string
  rs_findings :: "json list"
  rs_finding_ledger_digest :: string
  rs_open_blocker_ids :: "string list"
  rs_deferred_note_ids :: "string list"
  rs_decision_required_ids :: "string list"
  rs_autonomous_repairs_remaining :: int
  rs_stop_reason :: string
  rs_artifact_sha256 :: string
  rs_review_workflow_run_id :: "int option"
  rs_summary :: string
  rs_blockers :: "string list"
  rs_major_notes :: "string list"
  rs_minor_notes :: "string list"

definition json_int :: "int \<Rightarrow> json" where
  "json_int i = JNumber (if 0 \<le> i then PosInt (nat i) else NegInt i)"

definition json_strings :: "string list \<Rightarrow> json" where
  "json_strings ss = JArray (map JString ss)"

definition to_persistence_fields :: "review_round_state \<Rightarrow> (string \<times> json) list" where
  "to_persistence_fields s =
     [(''kind'', JString REVIEW_STATE_KIND), (''version'', json_int (int REVIEW_STATE_VERSION)),
      (''review_protocol_version'', JString (rs_review_protocol_version s)), (''review_mode'', JString (rs_review_mode s)),
      (''review_round'', json_int (rs_review_round s)), (''prior_reviewed_head'', JString (rs_prior_reviewed_head s)),
      (''base_sha'', JString (rs_reviewed_base s)), (''head_sha'', JString (rs_reviewed_head s)),
      (''reviewed_range'', JString (rs_reviewed_range s)), (''verdict'', JString (rs_verdict s)),
      (''findings'', JArray (rs_findings s)), (''finding_ledger_digest'', JString (rs_finding_ledger_digest s)),
      (''open_blocker_ids'', json_strings (rs_open_blocker_ids s)), (''deferred_note_ids'', json_strings (rs_deferred_note_ids s)),
      (''decision_required_ids'', json_strings (rs_decision_required_ids s)),
      (''autonomous_repairs_remaining'', json_int (rs_autonomous_repairs_remaining s)),
      (''stop_reason'', JString (rs_stop_reason s)), (''artifact_sha256'', JString (rs_artifact_sha256 s)),
      (''review_workflow_run_id'', case rs_review_workflow_run_id s of None \<Rightarrow> JNull | Some i \<Rightarrow> json_int i),
      (''summary'', JString (rs_summary s)), (''blockers'', json_strings (rs_blockers s)),
      (''major_notes'', json_strings (rs_major_notes s)), (''minor_notes'', json_strings (rs_minor_notes s))]"

definition V3_REVIEW_STATE_FIELDS :: "string list" where
  "V3_REVIEW_STATE_FIELDS =
     [''kind'', ''version'', ''review_protocol_version'', ''review_mode'', ''review_round'', ''prior_reviewed_head'', ''base_sha'',
      ''head_sha'', ''reviewed_range'', ''verdict'', ''findings'', ''finding_ledger_digest'', ''open_blocker_ids'',
      ''deferred_note_ids'', ''decision_required_ids'', ''autonomous_repairs_remaining'', ''stop_reason'', ''artifact_sha256'',
      ''review_workflow_run_id'', ''summary'', ''blockers'', ''major_notes'', ''minor_notes'']"

text \<open>The evidence of the findings that the older readers see.\<close>

definition blocker_texts :: "review_finding list \<Rightarrow> string list" where
  "blocker_texts fs = map rf_evidence (filter open_blocker fs)"

definition major_texts :: "review_finding list \<Rightarrow> string list" where
  "major_texts fs = map rf_evidence (filter (\<lambda>f. rf_severity f = ''major'' \<and> deferred_note f) fs)"

definition minor_texts :: "review_finding list \<Rightarrow> string list" where
  "minor_texts fs = map rf_evidence (filter (\<lambda>f. rf_severity f \<in> {''minor'', ''note''} \<and> deferred_note f) fs)"

section \<open>Validation of a persisted state\<close>

text \<open>Up to the verdict: the base, the head and the round.\<close>

definition v3_header :: "(string \<times> json) list \<Rightarrow> (string, string \<times> string \<times> int) result" where
  "v3_header s =
     bind_result (require (list_all (\<lambda>k. k \<in> set (map fst s)) V3_REVIEW_STATE_FIELDS) ''incomplete_v3_state'') (\<lambda>_.
     bind_result (require (dget s ''kind'' = JString REVIEW_STATE_KIND) ''invalid_review_state_kind'') (\<lambda>_.
     bind_result (require (as_int (dget s ''version'') = Some (int REVIEW_STATE_VERSION)) ''unsupported_review_state_version'') (\<lambda>_.
     bind_result (require (dget s ''review_protocol_version'' = JString REVIEW_PROTOCOL_VERSION)
       ''invalid_review_protocol_version'') (\<lambda>_.
     bind_result (require (str_in REVIEW_MODES (dget s ''review_mode'')) ''invalid_review_mode'') (\<lambda>_.
     case as_int (dget s ''review_round'') of
       None \<Rightarrow> Err ''invalid_review_round''
     | Some review_round \<Rightarrow>
         let base_sha = str_of (dget s ''base_sha''); head_sha = str_of (dget s ''head_sha''); prior = dget s ''prior_reviewed_head'' in
         bind_result (require (1 \<le> review_round \<and> review_round \<le> MAX_SUBSTANTIVE_REVIEW_ROUNDS) ''invalid_review_round'') (\<lambda>_.
         bind_result (require (str_of (dget s ''review_mode'') = (if review_round = 1 then ''full'' else ''repair_verification''))
           ''invalid_review_mode_round_pair'') (\<lambda>_.
         bind_result (require (as_str (dget s ''base_sha'') \<noteq> None \<and> hex_string 40 base_sha) ''invalid_review_base'') (\<lambda>_.
         bind_result (require (as_str (dget s ''head_sha'') \<noteq> None \<and> hex_string 40 head_sha) ''invalid_review_head'') (\<lambda>_.
         bind_result (require (case map_of s ''reviewed_head'' of None \<Rightarrow> True | Some v \<Rightarrow> v = JString head_sha)
           ''conflicting_review_head'') (\<lambda>_.
         bind_result (require (prior = JString [] \<or> as_str prior \<noteq> None \<and> hex_string 40 (str_of prior))
           ''invalid_prior_reviewed_head'') (\<lambda>_.
         bind_result (require (dget s ''reviewed_range'' = JString (base_sha @ ''...'' @ head_sha)) ''invalid_reviewed_range'') (\<lambda>_.
         bind_result (require (str_in CONTROL_VERDICTS (dget s ''verdict'')) ''invalid_review_verdict'') (\<lambda>_.
         Ok (base_sha, head_sha, review_round))))))))))))))"

text \<open>The findings, their identifiers and their digest.\<close>

definition v3_findings :: "(string \<Rightarrow> string) \<Rightarrow> (string \<times> json) list \<Rightarrow> (string, review_finding list) result" where
  "v3_findings sha256 s =
     (case dget s ''findings'' of
        JArray raw \<Rightarrow>
          bind_result (require (length raw \<le> MAX_FINDINGS) ''invalid_findings'') (\<lambda>_.
          case normalize_findings raw of
            Err _ \<Rightarrow> Err ''invalid_findings''
          | Ok findings \<Rightarrow>
              bind_result (require (distinct (map rf_id findings)) ''duplicate_finding_ids'') (\<lambda>_.
              bind_result (require (as_str (dget s ''finding_ledger_digest'') \<noteq> None \<and> hex_string 64 (str_of (dget s ''finding_ledger_digest'')))
                ''invalid_finding_ledger_digest'') (\<lambda>_.
              bind_result (require (ledger_digest sha256 findings = str_of (dget s ''finding_ledger_digest''))
                ''finding_ledger_digest_mismatch'') (\<lambda>_.
              Ok findings))))
      | _ \<Rightarrow> Err ''invalid_findings'')"

text \<open>A list of identifiers that has to be the expected one.\<close>

definition v3_ids :: "(string \<times> json) list \<Rightarrow> string \<Rightarrow> string list \<Rightarrow> (string, unit) result" where
  "v3_ids s field expected =
     require (length expected \<le> MAX_FINDINGS \<and> distinct expected \<and> dget s field = json_strings expected) (''invalid_'' @ field)"

definition v3_projections :: "(string \<times> json) list \<Rightarrow> review_finding list \<Rightarrow> (string, unit) result" where
  "v3_projections s fs =
     bind_result (v3_ids s ''open_blocker_ids'' (open_blocker_ids fs)) (\<lambda>_.
     bind_result (v3_ids s ''deferred_note_ids'' (deferred_note_ids fs)) (\<lambda>_.
     bind_result (v3_ids s ''decision_required_ids'' (decision_required_ids fs)) (\<lambda>_.
     require (dget s ''blockers'' = json_strings (blocker_texts fs) \<and> dget s ''major_notes'' = json_strings (major_texts fs) \<and>
         dget s ''minor_notes'' = json_strings (minor_texts fs)) ''review_note_projection_mismatch'')))"

definition v3_rest :: "(string \<times> json) list \<Rightarrow> (string, unit) result" where
  "v3_rest s =
     (let strings = (\<lambda>k. case dget s k of JArray xs \<Rightarrow> list_all (\<lambda>v. as_str v \<noteq> None) xs | _ \<Rightarrow> False);
          sha = str_of (dget s ''artifact_sha256''); run = dget s ''review_workflow_run_id'' in
      bind_result (require (case as_int (dget s ''autonomous_repairs_remaining'') of
            None \<Rightarrow> False | Some n \<Rightarrow> 0 \<le> n \<and> n \<le> MAX_AUTONOMOUS_REPAIR_BATCHES) ''invalid_repair_budget'') (\<lambda>_.
      bind_result (require (as_str (dget s ''stop_reason'') \<noteq> None) ''invalid_stop_reason'') (\<lambda>_.
      bind_result (require (as_str (dget s ''artifact_sha256'') \<noteq> None \<and> (sha = [] \<or> hex_string 64 sha)) ''invalid_artifact_sha256'') (\<lambda>_.
      bind_result (require (run = JNull \<or> (case as_int run of None \<Rightarrow> False | Some i \<Rightarrow> 0 \<le> i)) ''invalid_review_workflow_run_id'') (\<lambda>_.
      bind_result (require (as_str (dget s ''summary'') \<noteq> None) ''invalid_summary'') (\<lambda>_.
      bind_result (require (strings ''blockers'') ''invalid_blockers'') (\<lambda>_.
      bind_result (require (strings ''major_notes'') ''invalid_major_notes'') (\<lambda>_.
      require (strings ''minor_notes'') ''invalid_minor_notes''))))))))"

text \<open>The decision that the cross-field rules are applied to.\<close>

definition v3_decision :: "(string \<times> json) list \<Rightarrow> string \<times> string \<times> int \<Rightarrow> review_finding list \<Rightarrow> review_decision" where
  "v3_decision s h fs =
     (case h of (base_sha, head_sha, review_round) \<Rightarrow>
       \<lparr>rd_verdict = str_of (dget s ''verdict''), rd_summary = str_of (dget s ''summary''), rd_reviewed_base = base_sha,
        rd_reviewed_head = head_sha, rd_reviewed_range = str_of (dget s ''reviewed_range''),
        rd_review_mode = str_of (dget s ''review_mode''), rd_review_round = review_round, rd_findings = fs,
        rd_prior_reviewed_head = [], rd_findings_structured = False, rd_security_ok = True, rd_rollback_ok = True,
        rd_observed_ci_status = ''unknown''\<rparr>)"

definition validate_v3_review_state :: "(string \<Rightarrow> string) \<Rightarrow> (string \<times> json) list \<Rightarrow> (string, unit) result" where
  "validate_v3_review_state sha256 s =
     bind_result (v3_header s) (\<lambda>h.
     bind_result (v3_findings sha256 s) (\<lambda>fs.
     bind_result (v3_projections s fs) (\<lambda>_.
     bind_result (case validate_decision_cross_fields (v3_decision s h fs) of
         Err _ \<Rightarrow> Err ''invalid_review_state_cross_fields'' | Ok _ \<Rightarrow> Ok ()) (\<lambda>_.
     v3_rest s))))"

text \<open>The state that is written to the issue, and what is read back from it.\<close>

definition build_review_state :: "(string \<Rightarrow> string) \<Rightarrow> review_round_state \<Rightarrow> int \<Rightarrow> int \<Rightarrow> (string, json) result" where
  "build_review_state sha256 s issue_number pr_number =
     bind_result (require (0 < issue_number) ''issue_number is invalid'') (\<lambda>_.
     bind_result (require (0 < pr_number) ''pr_number is invalid'') (\<lambda>_.
       let payload = to_persistence_fields s @ [(''issue_number'', json_int issue_number), (''pr_number'', json_int pr_number)]
       in case validate_v3_review_state sha256 payload of
            Err reason \<Rightarrow> Err (''review state is not complete: '' @ reason)
          | Ok _ \<Rightarrow> Ok (JObject payload)))"

definition strs_of :: "json \<Rightarrow> string list" where
  "strs_of v = (case v of JArray xs \<Rightarrow> map str_of xs | _ \<Rightarrow> [])"

definition state_of_payload :: "(string \<times> json) list \<Rightarrow> review_round_state" where
  "state_of_payload v =
     \<lparr>rs_review_protocol_version = str_of (dget v ''review_protocol_version''), rs_review_mode = str_of (dget v ''review_mode''),
      rs_review_round = unwrap_or (as_int (dget v ''review_round'')) 0, rs_prior_reviewed_head = str_of (dget v ''prior_reviewed_head''),
      rs_reviewed_base = str_of (dget v ''base_sha''), rs_reviewed_head = str_of (dget v ''head_sha''),
      rs_reviewed_range = str_of (dget v ''reviewed_range''), rs_verdict = str_of (dget v ''verdict''),
      rs_findings = (case dget v ''findings'' of JArray xs \<Rightarrow> xs | _ \<Rightarrow> []),
      rs_finding_ledger_digest = str_of (dget v ''finding_ledger_digest''), rs_open_blocker_ids = strs_of (dget v ''open_blocker_ids''),
      rs_deferred_note_ids = strs_of (dget v ''deferred_note_ids''), rs_decision_required_ids = strs_of (dget v ''decision_required_ids''),
      rs_autonomous_repairs_remaining = unwrap_or (as_int (dget v ''autonomous_repairs_remaining'')) 0,
      rs_stop_reason = str_of (dget v ''stop_reason''), rs_artifact_sha256 = str_of (dget v ''artifact_sha256''),
      rs_review_workflow_run_id = as_int (dget v ''review_workflow_run_id''), rs_summary = str_of (dget v ''summary''),
      rs_blockers = strs_of (dget v ''blockers''), rs_major_notes = strs_of (dget v ''major_notes''),
      rs_minor_notes = strs_of (dget v ''minor_notes'')\<rparr>"

definition positive_int :: "json \<Rightarrow> int option" where
  "positive_int v = (case as_int v of None \<Rightarrow> None | Some i \<Rightarrow> if 0 < i then Some i else None)"

definition parse_review_state :: "(string \<Rightarrow> string) \<Rightarrow> json \<Rightarrow> (string, int \<times> int \<times> review_round_state) result" where
  "parse_review_state sha256 v =
     (case as_object v of
        None \<Rightarrow> Err ''review state must be an object''
      | Some payload \<Rightarrow>
          (case positive_int (dget payload ''issue_number'') of
             None \<Rightarrow> Err ''issue_number is invalid''
           | Some issue_number \<Rightarrow>
               (case positive_int (dget payload ''pr_number'') of
                  None \<Rightarrow> Err ''pr_number is invalid''
                | Some pr_number \<Rightarrow>
                    (case validate_v3_review_state sha256 payload of
                       Err reason \<Rightarrow> Err (''review state is not complete: '' @ reason)
                     | Ok _ \<Rightarrow> Ok (issue_number, pr_number, state_of_payload payload)))))"

section \<open>Transitions\<close>

definition state_from_decision :: "(string \<Rightarrow> string) \<Rightarrow> review_decision \<Rightarrow> int \<Rightarrow> int \<Rightarrow> string \<Rightarrow> string \<Rightarrow> int option \<Rightarrow>
    string option \<Rightarrow> string option \<Rightarrow> review_round_state" where
  "state_from_decision sha256 d review_round autonomous_repairs_remaining stop_reason artifact_sha256 review_workflow_run_id
       force_verdict prior_reviewed_head =
     (let fs = rd_findings d in
      \<lparr>rs_review_protocol_version = REVIEW_PROTOCOL_VERSION, rs_review_mode = rd_review_mode d, rs_review_round = review_round,
       rs_prior_reviewed_head = unwrap_or prior_reviewed_head (rd_prior_reviewed_head d), rs_reviewed_base = rd_reviewed_base d,
       rs_reviewed_head = rd_reviewed_head d, rs_reviewed_range = rd_reviewed_range d,
       rs_verdict = (case force_verdict of Some v \<Rightarrow> if v = [] then rd_verdict d else v | None \<Rightarrow> rd_verdict d),
       rs_findings = map finding_to_dict fs, rs_finding_ledger_digest = ledger_digest sha256 fs,
       rs_open_blocker_ids = open_blocker_ids fs, rs_deferred_note_ids = deferred_note_ids fs,
       rs_decision_required_ids = decision_required_ids fs, rs_autonomous_repairs_remaining = autonomous_repairs_remaining,
       rs_stop_reason = stop_reason, rs_artifact_sha256 = artifact_sha256, rs_review_workflow_run_id = review_workflow_run_id,
       rs_summary = rd_summary d, rs_blockers = blocker_texts fs, rs_major_notes = major_texts fs, rs_minor_notes = minor_texts fs\<rparr>)"

text \<open>The repairs that remain after R1 and the reason to stop.\<close>

definition r1_outcome :: "review_decision \<Rightarrow> int \<times> string" where
  "r1_outcome d =
     (if rd_verdict d = ''PASS'' then (INITIAL_AUTONOMOUS_REPAIRS_REMAINING, [])
      else if rd_verdict d \<in> {''BLOCKED'', ''FAIL''} \<and> open_blocker_ids (rd_findings d) \<noteq> []
      then (INITIAL_AUTONOMOUS_REPAIRS_REMAINING, [])
      else if rd_verdict d = ''DECISION_REQUIRED'' then (0, ''decision_required'')
      else (0, ''review_blocked''))"

definition initial_r1_state :: "(string \<Rightarrow> string) \<Rightarrow> review_decision \<Rightarrow> string \<Rightarrow> int option \<Rightarrow> (string, review_round_state) result" where
  "initial_r1_state sha256 d artifact_sha256 review_workflow_run_id =
     (if rd_review_mode d \<noteq> ''full'' then Err ''R1 requires review_mode=full''
      else let (remaining, stop) = r1_outcome d
           in Ok (state_from_decision sha256 d 1 remaining stop artifact_sha256 review_workflow_run_id None None))"

definition after_repair_batch_consumed :: "review_round_state \<Rightarrow> string \<Rightarrow> (string, review_round_state) result" where
  "after_repair_batch_consumed prior new_head_sha =
     (if rs_autonomous_repairs_remaining prior \<le> 0 then Err ''no autonomous repair batches remaining''
      else if MAX_SUBSTANTIVE_REVIEW_ROUNDS \<le> rs_review_round prior then Err ''cannot repair after final substantive review round''
      else Ok
        \<lparr>rs_review_protocol_version = REVIEW_PROTOCOL_VERSION, rs_review_mode = ''repair_verification'',
         rs_review_round = rs_review_round prior + 1, rs_prior_reviewed_head = rs_reviewed_head prior,
         rs_reviewed_base = rs_reviewed_base prior, rs_reviewed_head = new_head_sha,
         rs_reviewed_range = rs_reviewed_base prior @ ''...'' @ new_head_sha, rs_verdict = ''INVALIDATED'',
         rs_findings = rs_findings prior, rs_finding_ledger_digest = rs_finding_ledger_digest prior,
         rs_open_blocker_ids = rs_open_blocker_ids prior, rs_deferred_note_ids = rs_deferred_note_ids prior,
         rs_decision_required_ids = rs_decision_required_ids prior, rs_autonomous_repairs_remaining = 0,
         rs_stop_reason = ''awaiting_r2'', rs_artifact_sha256 = [], rs_review_workflow_run_id = None,
         rs_summary = ''prior evidence for head '' @ rs_reviewed_head prior @ '' invalidated by repair head '' @ new_head_sha,
         rs_blockers = rs_blockers prior, rs_major_notes = rs_major_notes prior, rs_minor_notes = rs_minor_notes prior\<rparr>)"

text \<open>The findings that a legacy PASS at R2 adds for prior blockers and notes it does not mention.\<close>

definition resolved_blocker :: "string \<Rightarrow> string \<Rightarrow> review_finding" where
  "resolved_blocker origin fid =
     \<lparr>rf_id = fid, rf_axis = ''legacy'', rf_evidence = ''resolved at R2 (legacy adapter)'', rf_severity = ''blocker'',
      rf_disposition = ''block_current_head'', rf_scope_relation = ''in_scope'', rf_origin_head = origin,
      rf_acceptance_condition = ''resolved'', rf_status = ''resolved'', rf_admission_reason = None\<rparr>"

definition carried_note :: "string \<Rightarrow> string \<Rightarrow> review_finding" where
  "carried_note origin fid =
     \<lparr>rf_id = fid, rf_axis = ''legacy'', rf_evidence = ''deferred note carried from R1'', rf_severity = ''note'',
      rf_disposition = ''defer'', rf_scope_relation = ''in_scope'', rf_origin_head = origin,
      rf_acceptance_condition = ''deferred residual risk'', rf_status = ''deferred'', rf_admission_reason = None\<rparr>"

fun carry_notes :: "string \<Rightarrow> string list \<Rightarrow> review_finding list \<Rightarrow> review_finding list" where
  "carry_notes origin [] merged = merged"
| "carry_notes origin (fid # fids) merged =
     carry_notes origin fids (if fid \<in> set (map rf_id merged) then merged else merged @ [carried_note origin fid])"

text \<open>\<^verbatim>\<open>{f.id: f for f in findings}\<close>: the last finding with an identifier.\<close>

definition by_id :: "review_finding list \<Rightarrow> string \<Rightarrow> review_finding option" where
  "by_id fs fid = map_of (rev (map (\<lambda>f. (rf_id f, f)) fs)) fid"

definition merge_legacy :: "review_round_state \<Rightarrow> review_decision \<Rightarrow> string list \<Rightarrow> review_decision" where
  "merge_legacy prior d missing =
     (let origin = (if rs_reviewed_head prior \<noteq> [] then rs_reviewed_head prior else rd_reviewed_head d) in
      d\<lparr>rd_findings := carry_notes origin (rs_deferred_note_ids prior) (rd_findings d @ map (resolved_blocker origin) (sort missing))\<rparr>)"

text \<open>
  What R2 does to each prior blocker and each new one. The order in which a set is walked only picks the
  error that is reported; here it is the order of the lists.
\<close>

definition prior_blocker_error :: "review_finding list \<Rightarrow> string \<Rightarrow> string option" where
  "prior_blocker_error fs fid =
     (case by_id fs fid of
        None \<Rightarrow> Some (''prior blocker '' @ fid @ '' silently disappeared at R2'')
      | Some f \<Rightarrow> if rf_status f \<in> {''resolved'', ''open''} then None
                  else Some (''prior blocker '' @ fid @ '' has invalid R2 status''))"

definition new_blocker_error :: "string list \<Rightarrow> review_finding \<Rightarrow> string option" where
  "new_blocker_error prior_open f =
     (if open_blocker f \<and> rf_id f \<notin> set prior_open \<and> (case rf_admission_reason f of None \<Rightarrow> True | Some r \<Rightarrow> r \<notin> set ADMISSION_REASONS)
      then Some (''R2 new blocker '' @ rf_id f @ '' requires admission_reason'') else None)"

definition first_error :: "string option list \<Rightarrow> (string, unit) result" where
  "first_error es = (case List.map_filter id es of [] \<Rightarrow> Ok () | e # _ \<Rightarrow> Err e)"

definition r2_outcome :: "review_decision \<Rightarrow> string \<times> string" where
  "r2_outcome d =
     (let open_blockers = open_blocker_ids (rd_findings d); open_decisions = decision_required_ids (rd_findings d) in
      if rd_verdict d = ''PASS'' \<and> open_blockers = [] \<and> open_decisions = [] then ([], ''PASS'')
      else if open_decisions \<noteq> [] \<or> open_blockers \<noteq> [] \<or> rd_verdict d \<in> {''BLOCKED'', ''FAIL'', ''DECISION_REQUIRED''}
      then (''decision_required'', ''DECISION_REQUIRED'')
      else (''review_blocked'', if rd_verdict d \<in> set CONTROL_VERDICTS then rd_verdict d else ''DECISION_REQUIRED''))"

definition apply_r2_decision :: "(string \<Rightarrow> string) \<Rightarrow> review_round_state \<Rightarrow> review_decision \<Rightarrow> string \<Rightarrow> int option \<Rightarrow>
    (string, review_round_state) result" where
  "apply_r2_decision sha256 prior d artifact_sha256 review_workflow_run_id =
     (if rd_review_mode d \<noteq> ''repair_verification'' then Err ''R2 requires review_mode=repair_verification''
      else
        let (stop, verdict) = r2_outcome d;
            prior_open = remdups (rs_open_blocker_ids prior);
            missing_prior = filter (\<lambda>fid. by_id (rd_findings d) fid = None) prior_open
        in if missing_prior \<noteq> [] \<and> rd_findings_structured d
           then Err (''prior blocker '' @ hd (sort missing_prior) @ '' silently disappeared at R2'')
           else
             let decision = (if missing_prior \<noteq> [] \<and> rd_verdict d = ''PASS'' then merge_legacy prior d missing_prior else d);
                 current = List.map_filter (by_id (rd_findings decision)) (remdups (map rf_id (rd_findings decision)))
             in bind_result (first_error (map (prior_blocker_error (rd_findings decision)) prior_open)) (\<lambda>_.
                bind_result (first_error (map (new_blocker_error prior_open) current)) (\<lambda>_.
                Ok (state_from_decision sha256 decision (min MAX_SUBSTANTIVE_REVIEW_ROUNDS (max 2 (rd_review_round decision))) 0 stop
                  artifact_sha256 review_workflow_run_id (Some verdict)
                  (Some (if rs_verdict prior = ''INVALIDATED'' \<and> rs_prior_reviewed_head prior \<noteq> [] then rs_prior_reviewed_head prior
                         else rs_reviewed_head prior))))))"

section \<open>The next attempt\<close>

record review_attempt =
  ra_review_mode :: string
  ra_review_round :: int
  ra_prior_reviewed_head :: string
  ra_autonomous_repairs_remaining :: int
  ra_open_blocker_ids :: "string list"
  ra_finding_ledger_digest :: string
  ra_allowed :: bool
  ra_deny_reason :: string

definition fresh_attempt :: "string \<Rightarrow> review_attempt" where
  "fresh_attempt prior_head =
     \<lparr>ra_review_mode = ''full'', ra_review_round = 1, ra_prior_reviewed_head = prior_head,
      ra_autonomous_repairs_remaining = INITIAL_AUTONOMOUS_REPAIRS_REMAINING, ra_open_blocker_ids = [], ra_finding_ledger_digest = [],
      ra_allowed = True, ra_deny_reason = []\<rparr>"

text \<open>\<^verbatim>\<open>a or b\<close> on strings and on integers.\<close>

definition str_or :: "string \<Rightarrow> string \<Rightarrow> string" where
  "str_or a b = (if a \<noteq> [] then a else b)"

definition int_or :: "int \<Rightarrow> int \<Rightarrow> int" where
  "int_or a b = (if a \<noteq> 0 then a else b)"

text \<open>The argument is the persisted fields of a state, or nothing.\<close>

definition derive_next_review_attempt :: "review_round_state option \<Rightarrow> string \<Rightarrow> review_attempt" where
  "derive_next_review_attempt st head_sha =
     (case st of
        None \<Rightarrow> fresh_attempt []
      | Some s \<Rightarrow>
          if rs_stop_reason s = ''decision_required'' \<or> rs_verdict s = ''DECISION_REQUIRED'' then
            \<lparr>ra_review_mode = str_or (rs_review_mode s) ''repair_verification'', ra_review_round = int_or (rs_review_round s) 2,
             ra_prior_reviewed_head = rs_prior_reviewed_head s, ra_autonomous_repairs_remaining = 0,
             ra_open_blocker_ids = rs_open_blocker_ids s, ra_finding_ledger_digest = rs_finding_ledger_digest s,
             ra_allowed = False, ra_deny_reason = ''decision_required_requires_human_authority''\<rparr>
          else
            let verdict = rs_verdict s; round_n = int_or (rs_review_round s) 1; remaining = rs_autonomous_repairs_remaining s;
                prior_head = rs_reviewed_head s; prior_open = rs_open_blocker_ids s; prior_digest = rs_finding_ledger_digest s;
                head_changed = (prior_head \<noteq> [] \<and> prior_head \<noteq> head_sha);
                attempt = (\<lambda>mode round prior repairs allowed deny.
                  \<lparr>ra_review_mode = mode, ra_review_round = round, ra_prior_reviewed_head = prior, ra_autonomous_repairs_remaining = repairs,
                   ra_open_blocker_ids = prior_open, ra_finding_ledger_digest = prior_digest, ra_allowed = allowed, ra_deny_reason = deny\<rparr>)
            in if verdict = ''INVALIDATED'' \<and> round_n \<le> 1 \<and> 0 < remaining then fresh_attempt prior_head
               else if verdict = ''INVALIDATED'' \<or> head_changed \<and> remaining = 0 \<and> verdict \<noteq> ''PASS'' then
                 (if MAX_SUBSTANTIVE_REVIEW_ROUNDS < round_n
                  then attempt ''repair_verification'' round_n (str_or (rs_prior_reviewed_head s) prior_head) 0 False
                         ''substantive_review_budget_exhausted''
                  else attempt ''repair_verification'' (min MAX_SUBSTANTIVE_REVIEW_ROUNDS (max 2 round_n))
                         (str_or (rs_prior_reviewed_head s) prior_head) 0 True [])
               else if head_changed \<and> prior_open \<noteq> [] \<and> round_n < MAX_SUBSTANTIVE_REVIEW_ROUNDS \<and> 0 < remaining then
                 attempt ''repair_verification'' MAX_SUBSTANTIVE_REVIEW_ROUNDS prior_head 0 True []
               else if head_changed \<and> verdict = ''PASS'' then fresh_attempt prior_head
               else if MAX_SUBSTANTIVE_REVIEW_ROUNDS \<le> round_n \<and> verdict \<notin> {''PASS'', ''INVALIDATED''} then
                 attempt ''repair_verification'' round_n (rs_prior_reviewed_head s) 0 False
                   ''r2_complete_requires_human_authority_for_retry''
               else if \<not> head_changed \<and> verdict = ''PASS'' then
                 attempt (str_or (rs_review_mode s) ''full'') round_n (rs_prior_reviewed_head s) remaining False
                   ''pass_terminal_requires_human_authority''
               else attempt (str_or (rs_review_mode s) ''full'') round_n (rs_prior_reviewed_head s) remaining True [])"

end
