(* ===== verification/Convergence_Theorems.thy ===== *)
theory Convergence_Theorems
  imports Review_Convergence
begin

text \<open>
  Correctness of the review convergence protocol: the persisted form of a state and its round trip, the states
  that the two rounds and the repair between them make, what the second round does to the findings of the first,
  and which attempt comes next.
\<close>

section \<open>Lemmas\<close>

lemma require_Ok [simp]: "require b reason = Ok u \<longleftrightarrow> b"
  by (simp add: require_def)

lemma as_int_json [simp]: "as_int (json_int i) = Some i"
  by (simp add: json_int_def)

lemma strs_of_json [simp]: "strs_of (json_strings ss) = ss"
  by (simp add: strs_of_def json_strings_def str_of_def comp_def)

lemma json_strings_inject [simp]: "json_strings xs = json_strings ys \<longleftrightarrow> xs = ys"
  by (simp add: json_strings_def inj_def)

definition payload :: "review_round_state \<Rightarrow> int \<Rightarrow> int \<Rightarrow> (string \<times> json) list" where
  "payload s issue_number pr_number =
     to_persistence_fields s @ [(''issue_number'', json_int issue_number), (''pr_number'', json_int pr_number)]"

lemma payload_get:
  "dget (payload s i p) ''kind'' = JString REVIEW_STATE_KIND" "dget (payload s i p) ''version'' = json_int (int REVIEW_STATE_VERSION)"
  "dget (payload s i p) ''review_protocol_version'' = JString (rs_review_protocol_version s)"
  "dget (payload s i p) ''review_mode'' = JString (rs_review_mode s)" "dget (payload s i p) ''review_round'' = json_int (rs_review_round s)"
  "dget (payload s i p) ''prior_reviewed_head'' = JString (rs_prior_reviewed_head s)"
  "dget (payload s i p) ''base_sha'' = JString (rs_reviewed_base s)" "dget (payload s i p) ''head_sha'' = JString (rs_reviewed_head s)"
  "dget (payload s i p) ''reviewed_range'' = JString (rs_reviewed_range s)" "dget (payload s i p) ''verdict'' = JString (rs_verdict s)"
  "dget (payload s i p) ''findings'' = JArray (rs_findings s)"
  "dget (payload s i p) ''finding_ledger_digest'' = JString (rs_finding_ledger_digest s)"
  "dget (payload s i p) ''open_blocker_ids'' = json_strings (rs_open_blocker_ids s)"
  "dget (payload s i p) ''deferred_note_ids'' = json_strings (rs_deferred_note_ids s)"
  "dget (payload s i p) ''decision_required_ids'' = json_strings (rs_decision_required_ids s)"
  "dget (payload s i p) ''autonomous_repairs_remaining'' = json_int (rs_autonomous_repairs_remaining s)"
  "dget (payload s i p) ''stop_reason'' = JString (rs_stop_reason s)" "dget (payload s i p) ''artifact_sha256'' = JString (rs_artifact_sha256 s)"
  "dget (payload s i p) ''review_workflow_run_id'' = (case rs_review_workflow_run_id s of None \<Rightarrow> JNull | Some i \<Rightarrow> json_int i)"
  "dget (payload s i p) ''summary'' = JString (rs_summary s)" "dget (payload s i p) ''blockers'' = json_strings (rs_blockers s)"
  "dget (payload s i p) ''major_notes'' = json_strings (rs_major_notes s)" "dget (payload s i p) ''minor_notes'' = json_strings (rs_minor_notes s)"
  "dget (payload s i p) ''issue_number'' = json_int i" "dget (payload s i p) ''pr_number'' = json_int p"
  "map_of (payload s i p) ''reviewed_head'' = None"
  by (simp_all add: dget_def payload_def to_persistence_fields_def)

lemma payload_complete: "list_all (\<lambda>k. k \<in> set (map fst (payload s i p))) V3_REVIEW_STATE_FIELDS"
  by (simp add: payload_def to_persistence_fields_def V3_REVIEW_STATE_FIELDS_def)

lemma state_of_payload_payload [simp]: "state_of_payload (payload s i p) = s"
  unfolding state_of_payload_def payload_get by (simp add: str_of_def split: option.split)

text \<open>When a persisted state is accepted, with its findings.\<close>

definition cross_ok :: "string \<Rightarrow> string \<Rightarrow> int \<Rightarrow> review_finding list \<Rightarrow> bool" where
  "cross_ok verdict mode review_round fs \<longleftrightarrow>
     mode \<in> set REVIEW_MODES \<and> (verdict = ''INVALIDATED'' \<or> 1 \<le> review_round \<and> review_round \<le> MAX_SUBSTANTIVE_REVIEW_ROUNDS) \<and>
     (verdict = ''PASS'' \<longrightarrow> open_blocker_ids fs = [] \<and> decision_required_ids fs = []) \<and>
     (verdict = ''PASS_WITH_NOTES'' \<longrightarrow> open_blocker_ids fs = []) \<and> (verdict = ''BLOCKED'' \<longrightarrow> open_blocker_ids fs \<noteq> []) \<and>
     (verdict = ''DECISION_REQUIRED'' \<longrightarrow>
        decision_required_ids fs \<noteq> [] \<or> mode = ''repair_verification'' \<and> open_blocker_ids fs \<noteq> []) \<and>
     length (deferred_note_ids fs) \<le> MAX_DEFERRED_NOTES"

lemma cross_fields_Ok:
  "validate_decision_cross_fields d = Ok () \<longleftrightarrow>
     cross_ok (rd_verdict d) (rd_review_mode d) (rd_review_round d) (rd_findings d) \<and>
     (rd_verdict d = ''PASS'' \<longrightarrow> rd_security_ok d \<and> rd_rollback_ok d)"
  by (auto simp: validate_decision_cross_fields_def cross_ok_def Let_def bind_result_Ok_iff)

definition header_ok :: "review_round_state \<Rightarrow> bool" where
  "header_ok s \<longleftrightarrow>
     rs_review_protocol_version s = REVIEW_PROTOCOL_VERSION \<and> 1 \<le> rs_review_round s \<and> rs_review_round s \<le> MAX_SUBSTANTIVE_REVIEW_ROUNDS \<and>
     rs_review_mode s = (if rs_review_round s = 1 then ''full'' else ''repair_verification'') \<and>
     hex_string 40 (rs_reviewed_base s) \<and> hex_string 40 (rs_reviewed_head s) \<and>
     (rs_prior_reviewed_head s = [] \<or> hex_string 40 (rs_prior_reviewed_head s)) \<and>
     rs_reviewed_range s = rs_reviewed_base s @ ''...'' @ rs_reviewed_head s \<and> rs_verdict s \<in> set CONTROL_VERDICTS"

definition ledger_ok :: "(string \<Rightarrow> string) \<Rightarrow> review_round_state \<Rightarrow> review_finding list \<Rightarrow> bool" where
  "ledger_ok sha256 s fs \<longleftrightarrow>
     length (rs_findings s) \<le> MAX_FINDINGS \<and> normalize_findings (rs_findings s) = Ok fs \<and> distinct (map rf_id fs) \<and>
     hex_string 64 (rs_finding_ledger_digest s) \<and> ledger_digest sha256 fs = rs_finding_ledger_digest s \<and>
     rs_open_blocker_ids s = open_blocker_ids fs \<and> rs_deferred_note_ids s = deferred_note_ids fs \<and>
     rs_decision_required_ids s = decision_required_ids fs \<and> rs_blockers s = blocker_texts fs \<and>
     rs_major_notes s = major_texts fs \<and> rs_minor_notes s = minor_texts fs"

definition rest_ok :: "review_round_state \<Rightarrow> bool" where
  "rest_ok s \<longleftrightarrow>
     0 \<le> rs_autonomous_repairs_remaining s \<and> rs_autonomous_repairs_remaining s \<le> MAX_AUTONOMOUS_REPAIR_BATCHES \<and>
     (rs_artifact_sha256 s = [] \<or> hex_string 64 (rs_artifact_sha256 s)) \<and>
     (case rs_review_workflow_run_id s of None \<Rightarrow> True | Some i \<Rightarrow> 0 \<le> i)"

definition state_ok :: "(string \<Rightarrow> string) \<Rightarrow> review_round_state \<Rightarrow> review_finding list \<Rightarrow> bool" where
  "state_ok sha256 s fs \<longleftrightarrow> header_ok s \<and> ledger_ok sha256 s fs \<and> cross_ok (rs_verdict s) (rs_review_mode s) (rs_review_round s) fs \<and> rest_ok s"

lemma v3_header_payload:
  "v3_header (payload s i p) = Ok h \<longleftrightarrow> header_ok s \<and> h = (rs_reviewed_base s, rs_reviewed_head s, rs_review_round s)"
  unfolding v3_header_def payload_get header_ok_def
  by (auto simp: bind_result_Ok_iff payload_complete [unfolded set_map] Let_def str_in_def str_of_def REVIEW_MODES_def split: if_splits)

lemma normalize_findings_length: "normalize_findings vs = Ok fs \<Longrightarrow> length fs = length vs"
  by (induction vs arbitrary: fs) (auto simp: bind_result_Ok_iff)

lemma ids_short:
  assumes "distinct (map rf_id fs)" "length fs \<le> n"
  shows "length (map rf_id (filter P fs)) \<le> n \<and> distinct (map rf_id (filter P fs))"
  using assms le_trans [OF length_filter_le [of P fs]] by (auto simp: distinct_map intro: inj_on_subset)

lemma v3_ledger_payload:
  "v3_findings sha256 (payload s i p) = Ok fs \<and> v3_projections (payload s i p) fs = Ok () \<longleftrightarrow> ledger_ok sha256 s fs"
proof -
  have proj: "v3_projections (payload s i p) fs = Ok () \<longleftrightarrow>
      rs_open_blocker_ids s = open_blocker_ids fs \<and> rs_deferred_note_ids s = deferred_note_ids fs \<and>
      rs_decision_required_ids s = decision_required_ids fs \<and> rs_blockers s = blocker_texts fs \<and>
      rs_major_notes s = major_texts fs \<and> rs_minor_notes s = minor_texts fs"
    if "distinct (map rf_id fs)" "length fs \<le> MAX_FINDINGS" for fs
    unfolding v3_projections_def v3_ids_def payload_get
    using ids_short [OF that] by (auto simp: bind_result_Ok_iff open_blocker_ids_def deferred_note_ids_def decision_required_ids_def)
  have "v3_findings sha256 (payload s i p) = Ok fs \<longleftrightarrow>
      length (rs_findings s) \<le> MAX_FINDINGS \<and> normalize_findings (rs_findings s) = Ok fs \<and> distinct (map rf_id fs) \<and>
      hex_string 64 (rs_finding_ledger_digest s) \<and> ledger_digest sha256 fs = rs_finding_ledger_digest s" for fs
    unfolding v3_findings_def payload_get by (auto simp: bind_result_Ok_iff str_of_def split: sum.splits)
  then show ?thesis
    using proj [of fs] normalize_findings_length [of "rs_findings s" fs] unfolding ledger_ok_def by metis
qed


lemma v3_decision_payload:
  "validate_decision_cross_fields (v3_decision (payload s i p) (rs_reviewed_base s, rs_reviewed_head s, rs_review_round s) fs) = Ok () \<longleftrightarrow>
     cross_ok (rs_verdict s) (rs_review_mode s) (rs_review_round s) fs"
  unfolding cross_fields_Ok by (simp add: v3_decision_def payload_get str_of_def)



section \<open>Findings\<close>

definition finding_ok :: "review_finding \<Rightarrow> bool" where
  "finding_ok f \<longleftrightarrow>
     finding_id_ok (rf_id f) \<and> length (rf_axis f) \<le> 200 \<and> length (rf_evidence f) \<le> MAX_NOTE_LEN * 6 \<and>
     rf_severity f \<in> set SEVERITIES \<and> rf_disposition f \<in> set DISPOSITIONS \<and> rf_scope_relation f \<in> set SCOPE_RELATIONS \<and>
     hex_string 40 (rf_origin_head f) \<and> length (rf_acceptance_condition f) \<le> MAX_NOTE_LEN * 2 \<and>
     rf_status f \<in> set FINDING_STATUSES \<and> (case rf_admission_reason f of None \<Rightarrow> True | Some r \<Rightarrow> r \<in> set ADMISSION_REASONS)"

lemma finding_dget:
  "finding_to_dict f = JObject d \<Longrightarrow>
     dget d ''id'' = JString (rf_id f) \<and> dget d ''axis'' = JString (rf_axis f) \<and> dget d ''evidence'' = JString (rf_evidence f) \<and>
     dget d ''severity'' = JString (rf_severity f) \<and> dget d ''disposition'' = JString (rf_disposition f) \<and>
     dget d ''scope_relation'' = JString (rf_scope_relation f) \<and> dget d ''origin_head'' = JString (rf_origin_head f) \<and>
     dget d ''acceptance_condition'' = JString (rf_acceptance_condition f) \<and> dget d ''status'' = JString (rf_status f) \<and>
     dget d ''admission_reason'' = (case rf_admission_reason f of None \<Rightarrow> JNull | Some r \<Rightarrow> JString r) \<and>
     (\<forall>k \<in> set FINDING_KEYS. k \<in> set (map fst d)) \<and> set (map fst d) \<subseteq> set ([''id''] @ FINDING_KEYS @ [''admission_reason''])"
  by (cases "rf_admission_reason f") (simp_all add: finding_to_dict_def dget_def FINDING_KEYS_def, safe, simp_all)

lemma normalize_dict:
  assumes "finding_ok f"
  shows "normalize_finding (finding_to_dict f) = Ok f"
proof -
  obtain d where d: "finding_to_dict f = JObject d" by (simp add: finding_to_dict_def)
  note g = finding_dget [OF d]
  have "find (\<lambda>k. k \<notin> set (map fst d)) FINDING_KEYS = None" using g by (simp add: find_None_iff)
  moreover have "filter (\<lambda>k. k \<notin> set ([''id''] @ FINDING_KEYS @ [''admission_reason''])) (remdups (map fst d)) = []"
    using g by (auto simp: filter_empty_conv)
  ultimately have "finding_checks d = Ok ()"
    using assms g by (auto simp: finding_checks_def finding_ok_def Let_def bind_result_Ok_iff str_in_def simp del: set_append set_simps split: option.splits)
  moreover have "finding_of d = f"
    using assms g by (auto simp: finding_of_def finding_ok_def str_of_def split: option.splits)
  ultimately show ?thesis by (simp add: normalize_finding_def d)
qed

lemma normalize_dicts: "list_all finding_ok fs \<Longrightarrow> normalize_findings (map finding_to_dict fs) = Ok fs"
  by (induction fs) (simp_all add: normalize_dict)

lemma str_case: "(case v of JString s \<Rightarrow> P s | _ \<Rightarrow> False) \<longleftrightarrow> (\<exists>s. v = JString s \<and> P s)"
  by (cases v) simp_all

lemma normalize_finding_ok:
  assumes "normalize_finding v = Ok f"
  shows "finding_ok f"
proof -
  obtain d where d: "v = JObject d" using assms by (cases v) (simp_all add: normalize_finding_def)
  have checks: "finding_checks d = Ok ()" and f: "f = finding_of d" using assms by (auto simp: d normalize_finding_def bind_result_Ok_iff)
  obtain i sev dis sco sta ori where "dget d ''id'' = JString i" "finding_id_ok i" "dget d ''severity'' = JString sev" "sev \<in> set SEVERITIES"
    "dget d ''disposition'' = JString dis" "dis \<in> set DISPOSITIONS" "dget d ''scope_relation'' = JString sco" "sco \<in> set SCOPE_RELATIONS"
    "dget d ''status'' = JString sta" "sta \<in> set FINDING_STATUSES" "dget d ''origin_head'' = JString ori" "hex_string 40 ori"
    using checks unfolding finding_checks_def Let_def bind_result_Ok_iff require_Ok str_case str_in_def by blast
  moreover have "dget d ''admission_reason'' = JNull \<or> (\<exists>r. dget d ''admission_reason'' = JString r \<and> r \<in> set ADMISSION_REASONS)"
    using checks unfolding finding_checks_def Let_def bind_result_Ok_iff require_Ok str_case str_in_def by blast
  ultimately show ?thesis by (auto simp: f finding_of_def finding_ok_def str_of_def)
qed

section \<open>The protocol\<close>

text \<open>
  A decision on the complete diff, with findings in normal form; decisions on a repair are structured, so that
  they carry every prior blocker.
\<close>

definition decision_ok :: "review_decision \<Rightarrow> bool" where
  "decision_ok d \<longleftrightarrow>
     list_all finding_ok (rd_findings d) \<and> distinct (map rf_id (rd_findings d)) \<and> length (rd_findings d) \<le> MAX_FINDINGS \<and>
     hex_string 40 (rd_reviewed_base d) \<and> hex_string 40 (rd_reviewed_head d) \<and>
     rd_reviewed_range d = rd_reviewed_base d @ ''...'' @ rd_reviewed_head d \<and>
     (rd_prior_reviewed_head d = [] \<or> hex_string 40 (rd_prior_reviewed_head d)) \<and>
     rd_verdict d \<in> set CONTROL_VERDICTS \<and> rd_verdict d \<noteq> ''INVALIDATED'' \<and> validate_decision_cross_fields d = Ok ()"

definition run_ok :: "string \<Rightarrow> int option \<Rightarrow> bool" where
  "run_ok artifact_sha256 run \<longleftrightarrow>
     (artifact_sha256 = [] \<or> hex_string 64 artifact_sha256) \<and> (case run of None \<Rightarrow> True | Some i \<Rightarrow> 0 \<le> i)"

text \<open>A failure without an open finding is turned into a required decision, which needs one.\<close>

definition empty_failure :: "review_decision \<Rightarrow> bool" where
  "empty_failure d \<longleftrightarrow> rd_verdict d = ''FAIL'' \<and> open_blocker_ids (rd_findings d) = [] \<and> decision_required_ids (rd_findings d) = []"


text \<open>The ledger of a state that is made of a decision.\<close>

lemma decided_ledger:
  assumes "decision_ok d" "hash_digits sha256"
  shows "ledger_ok sha256 (state_from_decision sha256 d r n stop a run v prior) (rd_findings d)"
  using assms normalize_dicts [of "rd_findings d"]
  by (simp add: ledger_ok_def state_from_decision_def decision_ok_def Let_def ledger_digest_def hash_digits_def)



text \<open>What R2 gives for a structured decision.\<close>

lemma apply_r2_structured:
  assumes "apply_r2_decision sha256 prior d a run = Ok s" "rd_findings_structured d"
  obtains prior_head where "s = state_from_decision sha256 d 2 0 (fst (r2_outcome d)) a run (Some (snd (r2_outcome d))) (Some prior_head)"
    "prior_head \<in> {rs_prior_reviewed_head prior, rs_reviewed_head prior}" "rd_review_mode d = ''repair_verification''"
proof -
  have two: "min MAX_SUBSTANTIVE_REVIEW_ROUNDS (max 2 n) = 2" for n by (simp add: MAX_SUBSTANTIVE_REVIEW_ROUNDS_def)
  show ?thesis
    using assms that by (auto simp: apply_r2_decision_def Let_def bind_result_Ok_iff two split: if_splits prod.splits)
qed

lemma second_parts:
  assumes "state_ok sha256 prior fs" "decision_ok d" "rd_findings_structured d" "run_ok a run" "hash_digits sha256"
    and "apply_r2_decision sha256 prior d a run = Ok s"
  shows "header_ok s" "rest_ok s" "ledger_ok sha256 s (rd_findings d)"
    "rs_verdict s = snd (r2_outcome d)" "rs_review_mode s = ''repair_verification''" "rs_review_round s = 2"
proof -
  obtain h where s: "s = state_from_decision sha256 d 2 0 (fst (r2_outcome d)) a run (Some (snd (r2_outcome d))) (Some h)"
    and h: "h \<in> {rs_prior_reviewed_head prior, rs_reviewed_head prior}" and mode: "rd_review_mode d = ''repair_verification''"
    using apply_r2_structured [OF assms(6,3)] .
  have prior: "h = [] \<or> hex_string 40 h" using assms(1) h by (auto simp: state_ok_def header_ok_def)
  have verdict: "snd (r2_outcome d) \<in> set CONTROL_VERDICTS" "snd (r2_outcome d) \<noteq> []"
    using assms(2) by (auto simp: r2_outcome_def Let_def CONTROL_VERDICTS_def decision_ok_def)
  show "header_ok s" "rest_ok s" using assms(2,4) mode prior verdict
    by (simp_all add: s header_ok_def rest_ok_def state_from_decision_def decision_ok_def run_ok_def Let_def MAX_SUBSTANTIVE_REVIEW_ROUNDS_def
        MAX_AUTONOMOUS_REPAIR_BATCHES_def)
  show "ledger_ok sha256 s (rd_findings d)" unfolding s by (rule decided_ledger [OF assms(2,5)])
  show "rs_verdict s = snd (r2_outcome d)" "rs_review_mode s = ''repair_verification''" "rs_review_round s = 2"
    using verdict(2) mode by (simp_all add: s state_from_decision_def Let_def)
qed

lemma r2_cross:
  assumes "decision_ok d" "rd_review_mode d = ''repair_verification''"
  shows "cross_ok (snd (r2_outcome d)) ''repair_verification'' 2 (rd_findings d) \<longleftrightarrow> \<not> empty_failure d"
  using assms by (auto simp: empty_failure_def decision_ok_def cross_fields_Ok cross_ok_def r2_outcome_def Let_def MAX_SUBSTANTIVE_REVIEW_ROUNDS_def)


lemma second_failed:
  assumes "state_ok sha256 prior fs" "decision_ok d" "rd_findings_structured d" "run_ok a run" "hash_digits sha256"
    and "apply_r2_decision sha256 prior d a run = Ok s" "empty_failure d" "0 < i" "0 < p"
  shows "build_review_state sha256 s i p = Err ''review state is not complete: invalid_review_state_cross_fields''"
proof -
  note parts = second_parts [OF assms(1-6)]
  have "rd_review_mode d = ''repair_verification''" using assms(6) by (auto simp: apply_r2_decision_def split: if_splits)
  then have cross: "\<not> cross_ok (rs_verdict s) (rs_review_mode s) (rs_review_round s) (rd_findings d)"
    using r2_cross [OF assms(2)] assms(7) parts by simp
  define header where "header = (rs_reviewed_base s, rs_reviewed_head s, rs_review_round s)"
  have "validate_decision_cross_fields (v3_decision (payload s i p) header (rd_findings d)) \<noteq> Ok ()"
    using cross v3_decision_payload unfolding header_def by blast
  then obtain e where "validate_decision_cross_fields (v3_decision (payload s i p) header (rd_findings d)) = Err e"
    by (cases "validate_decision_cross_fields (v3_decision (payload s i p) header (rd_findings d))") auto
  moreover have "v3_header (payload s i p) = Ok header" using parts(1) v3_header_payload unfolding header_def by blast
  moreover have "v3_findings sha256 (payload s i p) = Ok (rd_findings d)" "v3_projections (payload s i p) (rd_findings d) = Ok ()"
    using parts(3) v3_ledger_payload by blast+
  ultimately have "validate_v3_review_state sha256 (payload s i p) = Err ''invalid_review_state_cross_fields''"
    by (simp add: validate_v3_review_state_def)
  then show ?thesis using assms(8,9) by (simp add: build_review_state_def payload_def [symmetric] Let_def require_def)
qed


text \<open>One repair batch leads to R2 on the same ledger, and there is no second batch.\<close>

lemma repair_leads_to_r2:
  assumes "initial_r1_state sha256 d a run = Ok s" "rd_verdict d \<in> {''BLOCKED'', ''FAIL''}" "open_blocker_ids (rd_findings d) \<noteq> []"
  shows "\<exists>s'. after_repair_batch_consumed s new_head = Ok s' \<and>
    derive_next_review_attempt (Some s') new_head =
      \<lparr>ra_review_mode = ''repair_verification'', ra_review_round = 2, ra_prior_reviewed_head = str_or (rd_reviewed_head d) new_head,
       ra_autonomous_repairs_remaining = 0, ra_open_blocker_ids = open_blocker_ids (rd_findings d),
       ra_finding_ledger_digest = ledger_digest sha256 (rd_findings d), ra_allowed = True, ra_deny_reason = []\<rparr> \<and>
    (\<forall>head. \<exists>e. after_repair_batch_consumed s' head = Err e)"
proof -
  have "s = state_from_decision sha256 d 1 1 [] a run None None"
    using assms by (auto simp: initial_r1_state_def r1_outcome_def INITIAL_AUTONOMOUS_REPAIRS_REMAINING_def MAX_AUTONOMOUS_REPAIR_BATCHES_def
        split: if_splits)
  then have s: "rs_review_round s = 1" "rs_autonomous_repairs_remaining s = 1" "rs_reviewed_head s = rd_reviewed_head d"
    "rs_open_blocker_ids s = open_blocker_ids (rd_findings d)" "rs_finding_ledger_digest s = ledger_digest sha256 (rd_findings d)"
    by (simp_all add: state_from_decision_def Let_def)
  then obtain s' where ok: "after_repair_batch_consumed s new_head = Ok s'"
    by (simp add: after_repair_batch_consumed_def MAX_SUBSTANTIVE_REVIEW_ROUNDS_def)
  then have s': "rs_review_round s' = 2" "rs_autonomous_repairs_remaining s' = 0" "rs_reviewed_head s' = new_head" "rs_verdict s' = ''INVALIDATED''"
    "rs_stop_reason s' = ''awaiting_r2''" "rs_prior_reviewed_head s' = rd_reviewed_head d" "rs_open_blocker_ids s' = open_blocker_ids (rd_findings d)"
    "rs_finding_ledger_digest s' = ledger_digest sha256 (rd_findings d)"
    using s by (auto simp: after_repair_batch_consumed_def MAX_SUBSTANTIVE_REVIEW_ROUNDS_def)
  then have "\<exists>e. after_repair_batch_consumed s' head = Err e" for head by (simp add: after_repair_batch_consumed_def)
  moreover have "derive_next_review_attempt (Some s') new_head =
      \<lparr>ra_review_mode = ''repair_verification'', ra_review_round = 2, ra_prior_reviewed_head = str_or (rd_reviewed_head d) new_head,
       ra_autonomous_repairs_remaining = 0, ra_open_blocker_ids = open_blocker_ids (rd_findings d),
       ra_finding_ledger_digest = ledger_digest sha256 (rd_findings d), ra_allowed = True, ra_deny_reason = []\<rparr>"
    unfolding derive_next_review_attempt_def option.case Let_def s'
    by (simp add: int_or_def MAX_SUBSTANTIVE_REVIEW_ROUNDS_def)
  ultimately show ?thesis using ok by blast
qed

section \<open>What R2 does\<close>












section \<open>A sample review\<close>











section \<open>Theorems\<close>







section \<open>Decisions made from artifacts\<close>

lemma show_nat_length: "n < 10 ^ Suc k \<Longrightarrow> length (show_nat n) \<le> Suc k"
proof (induction n arbitrary: k rule: less_induct)
  case (less n)
  show ?case
  proof (cases k)
    case 0
    then show ?thesis using less.prems by (simp add: show_nat.simps)
  next
    case (Suc j)
    show ?thesis
    proof (cases "n < 10")
      case False
      then have "length (show_nat (n div 10)) \<le> Suc j" using less.prems Suc by (intro less.IH) auto
      then show ?thesis using False Suc by (simp add: show_nat.simps)
    qed (simp add: show_nat.simps)
  qed
qed

lemma normalize_findings_ok: "normalize_findings vs = Ok fs \<Longrightarrow> list_all finding_ok fs"
  by (induction vs arbitrary: fs) (auto simp: bind_result_Ok_iff normalize_finding_ok)

lemma legacy_id_ok:
  assumes "n \<le> MAX_FINDINGS" "p \<in> {''blocker'', ''major'', ''minor''}"
  shows "finding_id_ok (p @ ''-'' @ show_nat n)"
proof -
  have "length (show_nat n) \<le> Suc 2" using assms(1) by (intro show_nat_length) (simp add: MAX_FINDINGS_def)
  moreover have "list_all finding_id_char (show_nat n)"
    using show_nat_digits [of _ n] by (auto simp: list_all_iff finding_id_char_def char_in_def)
  ultimately show ?thesis using assms(2) by (auto simp: finding_id_ok_def finding_id_char_def char_in_def)
qed

lemma legacy_ok:
  assumes "i < MAX_FINDINGS" "hex_string 40 h"
  shows "finding_ok (legacy_blocker h i body)" "sev \<in> {''major'', ''minor''} \<Longrightarrow> finding_ok (legacy_note sev h i body)"
  using legacy_id_ok [of "Suc i" "''blocker''"] legacy_id_ok [of "Suc i" sev] assms
  by (auto simp: finding_ok_def legacy_blocker_def legacy_note_def MAX_NOTE_LEN_def SEVERITIES_def DISPOSITIONS_def SCOPE_RELATIONS_def
      FINDING_STATUSES_def)

lemma legacy_blockers_shape:
  "legacy_blockers h i vs = Ok fs \<Longrightarrow> \<exists>bodies. fs = map (\<lambda>(j, b). legacy_blocker h j b) (enumerate i bodies)"
proof (induction h i vs arbitrary: fs rule: legacy_blockers.induct)
  case (1 h i)
  then show ?case by (intro exI [of _ "[]"]) simp
next
  case (2 h i v vs)
  from "2.prems" obtain body gs where v: "v = JString body" "py_strip body \<noteq> []" "legacy_blockers h (i + 1) vs = Ok gs"
    "fs = legacy_blocker h i body # gs" by (cases v) (auto simp: bind_result_Ok_iff split: if_splits)
  from "2.IH" [OF v(1,2,3)] obtain bodies where "gs = map (\<lambda>(j, b). legacy_blocker h j b) (enumerate (i + 1) bodies)" by blast
  then show ?case using v(4) by (intro exI [of _ "body # bodies"]) simp
qed

lemma enumerate_all: "list_all P (map f (enumerate n xs)) \<longleftrightarrow> (\<forall>i < length xs. P (f (n + i, xs ! i)))"
  by (simp add: list_all_length nth_enumerate_eq)

lemma legacy_findings:
  assumes "findings_from_legacy_lists P b m n h = Ok fs" "hex_string 40 h"
  shows "list_all finding_ok fs \<and> distinct (map rf_id fs) \<and> length fs \<le> MAX_FINDINGS"
proof -
  define noted_list where "noted_list sev vs = map (\<lambda>(i, v). legacy_note sev h i (py_str P v)) (enumerate 0 vs)" for sev and vs :: "json list"
  obtain bs bf majors minors where "legacy_blockers h 0 bs = Ok bf" and len: "length fs \<le> MAX_FINDINGS"
    and fs: "fs = bf @ noted_list ''major'' majors @ noted_list ''minor'' minors"
    using assms(1) unfolding findings_from_legacy_lists_def bind_result_Ok_iff Let_def noted_list_def require_Ok by auto
  then obtain bodies where bf: "bf = map (\<lambda>(j, b). legacy_blocker h j b) (enumerate 0 bodies)" using legacy_blockers_shape by blast
  have blockers: "list_all finding_ok bf" if "length bf \<le> MAX_FINDINGS"
    using that legacy_ok(1) [OF _ assms(2)] unfolding bf enumerate_all by auto
  have noted: "list_all finding_ok (noted_list sev vs)" if "length (noted_list sev vs) \<le> MAX_FINDINGS" "sev \<in> {''major'', ''minor''}" for sev vs
    using that legacy_ok(2) [OF _ assms(2), of _ sev] unfolding noted_list_def enumerate_all by auto
  have "list_all finding_ok fs"
    using len blockers noted [of "''major''" majors] noted [of "''minor''" minors] unfolding fs by simp
  have ids: "map rf_id bf = map (\<lambda>j. ''blocker-'' @ show_nat (Suc j)) [0..<length bodies]"
      "map rf_id (noted_list sev vs) = map (\<lambda>j. sev @ ''-'' @ show_nat (Suc j)) [0..<length vs]" for sev vs
    by (rule nth_equalityI; simp add: bf noted_list_def nth_enumerate_eq legacy_blocker_def legacy_note_def)+
  have "distinct (map rf_id bf)" "distinct (map rf_id (noted_list sev vs))" for sev vs
    unfolding ids by (simp_all add: distinct_map inj_on_def)
  moreover have "set (map rf_id bf) \<inter> set (map rf_id (noted_list ''major'' vs)) = {}" "set (map rf_id bf) \<inter> set (map rf_id (noted_list ''minor'' vs)) = {}" for vs
    unfolding ids by auto
  moreover have "set (map rf_id (noted_list ''major'' vs)) \<inter> set (map rf_id (noted_list ''minor'' us)) = {}" for vs us
    unfolding ids by auto
  ultimately have "distinct (map rf_id fs)" unfolding fs map_append distinct_append set_append by (simp only: Int_Un_distrib Un_empty simp_thms)
  then show ?thesis using \<open>list_all finding_ok fs\<close> len by blast
qed

text \<open>
  A decision made from an artifact is one that the protocol takes, when the artifact leaves range and prior head
  to the caller and its structured findings are not too many and have different identifiers.
\<close>

lemma artifact_decision_ok:
  assumes "decision_from_legacy_artifact P (JObject a) mode r base prior = Ok d"
    and "\<not> py_truthy (dget a ''reviewed_range'')" "\<not> py_truthy (dget a ''prior_reviewed_head'')" "prior = [] \<or> hex_string 40 prior"
    and "dget a ''findings'' = JNull \<or> distinct (map rf_id (rd_findings d)) \<and> length (rd_findings d) \<le> MAX_FINDINGS"
  shows "decision_ok d"
proof -
  define head where "head = str_of (artifact_head a)"
  obtain findings flags n where fs: "artifact_findings P a head = Ok findings" and head: "hex_string 40 head"
    and verdict: "str_in (filter (\<lambda>v. v \<noteq> ''INVALIDATED'') CONTROL_VERDICTS) (dget a ''verdict'')"
    and d: "d = artifact_decision P a mode base prior findings flags n" and cross: "validate_decision_cross_fields d = Ok ()"
    using assms(1) unfolding decision_from_legacy_artifact_def as_object.simps option.case Let_def bind_result_Ok_iff require_Ok head_def
    by auto
  have parts: "rd_findings d = fst findings" "rd_reviewed_head d = head" "rd_reviewed_base d = artifact_base P a base"
    "rd_verdict d = str_of (dget a ''verdict'')" "rd_reviewed_range d = artifact_base P a base @ ''...'' @ head" "rd_prior_reviewed_head d = prior"
    using assms(2,3) by (simp_all add: d artifact_decision_def Let_def head_def py_or_def py_str_def)
  have base: "hex_string 40 (artifact_base P a base)"
    by (auto simp: artifact_base_def Let_def hex_string_def list_all_iff is_hex_def char_in_def)
  have all: "list_all finding_ok (fst findings) \<and> (dget a ''findings'' = JNull \<longrightarrow> distinct (map rf_id (fst findings)) \<and> length (fst findings) \<le> MAX_FINDINGS)"
  proof (cases "dget a ''findings'' = JNull")
    case True
    then have "\<exists>b m n. findings_from_legacy_lists P b m n head = Ok (fst findings)"
      using fs by (auto simp: artifact_findings_def bind_result_Ok_iff intro!: exI)
    then show ?thesis using legacy_findings [OF _ head] by blast
  next
    case False
    then have "\<exists>vs. normalize_findings vs = Ok (fst findings)"
      using fs by (cases "dget a ''findings''") (auto simp: artifact_findings_def bind_result_Ok_iff)
    then show ?thesis using normalize_findings_ok False by blast
  qed
  obtain v where "dget a ''verdict'' = JString v" "v \<in> set CONTROL_VERDICTS" "v \<noteq> ''INVALIDATED''"
    using verdict unfolding str_in_def str_case by auto
  then show ?thesis
    using assms(4,5) head base cross all unfolding decision_ok_def parts by (auto simp: str_of_def)
qed

end
