(* ===== verification/Spec2Isabelle.thy ===== *)
theory Spec2Isabelle
  imports Dag_Theorems Dependency_Theorems Recursive_Theorems Concurrency_Controller
    Circuit_Breaker Run_Queue Recursive_Control Dag_Mutation_Policy Workflow_Engine
    Review_Theorems Convergence_Theorems
begin

text \<open>
  A verification development of the agent harness.
\<close>

end
